(* ===== verification/Prelude.thy ===== *)
theory Prelude
  imports Main "HOL-Library.Word"
begin

text \<open>
  Shared vocabulary of the wscpp development: machine integers, byte buffers, the byte/character
  correspondence of \<open>std::string\<close>, and the generic lemmas on lists and words that the component
  theories rely on.  The collection \<open>buf_simps\<close> holds the facts about in-place buffer updates,
  \<open>byte_simps\<close> those about splitting machine words into bytes.
\<close>

unbundle bit_operations_syntax

named_theorems buf_simps
named_theorems byte_simps

type_synonym u8 = "8 word"
type_synonym u16 = "16 word"
type_synonym u32 = "32 word"
type_synonym u64 = "64 word"
type_synonym bytes = "u8 list"

section \<open>Buffers: overwriting a region in place\<close>

text \<open>\<open>overwrite buf i xs\<close> is the effect of \<open>memcpy(buf + i, xs, |xs|)\<close> on the whole buffer.\<close>

definition overwrite :: "'a list \<Rightarrow> nat \<Rightarrow> 'a list \<Rightarrow> 'a list" where
  "overwrite buf i xs = take i buf @ xs @ drop (i + length xs) buf"

lemma length_overwrite [simp]:
  "i + length xs \<le> length buf \<Longrightarrow> length (overwrite buf i xs) = length buf"
  by (simp add: overwrite_def)

lemma overwrite_append [buf_simps]:
  assumes "length as = i" and "length ys = length xs"
  shows "overwrite (as @ xs @ bs) i ys = as @ ys @ bs"
  using assms by (simp add: overwrite_def)

lemma take_overwrite_0: "take (length xs) (overwrite buf 0 xs) = xs"
  by (simp add: overwrite_def)

section \<open>Machine words as byte sequences\<close>

text \<open>
  A fixed-width integer read from memory by \<open>memcpy\<close> on a little-endian host: the byte at the
  lowest address is the least significant one.
\<close>

fun bytes_to_word :: "bytes \<Rightarrow> 'w::len word" where
  "bytes_to_word [] = 0"
| "bytes_to_word (b # bs) = ucast b OR push_bit 8 (bytes_to_word bs)"

definition word_to_bytes :: "nat \<Rightarrow> 'w::len word \<Rightarrow> bytes" where
  "word_to_bytes n v = map (\<lambda>k. ucast (drop_bit (8 * k) v)) [0..<n]"

lemma length_word_to_bytes [simp, byte_simps]: "length (word_to_bytes n v) = n"
  by (simp add: word_to_bytes_def)

lemma upt_2: "[0..<2] = [0, 1]" and upt_8: "[0..<8] = [0, 1, 2, 3, 4, 5, 6, 7]"
  by (simp_all add: upt_rec)

lemma bit_bytes_to_word:
  "bit (bytes_to_word bs :: 'w::len word) i \<longleftrightarrow>
     i < LENGTH('w) \<and> i div 8 < length bs \<and> bit (bs ! (i div 8)) (i mod 8)"
proof (induction bs arbitrary: i)
  case Nil
  then show ?case by simp
next
  case (Cons b bs)
  show ?case
  proof (cases "i < 8")
    case True
    then show ?thesis by (auto simp: bit_simps)
  next
    case False
    then obtain j where i: "i = 8 + j" using le_Suc_ex by (metis not_less)
    have "\<not> bit b i" using i by (auto dest: bit_imp_le_length)
    moreover have "(8 + j) div 8 = Suc (j div 8)" by simp
    ultimately show ?thesis
      using i by (auto simp: bit_simps Cons.IH)
  qed
qed

lemma word_to_bytes_xor:
  assumes "length xs = n" and "length ys = n" and "8 * n \<le> LENGTH('w)"
  shows "word_to_bytes n ((bytes_to_word xs :: 'w::len word) XOR bytes_to_word ys) = map2 (XOR) xs ys"
proof (rule nth_equalityI)
  show "length (word_to_bytes n ((bytes_to_word xs :: 'w word) XOR bytes_to_word ys))
      = length (map2 (XOR) xs ys)"
    using assms by simp
next
  fix k
  assume "k < length (word_to_bytes n ((bytes_to_word xs :: 'w word) XOR bytes_to_word ys))"
  then have k: "k < n" by simp
  have "ucast (drop_bit (8 * k) ((bytes_to_word xs :: 'w word) XOR bytes_to_word ys)) = xs ! k XOR ys ! k"
    (is "?l = ?r")
  proof (rule bit_word_eqI)
    fix j assume "j < LENGTH(8)"
    then have j: "j < 8" by simp
    then have "(8 * k + j) div 8 = k" "(8 * k + j) mod 8 = j" "8 * k + j < LENGTH('w)"
      using k assms(3) by auto
    then show "bit ?l j = bit ?r j"
      using j k assms(1,2) by (simp add: bit_simps bit_bytes_to_word)
  qed
  then show "word_to_bytes n ((bytes_to_word xs :: 'w word) XOR bytes_to_word ys) ! k = map2 (XOR) xs ys ! k"
    using k assms by (simp add: word_to_bytes_def)
qed

section \<open>Characters and bytes\<close>

text \<open>A \<open>std::string\<close> is a byte sequence; its characters are the bytes of the wire.\<close>

definition bytes_of_string :: "string \<Rightarrow> bytes" where
  "bytes_of_string s = map of_char s"

definition string_of_bytes :: "bytes \<Rightarrow> string" where
  "string_of_bytes bs = map (\<lambda>b. char_of (unat b)) bs"

lemma unat_of_char: "unat (of_char c :: u8) = of_char c"
proof -
  have "(of_char c :: u8) = of_nat (of_char c)" by (simp add: of_nat_of_char)
  moreover have "(of_char c :: nat) < 256" by simp
  ultimately show ?thesis by (simp add: unat_of_nat)
qed

lemma string_of_bytes_of_string [simp]: "string_of_bytes (bytes_of_string s) = s"
  by (simp add: string_of_bytes_def bytes_of_string_def unat_of_char comp_def)

lemma length_bytes_of_string [simp]: "length (bytes_of_string s) = length s"
  by (simp add: bytes_of_string_def)

lemma length_string_of_bytes [simp]: "length (string_of_bytes s) = length s"
  by (simp add: string_of_bytes_def)

text \<open>\<open>hay.find(needle) != std::string::npos\<close>\<close>

fun contains :: "'a list \<Rightarrow> 'a list \<Rightarrow> bool" where
  "contains needle [] \<longleftrightarrow> needle = []"
| "contains needle (x # xs) \<longleftrightarrow> take (length needle) (x # xs) = needle \<or> contains needle xs"

lemma contains_iff: "contains needle hay \<longleftrightarrow> (\<exists>as bs. hay = as @ needle @ bs)"
proof (induction hay)
  case Nil
  then show ?case by auto
next
  case (Cons x xs)
  have "take (length needle) (x # xs) = needle \<longleftrightarrow> (\<exists>bs. x # xs = needle @ bs)"
    by (metis append_eq_conv_conj append_take_drop_id)
  moreover have "(\<exists>as bs. x # xs = as @ needle @ bs) \<longleftrightarrow>
      (\<exists>bs. x # xs = needle @ bs) \<or> (\<exists>as bs. xs = as @ needle @ bs)"
    by (metis Cons_eq_append_conv append_Cons append_Nil)
  ultimately show ?case using Cons.IH by simp
qed

lemma bytes_of_string_append [simp]: "bytes_of_string (a @ b) = bytes_of_string a @ bytes_of_string b"
  by (simp add: bytes_of_string_def)

lemma string_of_bytes_append [simp]: "string_of_bytes (a @ b) = string_of_bytes a @ string_of_bytes b"
  by (simp add: string_of_bytes_def)

text \<open>Decimal digits, as \<open>std::to_string\<close> writes them.\<close>

fun nat_digits :: "nat \<Rightarrow> string" where
  "nat_digits n = (if n < 10 then [char_of (48 + n)] else nat_digits (n div 10) @ [char_of (48 + n mod 10)])"

declare nat_digits.simps [simp del]

end
