(* ===== verification/Frame.thy ===== *)
theory Frame
  imports Prelude
begin

text \<open>
  Frame vocabulary shared by builder, parser and connection (\<open>include/wscpp/frame/parser.hpp\<close>).
  \<open>enum class opcode : uint8_t\<close> has six named values, but a \<open>static_cast\<close> from a byte yields any
  value of the underlying type; those without a name are \<open>RESERVED\<close>.
\<close>

datatype opcode = CONTINUATION | TEXT | BINARY | CLOSE | PING | PONG | RESERVED u8

definition opcode_of :: "u8 \<Rightarrow> opcode" where
  "opcode_of b =
     (if b = 0 then CONTINUATION else if b = 1 then TEXT else if b = 2 then BINARY
      else if b = 8 then CLOSE else if b = 9 then PING else if b = 0xA then PONG
      else RESERVED b)"

primrec op_val :: "opcode \<Rightarrow> u8" where
  "op_val CONTINUATION = 0"
| "op_val TEXT = 1"
| "op_val BINARY = 2"
| "op_val CLOSE = 8"
| "op_val PING = 9"
| "op_val PONG = 0xA"
| "op_val (RESERVED b) = b"

record frame_header =
  fh_fin :: bool
  fh_rsv1 :: bool
  fh_rsv2 :: bool
  fh_rsv3 :: bool
  fh_op :: opcode
  fh_mask :: bool
  fh_payload_len :: u64
  fh_masking_key :: bytes

datatype parse_result = INCOMPLETE | COMPLETE | ERROR

text \<open>The opcode test both readers make on the raw value.\<close>

definition valid_op_val :: "u8 \<Rightarrow> bool" where
  "valid_op_val v \<longleftrightarrow> v \<le> 0x02 \<or> (0x08 \<le> v \<and> v \<le> 0x0A)"

definition named :: "opcode \<Rightarrow> bool" where
  "named opc \<longleftrightarrow> (case opc of RESERVED _ \<Rightarrow> False | _ \<Rightarrow> True)"

definition data_opcode :: "opcode \<Rightarrow> bool" where
  "data_opcode opc \<longleftrightarrow> opc = TEXT \<or> opc = BINARY \<or> opc = CONTINUATION"

lemma op_val_opcode_of [simp]: "op_val (opcode_of b) = b"
  by (simp add: opcode_of_def)

lemma opcode_of_op_val: "named opc \<Longrightarrow> opcode_of (op_val opc) = opc"
  by (cases opc) (simp_all add: named_def opcode_of_def)

lemma u8_small_cases: "v \<le> (2::u8) \<longleftrightarrow> v = 0 \<or> v = 1 \<or> v = 2"
  by (auto simp: word_le_nat_alt word_unat_eq_iff)

lemma u8_control_cases: "8 \<le> v \<and> v \<le> (0xA::u8) \<longleftrightarrow> v = 8 \<or> v = 9 \<or> v = 0xA"
  by (auto simp: word_le_nat_alt word_unat_eq_iff)

lemma valid_op_val_iff: "valid_op_val v \<longleftrightarrow> named (opcode_of v)"
  unfolding valid_op_val_def u8_small_cases u8_control_cases by (auto simp: opcode_of_def named_def)

section \<open>The first two octets of a frame\<close>

definition first_octet :: "bool \<Rightarrow> bool \<Rightarrow> opcode \<Rightarrow> u8" where
  "first_octet fin rsv1 opc = (if fin then 0x80 else 0) OR (if rsv1 then 0x40 else 0) OR op_val opc"

lemma first_octet_fields:
  assumes "named opc"
  shows "first_octet fin rsv1 opc AND 0x80 \<noteq> 0 \<longleftrightarrow> fin"
    and "first_octet fin rsv1 opc AND 0x40 \<noteq> 0 \<longleftrightarrow> rsv1"
    and "first_octet fin rsv1 opc AND 0x20 = 0"
    and "first_octet fin rsv1 opc AND 0x10 = 0"
    and "first_octet fin rsv1 opc AND 0x0F = op_val opc"
  using assms by (cases opc; simp add: first_octet_def named_def)+

lemma len_octet_fields:
  fixes x :: u8
  assumes "unat x < 128"
  shows "((if m then 0x80 else 0) OR x) AND 0x7F = x"
    and "((if m then 0x80 else 0) OR x) AND 0x80 \<noteq> 0 \<longleftrightarrow> m"
proof -
  have m7: "(0x7F :: u8) = mask 7" by (simp add: mask_eq_exp_minus_1)
  have tb: "take_bit 7 x = x"
    using assms by (simp add: word_unat_eq_iff unsigned_take_bit_eq take_bit_nat_eq_self)
  have "(0x80 OR x) AND 0x7F = take_bit 7 (0x80 OR x)" unfolding m7 by (simp only: take_bit_eq_mask)
  also have "\<dots> = x" by (simp only: take_bit_or tb) simp
  finally show "((if m then 0x80 else 0) OR x) AND 0x7F = x"
    using tb by (simp add: m7 take_bit_eq_mask)
  have "x AND 0x80 = take_bit 7 x AND 0x80" by (simp only: tb)
  also have "\<dots> = 0" by (simp add: m7 take_bit_eq_mask and.assoc flip: m7)
  finally show "((if m then 0x80 else 0) OR x) AND 0x80 \<noteq> 0 \<longleftrightarrow> m"
    by (simp add: bit.conj_disj_distrib2)
qed

end
