(* ===== verification/Mask.thy ===== *)
theory Mask
  imports Prelude
begin

text \<open>
  Payload masking (\<open>include/wscpp/detail/mask.hpp\<close>).  \<open>apply_mask\<close> masks a region in place with
  eight-, four- and one-byte steps; \<open>copy_and_unmask\<close> copies a chunk and unmasks it at an offset
  within the frame.  Both are shown equal to \<open>mask_from\<close>, the octet-by-octet rule of RFC 6455
  section 5.3.  A region is a byte list; \<open>memcpy\<close> between a region and an integer is
  \<open>bytes_to_word\<close> / \<open>word_to_bytes\<close> (little-endian host, as the function names say).
\<close>

section \<open>Model\<close>

definition load_u32_le :: "bytes \<Rightarrow> nat \<Rightarrow> u32" where
  "load_u32_le data p = bytes_to_word (take 4 (drop p data))"

definition store_u32_le :: "bytes \<Rightarrow> nat \<Rightarrow> u32 \<Rightarrow> bytes" where
  "store_u32_le data p v = overwrite data p (word_to_bytes 4 v)"

definition load_u64_le :: "bytes \<Rightarrow> nat \<Rightarrow> u64" where
  "load_u64_le data p = bytes_to_word (take 8 (drop p data))"

definition store_u64_le :: "bytes \<Rightarrow> nat \<Rightarrow> u64 \<Rightarrow> bytes" where
  "store_u64_le data p v = overwrite data p (word_to_bytes 8 v)"

definition mask_key64 :: "u32 \<Rightarrow> u64" where
  "mask_key64 key = ucast key OR push_bit 32 (ucast key)"

text \<open>The five loops of \<open>apply_mask\<close>, each returning the region and the index it stopped at.\<close>

function mask_head :: "bytes \<Rightarrow> nat \<Rightarrow> bytes \<Rightarrow> bytes \<times> nat" where
  "mask_head data i key =
     (if i < length data \<and> i AND 3 \<noteq> 0
      then mask_head (data[i := data ! i XOR key ! (i AND 3)]) (Suc i) key
      else (data, i))"
  by pat_completeness auto
termination
  by (relation "measure (\<lambda>(data, i, key). length data - i)") auto

definition xor_u64_at :: "u64 \<Rightarrow> nat \<Rightarrow> bytes \<Rightarrow> bytes" where
  "xor_u64_at key64 p data = store_u64_le data p (load_u64_le data p XOR key64)"

definition xor_u32_at :: "u32 \<Rightarrow> nat \<Rightarrow> bytes \<Rightarrow> bytes" where
  "xor_u32_at key32 p data = store_u32_le data p (load_u32_le data p XOR key32)"

lemma length_xor_u64_at [simp]: "p + 8 \<le> length data \<Longrightarrow> length (xor_u64_at k p data) = length data"
  by (simp add: xor_u64_at_def store_u64_le_def)

lemma length_xor_u32_at [simp]: "p + 4 \<le> length data \<Longrightarrow> length (xor_u32_at k p data) = length data"
  by (simp add: xor_u32_at_def store_u32_le_def)

function mask_loop64 :: "bytes \<Rightarrow> nat \<Rightarrow> u64 \<Rightarrow> bytes \<times> nat" where
  "mask_loop64 data i key64 =
     (if i + 64 \<le> length data
      then mask_loop64
             (xor_u64_at key64 (i + 56) (xor_u64_at key64 (i + 48) (xor_u64_at key64 (i + 40)
             (xor_u64_at key64 (i + 32) (xor_u64_at key64 (i + 24) (xor_u64_at key64 (i + 16)
             (xor_u64_at key64 (i + 8) (xor_u64_at key64 i data)))))))) (i + 64) key64
      else (data, i))"
  by pat_completeness auto
termination
  by (relation "measure (\<lambda>(data, i, key). length data - i)") auto

function mask_loop32 :: "bytes \<Rightarrow> nat \<Rightarrow> u64 \<Rightarrow> bytes \<times> nat" where
  "mask_loop32 data i key64 =
     (if i + 32 \<le> length data
      then mask_loop32
             (xor_u64_at key64 (i + 24) (xor_u64_at key64 (i + 16)
             (xor_u64_at key64 (i + 8) (xor_u64_at key64 i data)))) (i + 32) key64
      else (data, i))"
  by pat_completeness auto
termination
  by (relation "measure (\<lambda>(data, i, key). length data - i)") auto

function mask_loop8 :: "bytes \<Rightarrow> nat \<Rightarrow> u64 \<Rightarrow> bytes \<times> nat" where
  "mask_loop8 data i key64 =
     (if i + 8 \<le> length data
      then mask_loop8 (xor_u64_at key64 i data) (i + 8) key64 else (data, i))"
  by pat_completeness auto
termination
  by (relation "measure (\<lambda>(data, i, key). length data - i)") auto

function mask_loop4 :: "bytes \<Rightarrow> nat \<Rightarrow> u32 \<Rightarrow> bytes \<times> nat" where
  "mask_loop4 data i key32 =
     (if i + 4 \<le> length data
      then mask_loop4 (xor_u32_at key32 i data) (i + 4) key32 else (data, i))"
  by pat_completeness auto
termination
  by (relation "measure (\<lambda>(data, i, key). length data - i)") auto

function mask_tail :: "bytes \<Rightarrow> nat \<Rightarrow> bytes \<Rightarrow> bytes" where
  "mask_tail data i key =
     (if i < length data
      then mask_tail (data[i := data ! i XOR key ! (i AND 3)]) (Suc i) key else data)"
  by pat_completeness auto
termination
  by (relation "measure (\<lambda>(data, i, key). length data - i)") auto

lemmas mask_loop_simps = mask_head.simps mask_loop64.simps mask_loop32.simps mask_loop8.simps
  mask_loop4.simps mask_tail.simps
declare mask_loop_simps [simp del]

definition apply_mask :: "bytes \<Rightarrow> bytes \<Rightarrow> bytes" where
  "apply_mask data key =
     (if data = [] then data
      else let (d0, i0) = mask_head data 0 key;
               key32 = load_u32_le key 0;
               key64 = mask_key64 key32;
               (d1, i1) = mask_loop64 d0 i0 key64;
               (d2, i2) = mask_loop32 d1 i1 key64;
               (d3, i3) = mask_loop8 d2 i2 key64;
               (d4, i4) = mask_loop4 d3 i3 key32
           in mask_tail d4 i4 key)"

function copy_loop :: "bytes \<Rightarrow> bytes \<Rightarrow> nat \<Rightarrow> nat \<Rightarrow> nat \<Rightarrow> bytes \<Rightarrow> bytes" where
  "copy_loop dst src sz i pos key =
     (if i < sz
      then if pos AND 7 = 0 \<and> i + 8 \<le> sz
           then copy_loop
                  (store_u64_le dst i (load_u64_le src i XOR mask_key64 (load_u32_le key 0)))
                  src sz (i + 8) (pos + 8) key
           else if pos AND 3 = 0 \<and> i + 4 \<le> sz
           then copy_loop (store_u32_le dst i (load_u32_le src i XOR load_u32_le key 0))
                  src sz (i + 4) (pos + 4) key
           else copy_loop (dst[i := src ! i XOR key ! (pos AND 3)]) src sz (Suc i) (Suc pos) key
      else dst)"
  by pat_completeness auto
termination
  by (relation "measure (\<lambda>(dst, src, sz, i, pos, key). sz - i)") auto

declare copy_loop.simps [simp del]

definition copy_and_unmask :: "bytes \<Rightarrow> bytes \<Rightarrow> nat \<Rightarrow> nat \<Rightarrow> bytes \<Rightarrow> bytes" where
  "copy_and_unmask dst src sz dst_offset key =
     (if sz = 0 then dst else copy_loop dst src sz 0 dst_offset key)"

section \<open>The masking rule of RFC 6455, section 5.3\<close>

fun mask_from :: "bytes \<Rightarrow> nat \<Rightarrow> bytes \<Rightarrow> bytes" where
  "mask_from key off [] = []"
| "mask_from key off (x # xs) = (x XOR key ! (off mod 4)) # mask_from key (Suc off) xs"

lemma length_mask_from [simp]: "length (mask_from key off xs) = length xs"
  by (induction xs arbitrary: off) auto

lemma mask_from_eq_Nil [simp]: "mask_from key off xs = [] \<longleftrightarrow> xs = []"
  by (cases xs) auto

lemma mask_from_append:
  "mask_from key off (xs @ ys) = mask_from key off xs @ mask_from key (off + length xs) ys"
  by (induction xs arbitrary: off) auto

lemma mask_from_nth:
  "j < length xs \<Longrightarrow> mask_from key off xs ! j = xs ! j XOR key ! ((off + j) mod 4)"
proof (induction xs arbitrary: off j)
  case (Cons x xs)
  then show ?case by (cases j) auto
qed simp

lemma mask_from_involutive [simp]: "mask_from key off (mask_from key off xs) = xs"
  by (induction xs arbitrary: off) (auto simp: xor.assoc)

lemma mask_from_take: "take n (mask_from key off xs) = mask_from key off (take n xs)"
proof (induction xs arbitrary: off n)
  case (Cons x xs)
  then show ?case by (cases n) auto
qed simp

lemma mask_from_drop: "drop n (mask_from key off xs) = mask_from key (off + n) (drop n xs)"
proof (induction xs arbitrary: off n)
  case (Cons x xs)
  then show ?case by (cases n) auto
qed simp

section \<open>Word-sized steps agree with the octet rule\<close>

lemma nat_and_3: "(i::nat) AND 3 = i mod 4"
  using take_bit_eq_mask [of 2 i] by (simp add: mask_eq_exp_minus_1 take_bit_eq_mod)

lemma nat_and_7: "(i::nat) AND 7 = i mod 8"
  using take_bit_eq_mask [of 3 i] by (simp add: mask_eq_exp_minus_1 take_bit_eq_mod)

lemma mask_key64_bytes:
  assumes "length key = 4"
  shows "mask_key64 (bytes_to_word key) = bytes_to_word (key @ key)"
proof (rule bit_word_eqI)
  fix i assume "i < LENGTH(64)"
  then have i: "i < 64" by simp
  show "bit (mask_key64 (bytes_to_word key)) i = bit (bytes_to_word (key @ key) :: u64) i"
  proof (cases "i < 32")
    case True
    then have "i div 8 < 4" by auto
    with True i assms show ?thesis
      by (simp add: mask_key64_def bit_simps bit_bytes_to_word nth_append)
  next
    case False
    then obtain j where j: "i = 32 + j" using le_Suc_ex by (metis not_less)
    have "(32 + j) div 8 = 4 + j div 8" "(32 + j) mod 8 = j mod 8" by presburger+
    with j i assms show ?thesis
      by (auto simp: mask_key64_def bit_simps bit_bytes_to_word nth_append)
  qed
qed

lemma length_4_cases:
  assumes "length xs = 4" obtains a b c d where "xs = [a, b, c, d]"
proof -
  from assms have "length xs = Suc (Suc (Suc (Suc 0)))" by simp
  then show thesis using that by (auto simp: length_Suc_conv)
qed

lemma mask_from_4:
  assumes "length key = 4" and "off mod 4 = 0" and "length xs = 4"
  shows "mask_from key off xs = map2 (XOR) xs key"
proof (rule nth_equalityI)
  fix j assume "j < length (mask_from key off xs)"
  then have j: "j < 4" using assms by simp
  have "(off + j) mod 4 = j" using assms(2) j by presburger
  then show "mask_from key off xs ! j = map2 (XOR) xs key ! j"
    using j assms by (simp add: mask_from_nth)
qed (use assms in simp)

lemma mask_from_8:
  assumes "length key = 4" and "off mod 4 = 0" and "length xs = 8"
  shows "mask_from key off xs = map2 (XOR) xs (key @ key)"
proof (rule nth_equalityI)
  fix j assume "j < length (mask_from key off xs)"
  then have j: "j < 8" using assms by simp
  have "(off + j) mod 4 = (if j < 4 then j else j - 4)" using assms(2) j by presburger
  then show "mask_from key off xs ! j = map2 (XOR) xs (key @ key) ! j"
    using j assms by (simp add: mask_from_nth nth_append)
qed (use assms in simp)

lemma xor_bytes_8:
  assumes "length key = 4" and "off mod 4 = 0" and "i + 8 \<le> length src"
  shows "word_to_bytes 8 (load_u64_le src i XOR mask_key64 (load_u32_le key 0))
       = mask_from key off (take 8 (drop i src))"
  using assms
  by (simp add: load_u64_le_def load_u32_le_def mask_key64_bytes word_to_bytes_xor mask_from_8)

lemma xor_bytes_4:
  assumes "length key = 4" and "off mod 4 = 0" and "i + 4 \<le> length src"
  shows "word_to_bytes 4 (load_u32_le src i XOR load_u32_le key 0)
       = mask_from key off (take 4 (drop i src))"
  using assms by (simp add: load_u32_le_def word_to_bytes_xor mask_from_4)

section \<open>In-place masking\<close>

text \<open>The loop invariant: everything before index \<open>i\<close> is masked, the rest untouched.\<close>

definition masked_upto :: "bytes \<Rightarrow> bytes \<Rightarrow> nat \<Rightarrow> bytes \<Rightarrow> bool" where
  "masked_upto key orig i data \<longleftrightarrow> i \<le> length orig \<and> data = mask_from key 0 (take i orig) @ drop i orig"

lemma masked_upto_length: "masked_upto key orig i data \<Longrightarrow> length data = length orig"
  by (simp add: masked_upto_def)

lemma masked_upto_drop: "masked_upto key orig i data \<Longrightarrow> drop i data = drop i orig"
  by (simp add: masked_upto_def)

lemma masked_upto_overwrite:
  assumes "masked_upto key orig i data" and "i + n \<le> length orig"
    and "xs = mask_from key i (take n (drop i orig))"
  shows "masked_upto key orig (i + n) (overwrite data i xs)"
proof -
  have "take (i + n) orig = take i orig @ take n (drop i orig)" by (simp add: take_add)
  then have "mask_from key 0 (take (i + n) orig) = mask_from key 0 (take i orig) @ xs"
    using assms by (simp add: mask_from_append masked_upto_def)
  moreover have "length xs = n" using assms by simp
  ultimately show ?thesis
    using assms(1,2) by (simp add: masked_upto_def overwrite_def add.commute)
qed

lemma masked_upto_u64:
  assumes "masked_upto key orig i data" and "length key = 4" and "i mod 4 = 0"
    and "i + 8 \<le> length orig"
  shows "masked_upto key orig (i + 8) (xor_u64_at (mask_key64 (load_u32_le key 0)) i data)"
proof -
  have "word_to_bytes 8 (load_u64_le data i XOR mask_key64 (load_u32_le key 0))
      = mask_from key i (take 8 (drop i orig))"
    using assms masked_upto_length [OF assms(1)] masked_upto_drop [OF assms(1)]
    by (simp add: xor_bytes_8)
  with assms(1,4) show ?thesis
    by (simp add: xor_u64_at_def store_u64_le_def masked_upto_overwrite)
qed

lemma masked_upto_u32:
  assumes "masked_upto key orig i data" and "length key = 4" and "i mod 4 = 0"
    and "i + 4 \<le> length orig"
  shows "masked_upto key orig (i + 4) (xor_u32_at (load_u32_le key 0) i data)"
proof -
  have "word_to_bytes 4 (load_u32_le data i XOR load_u32_le key 0)
      = mask_from key i (take 4 (drop i orig))"
    using assms masked_upto_length [OF assms(1)] masked_upto_drop [OF assms(1)]
    by (simp add: xor_bytes_4)
  with assms(1,4) show ?thesis
    by (simp add: xor_u32_at_def store_u32_le_def masked_upto_overwrite)
qed

lemma masked_upto_u8:
  assumes "masked_upto key orig i data" and "i < length orig"
  shows "masked_upto key orig (Suc i) (data[i := data ! i XOR key ! (i AND 3)])"
proof -
  have len: "length data = length orig" using assms(1) by (rule masked_upto_length)
  have nth: "data ! i = orig ! i"
    using masked_upto_drop [OF assms(1)] assms(2) len by (metis hd_drop_conv_nth)
  have "overwrite data i [orig ! i XOR key ! (i mod 4)] = data[i := data ! i XOR key ! (i AND 3)]"
    using assms(2) len nth by (simp add: overwrite_def upd_conv_take_nth_drop nat_and_3)
  moreover have "take 1 (drop i orig) = [orig ! i]"
    using assms(2) by (simp add: take_Suc_conv_app_nth hd_drop_conv_nth take_Suc)
  ultimately show ?thesis
    using masked_upto_overwrite [OF assms(1), of 1 "[orig ! i XOR key ! (i mod 4)]"] assms(2) by simp
qed

lemma masked_upto_u64x4:
  assumes "masked_upto key orig i data" and "length key = 4" and "i mod 4 = 0"
    and "i + 32 \<le> length orig" and "k = mask_key64 (load_u32_le key 0)"
  shows "masked_upto key orig (i + 32)
    (xor_u64_at k (i + 24) (xor_u64_at k (i + 16) (xor_u64_at k (i + 8) (xor_u64_at k i data))))"
proof -
  have m: "(i + 8) mod 4 = 0" "(i + 16) mod 4 = 0" "(i + 24) mod 4 = 0" using assms(3) by presburger+
  have "masked_upto key orig (i + 8) (xor_u64_at k i data)" (is "masked_upto _ _ _ ?d1")
    using masked_upto_u64 [OF assms(1-3)] assms(4,5) by simp
  then have "masked_upto key orig (i + 16) (xor_u64_at k (i + 8) ?d1)" (is "masked_upto _ _ _ ?d2")
    using masked_upto_u64 [OF _ assms(2) m(1)] assms(4,5) by (simp add: add.assoc)
  then have "masked_upto key orig (i + 24) (xor_u64_at k (i + 16) ?d2)" (is "masked_upto _ _ _ ?d3")
    using masked_upto_u64 [OF _ assms(2) m(2)] assms(4,5) by (simp add: add.assoc)
  then show ?thesis
    using masked_upto_u64 [OF _ assms(2) m(3)] assms(4,5) by (simp add: add.assoc)
qed

text \<open>Each word loop keeps the invariant and stops at a multiple of four.\<close>

lemma mask_loop64_inv:
  assumes "masked_upto key orig i data" and "i mod 4 = 0" and "length key = 4"
    and "mask_loop64 data i (mask_key64 (load_u32_le key 0)) = (d, j)"
  shows "masked_upto key orig j d \<and> j mod 4 = 0"
  using assms
proof (induction data i "mask_key64 (load_u32_le key 0)" rule: mask_loop64.induct)
  case (1 data i)
  let ?k = "mask_key64 (load_u32_le key 0)"
  note len = masked_upto_length [OF "1.prems"(1)]
  show ?case
  proof (cases "i + 64 \<le> length data")
    case True
    have m: "(i + 32) mod 4 = 0" "(i + 64) mod 4 = 0" using "1.prems"(2) by presburger+
    have half: "masked_upto key orig (i + 32)
      (xor_u64_at ?k (i + 24) (xor_u64_at ?k (i + 16) (xor_u64_at ?k (i + 8) (xor_u64_at ?k i data))))"
      using masked_upto_u64x4 [OF "1.prems"(1) "1.prems"(3) "1.prems"(2)] True len by simp
    show ?thesis
      using "1.hyps" [OF True _ m(2) "1.prems"(3)] True len "1.prems"(4)
        masked_upto_u64x4 [OF half "1.prems"(3) m(1)]
      by (simp add: mask_loop64.simps [of data i] add.assoc)
  next
    case False
    with "1.prems" show ?thesis by (simp add: mask_loop64.simps [of data i])
  qed
qed

lemma mask_loop32_inv:
  assumes "masked_upto key orig i data" and "i mod 4 = 0" and "length key = 4"
    and "mask_loop32 data i (mask_key64 (load_u32_le key 0)) = (d, j)"
  shows "masked_upto key orig j d \<and> j mod 4 = 0"
  using assms
proof (induction data i "mask_key64 (load_u32_le key 0)" rule: mask_loop32.induct)
  case (1 data i)
  note len = masked_upto_length [OF "1.prems"(1)]
  show ?case
  proof (cases "i + 32 \<le> length data")
    case True
    have m: "(i + 32) mod 4 = 0" using "1.prems"(2) by presburger
    show ?thesis
      using "1.hyps" [OF True _ m "1.prems"(3)] True len "1.prems"(4)
        masked_upto_u64x4 [OF "1.prems"(1) "1.prems"(3) "1.prems"(2)]
      by (simp add: mask_loop32.simps [of data i])
  next
    case False
    with "1.prems" show ?thesis by (simp add: mask_loop32.simps [of data i])
  qed
qed

lemma mask_loop8_inv:
  assumes "masked_upto key orig i data" and "i mod 4 = 0" and "length key = 4"
    and "mask_loop8 data i (mask_key64 (load_u32_le key 0)) = (d, j)"
  shows "masked_upto key orig j d \<and> j mod 4 = 0"
  using assms
proof (induction data i "mask_key64 (load_u32_le key 0)" rule: mask_loop8.induct)
  case (1 data i)
  note len = masked_upto_length [OF "1.prems"(1)]
  show ?case
  proof (cases "i + 8 \<le> length data")
    case True
    have m: "(i + 8) mod 4 = 0" using "1.prems"(2) by presburger
    show ?thesis
      using "1.hyps" [OF True _ m "1.prems"(3)] True len "1.prems"(4)
        masked_upto_u64 [OF "1.prems"(1) "1.prems"(3) "1.prems"(2)]
      by (simp add: mask_loop8.simps [of data i])
  next
    case False
    with "1.prems" show ?thesis by (simp add: mask_loop8.simps [of data i])
  qed
qed

lemma mask_loop4_inv:
  assumes "masked_upto key orig i data" and "i mod 4 = 0" and "length key = 4"
    and "mask_loop4 data i (load_u32_le key 0) = (d, j)"
  shows "masked_upto key orig j d"
  using assms
proof (induction data i "load_u32_le key 0" rule: mask_loop4.induct)
  case (1 data i)
  note len = masked_upto_length [OF "1.prems"(1)]
  show ?case
  proof (cases "i + 4 \<le> length data")
    case True
    have m: "(i + 4) mod 4 = 0" using "1.prems"(2) by presburger
    show ?thesis
      using "1.hyps" [OF True _ m "1.prems"(3)] True len "1.prems"(4)
        masked_upto_u32 [OF "1.prems"(1) "1.prems"(3) "1.prems"(2)]
      by (simp add: mask_loop4.simps [of data i])
  next
    case False
    with "1.prems" show ?thesis by (simp add: mask_loop4.simps [of data i])
  qed
qed

lemma mask_tail_masks:
  "masked_upto key orig i data \<Longrightarrow> mask_tail data i key = mask_from key 0 orig"
proof (induction data i key rule: mask_tail.induct)
  case (1 data i key)
  note len = masked_upto_length [OF "1.prems"]
  show ?case
  proof (cases "i < length data")
    case True
    then show ?thesis
      using "1.IH" [OF True] masked_upto_u8 [OF "1.prems"] len
      by (simp add: mask_tail.simps [of data i])
  next
    case False
    then have "mask_tail data i key = data" by (simp add: mask_tail.simps [of data i])
    with False "1.prems" len show ?thesis by (simp add: masked_upto_def)
  qed
qed

lemma apply_mask_eq:
  assumes "length key = 4"
  shows "apply_mask data key = mask_from key 0 data"
proof (cases "data = []")
  case True
  then show ?thesis by (simp add: apply_mask_def)
next
  case False
  let ?k = "mask_key64 (load_u32_le key 0)"
  obtain d1 i1 where l1: "mask_loop64 data 0 ?k = (d1, i1)" by fastforce
  obtain d2 i2 where l2: "mask_loop32 d1 i1 ?k = (d2, i2)" by fastforce
  obtain d3 i3 where l3: "mask_loop8 d2 i2 ?k = (d3, i3)" by fastforce
  obtain d4 i4 where l4: "mask_loop4 d3 i3 (load_u32_le key 0) = (d4, i4)" by fastforce
  have 0: "masked_upto key data 0 data" by (simp add: masked_upto_def)
  have 1: "masked_upto key data i1 d1" "i1 mod 4 = 0"
    using mask_loop64_inv [OF 0 _ assms l1] by auto
  have 2: "masked_upto key data i2 d2" "i2 mod 4 = 0"
    using mask_loop32_inv [OF 1 assms l2] by auto
  have 3: "masked_upto key data i3 d3" "i3 mod 4 = 0"
    using mask_loop8_inv [OF 2 assms l3] by auto
  have "masked_upto key data i4 d4"
    by (rule mask_loop4_inv [OF 3 assms l4])
  then show ?thesis
    using False l1 l2 l3 l4
    by (simp add: apply_mask_def mask_head.simps [of data 0] mask_tail_masks)
qed

section \<open>Copy and unmask at an offset\<close>

text \<open>
  Invariant of the copying loop: the first \<open>i\<close> bytes of the destination hold the unmasked source,
  and the frame position runs in step with the index.
\<close>

definition copied_upto :: "bytes \<Rightarrow> nat \<Rightarrow> bytes \<Rightarrow> bytes \<Rightarrow> nat \<Rightarrow> bytes \<Rightarrow> bool" where
  "copied_upto key off src dst0 i dst \<longleftrightarrow>
     dst = mask_from key off (take i src) @ drop i dst0 \<and> i \<le> length src \<and> length src \<le> length dst0"

lemma copied_upto_overwrite:
  assumes "copied_upto key off src dst0 i dst" and "i + n \<le> length src"
    and "xs = mask_from key (off + i) (take n (drop i src))"
  shows "copied_upto key off src dst0 (i + n) (overwrite dst i xs)"
proof -
  have "take (i + n) src = take i src @ take n (drop i src)" by (simp add: take_add)
  then have "mask_from key off (take (i + n) src) = mask_from key off (take i src) @ xs"
    using assms by (simp add: mask_from_append copied_upto_def)
  moreover have "length xs = n" using assms by simp
  ultimately show ?thesis
    using assms(1,2) by (simp add: copied_upto_def overwrite_def add.commute)
qed

lemma copied_upto_u8:
  assumes "copied_upto key off src dst0 i dst" and "i < length src"
  shows "copied_upto key off src dst0 (Suc i) (dst[i := src ! i XOR key ! ((off + i) AND 3)])"
proof -
  have "take 1 (drop i src) = [src ! i]"
    using assms(2) by (simp add: hd_drop_conv_nth take_Suc)
  moreover have "overwrite dst i [src ! i XOR key ! ((off + i) mod 4)]
      = dst[i := src ! i XOR key ! ((off + i) AND 3)]"
    using assms by (simp add: overwrite_def upd_conv_take_nth_drop nat_and_3 copied_upto_def)
  ultimately show ?thesis
    using copied_upto_overwrite [OF assms(1), of 1 "[src ! i XOR key ! ((off + i) mod 4)]"] assms(2)
    by simp
qed

lemma copy_loop_eq:
  assumes "length key = 4" and "copied_upto key off src dst0 i dst" and "pos = off + i"
    and "n = length src"
  shows "copy_loop dst src n i pos key = mask_from key off src @ drop n dst0"
  using assms
proof (induction dst src n i pos key rule: copy_loop.induct)
  case (1 dst src n i pos key)
  let ?k32 = "load_u32_le key 0"
  note unfold = copy_loop.simps [of dst src n i pos key]
  consider (stop) "\<not> i < n"
    | (eight) "i < n" "pos AND 7 = 0 \<and> i + 8 \<le> n"
    | (four) "i < n" "\<not> (pos AND 7 = 0 \<and> i + 8 \<le> n)"
        "pos AND 3 = 0 \<and> i + 4 \<le> n"
    | (one) "i < n" "\<not> (pos AND 7 = 0 \<and> i + 8 \<le> n)"
        "\<not> (pos AND 3 = 0 \<and> i + 4 \<le> n)"
    by blast
  then show ?case
  proof cases
    case stop
    then have "copy_loop dst src n i pos key = dst" by (simp add: unfold)
    with stop "1.prems"(2) "1.prems"(4) show ?thesis by (simp add: copied_upto_def)
  next
    case eight
    then have "pos mod 4 = 0" unfolding nat_and_7 by presburger
    then have "copied_upto key off src dst0 (i + 8)
        (store_u64_le dst i (load_u64_le src i XOR mask_key64 ?k32))"
      using eight "1.prems"(3,4) copied_upto_overwrite [OF "1.prems"(2), of 8] xor_bytes_8 [OF "1.prems"(1)]
      by (simp add: store_u64_le_def)
    then show ?thesis
      unfolding unfold using "1.IH"(1) [OF eight "1.prems"(1)] eight "1.prems" by simp
  next
    case four
    then have "pos mod 4 = 0" by (simp add: nat_and_3)
    then have "copied_upto key off src dst0 (i + 4)
        (store_u32_le dst i (load_u32_le src i XOR ?k32))"
      using four "1.prems"(3,4) copied_upto_overwrite [OF "1.prems"(2), of 4] xor_bytes_4 [OF "1.prems"(1)]
      by (simp add: store_u32_le_def)
    then show ?thesis
      unfolding unfold using "1.IH"(2) [OF four "1.prems"(1)] four "1.prems" by auto
  next
    case one
    have "copied_upto key off src dst0 (Suc i) (dst[i := src ! i XOR key ! (pos AND 3)])"
      using copied_upto_u8 [OF "1.prems"(2)] one(1) "1.prems"(3,4) by simp
    then show ?thesis
      unfolding unfold using "1.IH"(3) [OF one "1.prems"(1)] one "1.prems" by auto
  qed
qed

lemma copy_and_unmask_eq:
  assumes "length key = 4" and "sz = length src" and "sz \<le> length dst"
  shows "copy_and_unmask dst src sz off key = mask_from key off src @ drop sz dst"
proof (cases "sz = 0")
  case True
  with assms show ?thesis by (simp add: copy_and_unmask_def)
next
  case False
  have "copied_upto key off src dst 0 dst" using assms by (simp add: copied_upto_def)
  from copy_loop_eq [OF assms(1) this _ assms(2)] False show ?thesis
    by (simp add: copy_and_unmask_def)
qed

end
