(* ===== verification/Builder.thy ===== *)
theory Builder
  imports Frame Mask
begin

text \<open>
  The frame builder (\<open>src/frame/builder.cpp\<close>, \<open>include/wscpp/frame/builder.hpp\<close>).  The pseudo-random
  generator that \<open>generate_masking_key\<close> draws from is an explicit source of bytes, consumed from the
  front.  \<open>build_into\<close> is shown to produce the RFC 6455 encoding \<open>encode_frame\<close>.
\<close>

section \<open>Model\<close>

record builder =
  bld_masking_key :: bytes

definition builder_new :: builder where
  "builder_new = \<lparr>bld_masking_key = [0x00, 0x00, 0x00, 0x00]\<rparr>"

text \<open>Successive draws of the uniform distribution over 0..255.\<close>

type_synonym rng = "nat \<Rightarrow> u8"

definition generate_masking_key :: "rng \<Rightarrow> bytes \<times> rng" where
  "generate_masking_key gen = ([gen 0, gen 1, gen 2, gen 3], \<lambda>n. gen (n + 4))"

definition append_payload_length :: "bytes \<Rightarrow> u8 \<Rightarrow> u64 \<Rightarrow> bytes" where
  "append_payload_length frame second_byte sz =
     (if sz \<le> 125 then frame @ [second_byte OR ucast sz]
      else if sz \<le> 65535
      then frame @ [second_byte OR 126, ucast (drop_bit 8 sz AND 0xFF), ucast (sz AND 0xFF)]
      else frame @ [second_byte OR 127,
             ucast (drop_bit 56 sz AND 0xFF), ucast (drop_bit 48 sz AND 0xFF),
             ucast (drop_bit 40 sz AND 0xFF), ucast (drop_bit 32 sz AND 0xFF),
             ucast (drop_bit 24 sz AND 0xFF), ucast (drop_bit 16 sz AND 0xFF),
             ucast (drop_bit 8 sz AND 0xFF), ucast (sz AND 0xFF)])"

definition mask_data :: "bytes \<Rightarrow> bytes \<Rightarrow> bytes" where
  "mask_data data key = apply_mask data key"

definition build_into ::
  "builder \<Rightarrow> opcode \<Rightarrow> bytes \<Rightarrow> bool \<Rightarrow> bool \<Rightarrow> bytes \<Rightarrow> bool \<Rightarrow> bytes" where
  "build_into b opc data fin msk masking_key rsv1 =
     (let first_byte = (if fin then 0 OR 0x80 else 0);
          first_byte = (if rsv1 then first_byte OR 0x40 else first_byte);
          first_byte = first_byte OR op_val opc;
          out = [first_byte];
          second_byte = (if msk then 0 OR 0x80 else 0);
          out = append_payload_length out second_byte (of_nat (length data));
          key = (if msk then masking_key else bld_masking_key b);
          out = (if msk then out @ key else out);
          payload_offset = length out;
          out = out @ data
      in if msk then take payload_offset out @ mask_data (drop payload_offset out) key else out)"

definition build :: "builder \<Rightarrow> opcode \<Rightarrow> bytes \<Rightarrow> bool \<Rightarrow> bool \<Rightarrow> bytes \<Rightarrow> bool \<Rightarrow> bytes" where
  "build b opc data fin msk masking_key rsv1 = build_into b opc data fin msk masking_key rsv1"

definition build_close_into :: "builder \<Rightarrow> rng \<Rightarrow> u16 \<Rightarrow> string \<Rightarrow> bool \<Rightarrow> bytes \<times> rng" where
  "build_close_into b gen status_code reason msk =
     (let p0 = ucast (drop_bit 8 status_code AND 0xFF); p1 = ucast (status_code AND 0xFF);
          (key, gen') = (if msk then generate_masking_key gen else (bld_masking_key b, gen))
      in if reason = [] then (build_into b CLOSE [p0, p1] True msk key False, gen')
         else let out = [0x80 OR op_val CLOSE];
                  out = append_payload_length out (if msk then 0x80 else 0) (of_nat (2 + length reason));
                  out = (if msk then out @ key else out);
                  payload_offset = length out;
                  out = out @ [p0, p1] @ bytes_of_string reason
              in (if msk then take payload_offset out @ mask_data (drop payload_offset out) key else out,
                  gen'))"

definition build_text :: "builder \<Rightarrow> rng \<Rightarrow> string \<Rightarrow> bool \<Rightarrow> bool \<Rightarrow> bytes \<times> rng" where
  "build_text b gen text fin msk =
     (let (key, gen') = generate_masking_key gen
      in (build b TEXT (bytes_of_string text) fin msk key False, gen'))"

definition build_binary :: "builder \<Rightarrow> rng \<Rightarrow> bytes \<Rightarrow> bool \<Rightarrow> bool \<Rightarrow> bytes \<times> rng" where
  "build_binary b gen data fin msk =
     (let (key, gen') = generate_masking_key gen in (build b BINARY data fin msk key False, gen'))"

definition build_close :: "builder \<Rightarrow> rng \<Rightarrow> u16 \<Rightarrow> string \<Rightarrow> bool \<Rightarrow> bytes \<times> rng" where
  "build_close b gen status_code reason msk = build_close_into b gen status_code reason msk"

definition build_ping :: "builder \<Rightarrow> rng \<Rightarrow> bytes \<Rightarrow> bool \<Rightarrow> bytes \<times> rng" where
  "build_ping b gen data msk =
     (let (key, gen') = generate_masking_key gen in (build b PING data True msk key False, gen'))"

definition build_pong :: "builder \<Rightarrow> rng \<Rightarrow> bytes \<Rightarrow> bool \<Rightarrow> bytes \<times> rng" where
  "build_pong b gen data msk =
     (let (key, gen') = generate_masking_key gen in (build b PONG data True msk key False, gen'))"

section \<open>Reference encoding (RFC 6455, section 5.2)\<close>

text \<open>Network byte order of the \<open>k\<close>-octet length field.\<close>

definition be_bytes :: "nat \<Rightarrow> nat \<Rightarrow> bytes" where
  "be_bytes k n = rev (word_to_bytes k (of_nat n :: u64))"

definition length_field :: "bool \<Rightarrow> nat \<Rightarrow> bytes" where
  "length_field masked n =
     (let m = (if masked then 0x80 else 0) in
      if n \<le> 125 then [m OR of_nat n]
      else if n \<le> 65535 then (m OR 126) # be_bytes 2 n
      else (m OR 127) # be_bytes 8 n)"

definition encode_frame :: "bool \<Rightarrow> bool \<Rightarrow> opcode \<Rightarrow> bytes option \<Rightarrow> bytes \<Rightarrow> bytes" where
  "encode_frame fin rsv1 opc key payload =
     first_octet fin rsv1 opc # length_field (key \<noteq> None) (length payload)
       @ (case key of None \<Rightarrow> payload | Some k \<Rightarrow> k @ mask_from k 0 payload)"

lemma encode_frame_length:
  assumes "\<And>k. key = Some k \<Longrightarrow> length k = 4"
  shows "length (encode_frame fin rsv1 opc key payload) \<le> length payload + 14"
  using assms by (auto simp: encode_frame_def length_field_def be_bytes_def Let_def split: option.splits)

lemma length_generate_masking_key [simp]: "length (fst (generate_masking_key gen)) = 4"
  by (simp add: generate_masking_key_def)

lemma ucast_and_255 [simp]: "ucast (x AND (0xFF :: u64)) = (ucast x :: u8)"
proof -
  have m: "(0xFF :: u64) = mask 8" by (simp add: mask_eq_exp_minus_1)
  show ?thesis unfolding m by (intro bit_word_eqI) (auto simp: bit_simps)
qed

lemma append_payload_length_eq:
  assumes "n < 2 ^ 64"
  shows "append_payload_length frame (if masked then 0x80 else 0) (of_nat n)
       = frame @ length_field masked n"
proof -
  have un: "unat (of_nat n :: u64) = n" using assms by (simp add: unat_of_nat)
  then have le: "of_nat n \<le> (125 :: u64) \<longleftrightarrow> n \<le> 125" "of_nat n \<le> (65535 :: u64) \<longleftrightarrow> n \<le> 65535"
    by (simp_all add: word_le_nat_alt)
  have uc: "(ucast (of_nat n :: u64) :: u8) = of_nat n"
    using assms by (simp add: unsigned_of_nat take_bit_nat_eq_self)
  show ?thesis
    unfolding append_payload_length_def length_field_def le
    by (simp add: Let_def uc be_bytes_def word_to_bytes_def upt_2 upt_8)
qed

lemma build_into_eq:
  assumes "length data < 2 ^ 64" and "length key = 4"
  shows "build_into b opc data fin msk key rsv1
       = encode_frame fin rsv1 opc (if msk then Some key else None) data"
  using assms append_payload_length_eq [OF assms(1), of "[_]" msk]
  by (cases msk; cases fin; cases rsv1)
     (simp_all add: build_into_def encode_frame_def first_octet_def Let_def mask_data_def apply_mask_eq
       flip: or.assoc)

lemma build_close_into_eq:
  assumes "2 + length reason < 2 ^ 64" and "length (bld_masking_key b) = 4"
  shows "build_close_into b gen status reason msk =
     (encode_frame True False CLOSE (if msk then Some (fst (generate_masking_key gen)) else None)
        (rev (word_to_bytes 2 status) @ bytes_of_string reason),
      if msk then snd (generate_masking_key gen) else gen)"
proof -
  have st: "ucast (drop_bit 8 status AND 0xFF) = (ucast (drop_bit 8 status) :: u8)"
    "ucast (status AND 0xFF) = (ucast status :: u8)"
  proof -
    have m: "(0xFF :: u16) = mask 8" by (simp add: mask_eq_exp_minus_1)
    show "ucast (drop_bit 8 status AND 0xFF) = (ucast (drop_bit 8 status) :: u8)"
      "ucast (status AND 0xFF) = (ucast status :: u8)"
      unfolding m by (auto intro!: bit_word_eqI simp: bit_simps)
  qed
  then have code: "[ucast (drop_bit 8 status AND 0xFF), ucast (status AND 0xFF)]
      = rev (word_to_bytes 2 status)"
    by (simp add: word_to_bytes_def upt_2)
  obtain k g where kg: "generate_masking_key gen = (k, g)" by fastforce
  then have k4: "length k = 4" using length_generate_masking_key [of gen] by simp
  show ?thesis
  proof (cases "reason = []")
    case True
    have "length (rev (word_to_bytes 2 status)) < 2 ^ 64" by simp
    with True assms(2) kg k4 show ?thesis
      by (simp add: build_close_into_def code build_into_eq Let_def bytes_of_string_def)
  next
    case False
    have c2: "[ucast (drop_bit 8 status AND 0xFF), ucast (status AND 0xFF)] @ xs
      = rev (word_to_bytes 2 status) @ xs" for xs by (simp only: code)
    from False assms kg k4 append_payload_length_eq [OF assms(1), of "[_]" msk] show ?thesis
      unfolding build_close_into_def Let_def c2
      by (auto simp: encode_frame_def first_octet_def mask_data_def apply_mask_eq)
  qed
qed

end
