(* ===== verification/Utf8.thy ===== *)
theory Utf8
  imports Prelude Mask
begin

text \<open>
  UTF-8 validation (\<open>include/wscpp/detail/utf8.hpp\<close>): the eight-byte ASCII fast path and the
  sequence scanner.  The validator is shown to accept exactly the encodings of sequences of Unicode
  scalar values (no surrogates, no overlong forms, nothing above U+10FFFF).
\<close>

section \<open>Model\<close>

function ascii_skip :: "bytes \<Rightarrow> nat \<Rightarrow> nat" where
  "ascii_skip data i =
     (if i + 8 \<le> length data
      then if load_u64_le data i AND 0x8080808080808080 \<noteq> 0 then i else ascii_skip data (i + 8)
      else i)"
  by pat_completeness auto
termination
  by (relation "measure (\<lambda>(data, i). length data - i)") auto

function utf8_scan :: "bytes \<Rightarrow> nat \<Rightarrow> bool" where
  "utf8_scan data i =
     (if i < length data
      then let c = data ! i in
        if c \<le> 0x7F then utf8_scan data (i + 1)
        else if 0xC2 \<le> c \<and> c \<le> 0xDF
        then if i + 1 \<ge> length data \<or> data ! (i + 1) AND 0xC0 \<noteq> 0x80 then False
             else utf8_scan data (i + 2)
        else if 0xE0 \<le> c \<and> c \<le> 0xEF
        then if i + 2 \<ge> length data then False
             else let c1 = data ! (i + 1); c2 = data ! (i + 2) in
               if c1 AND 0xC0 \<noteq> 0x80 \<or> c2 AND 0xC0 \<noteq> 0x80 then False
               else if c = 0xE0 \<and> c1 < 0xA0 then False
               else if c = 0xED \<and> c1 \<ge> 0xA0 then False
               else utf8_scan data (i + 3)
        else if 0xF0 \<le> c \<and> c \<le> 0xF4
        then if i + 3 \<ge> length data then False
             else let c1 = data ! (i + 1); c2 = data ! (i + 2); c3 = data ! (i + 3) in
               if c1 AND 0xC0 \<noteq> 0x80 \<or> c2 AND 0xC0 \<noteq> 0x80 \<or> c3 AND 0xC0 \<noteq> 0x80 then False
               else if c = 0xF0 \<and> c1 < 0x90 then False
               else if c = 0xF4 \<and> c1 \<ge> 0x90 then False
               else utf8_scan data (i + 4)
        else False
      else True)"
  by pat_completeness auto
termination
  by (relation "measure (\<lambda>(data, i). length data - i)") auto

declare ascii_skip.simps [simp del] utf8_scan.simps [simp del]

definition is_valid_utf8 :: "bytes \<Rightarrow> bool" where
  "is_valid_utf8 data = (if data = [] then True else utf8_scan data (ascii_skip data 0))"

section \<open>Reference: the encoding of Unicode scalar values\<close>

definition scalar_value :: "nat \<Rightarrow> bool" where
  "scalar_value cp \<longleftrightarrow> cp < 0x110000 \<and> \<not> (0xD800 \<le> cp \<and> cp \<le> 0xDFFF)"

definition byte_of :: "nat \<Rightarrow> u8" where
  "byte_of n = of_nat n"

definition utf8_encode :: "nat \<Rightarrow> bytes" where
  "utf8_encode cp =
     (if cp < 0x80 then [byte_of cp]
      else if cp < 0x800 then [byte_of (0xC0 + cp div 64), byte_of (0x80 + cp mod 64)]
      else if cp < 0x10000
      then [byte_of (0xE0 + cp div 4096), byte_of (0x80 + cp div 64 mod 64), byte_of (0x80 + cp mod 64)]
      else [byte_of (0xF0 + cp div 262144), byte_of (0x80 + cp div 4096 mod 64),
            byte_of (0x80 + cp div 64 mod 64), byte_of (0x80 + cp mod 64)])"

section \<open>The scanner on lists\<close>

text \<open>The same checks, reading the remaining bytes instead of an index.\<close>

definition cont :: "u8 \<Rightarrow> bool" where
  "cont c \<longleftrightarrow> c AND 0xC0 = 0x80"

fun valid_seqs :: "bytes \<Rightarrow> bool" where
  "valid_seqs [] = True"
| "valid_seqs (c # rest) =
     (if c \<le> 0x7F then valid_seqs rest
      else if 0xC2 \<le> c \<and> c \<le> 0xDF
      then (case rest of c1 # r \<Rightarrow> cont c1 \<and> valid_seqs r | _ \<Rightarrow> False)
      else if 0xE0 \<le> c \<and> c \<le> 0xEF
      then (case rest of c1 # c2 # r \<Rightarrow>
              cont c1 \<and> cont c2 \<and> \<not> (c = 0xE0 \<and> c1 < 0xA0) \<and> \<not> (c = 0xED \<and> c1 \<ge> 0xA0) \<and> valid_seqs r
            | _ \<Rightarrow> False)
      else if 0xF0 \<le> c \<and> c \<le> 0xF4
      then (case rest of c1 # c2 # c3 # r \<Rightarrow>
              cont c1 \<and> cont c2 \<and> cont c3 \<and> \<not> (c = 0xF0 \<and> c1 < 0x90) \<and> \<not> (c = 0xF4 \<and> c1 \<ge> 0x90)
              \<and> valid_seqs r
            | _ \<Rightarrow> False)
      else False)"

lemma drop_nth_Cons: "i < length xs \<Longrightarrow> drop i xs = xs ! i # drop (i + 1) xs"
  by (simp add: Cons_nth_drop_Suc)

lemma drop_Suc_2: "i + 2 < length xs \<Longrightarrow> drop (i + 1) xs = xs ! (i + 1) # xs ! (i + 2) # drop (i + 3) xs"
  by (simp add: drop_nth_Cons numeral_eq_Suc)

lemma drop_Suc_3:
  "i + 3 < length xs \<Longrightarrow> drop (i + 1) xs = xs ! (i + 1) # xs ! (i + 2) # xs ! (i + 3) # drop (i + 4) xs"
  by (simp add: drop_nth_Cons numeral_eq_Suc)

lemma short_case_1: "length r < 1 \<Longrightarrow> \<not> (case r of a # t \<Rightarrow> P a t | _ \<Rightarrow> False)"
  by (auto split: list.splits)

lemma short_case_2: "length r < 2 \<Longrightarrow> \<not> (case r of a # b # t \<Rightarrow> P a b t | _ \<Rightarrow> False)"
  by (auto split: list.splits)

lemma short_case_3: "length r < 3 \<Longrightarrow> \<not> (case r of a # b # c # t \<Rightarrow> P a b c t | _ \<Rightarrow> False)"
  by (auto split: list.splits)

text \<open>The scanner on one sequence of two, three and four octets.\<close>

lemma scan_two:
  assumes "i < length data" and c: "\<not> data ! i \<le> 0x7F" "0xC2 \<le> data ! i \<and> data ! i \<le> 0xDF"
    and IH: "i + 1 < length data \<Longrightarrow> cont (data ! (i + 1)) \<Longrightarrow> utf8_scan data (i + 2) = valid_seqs (drop (i + 2) data)"
  shows "utf8_scan data i = valid_seqs (drop i data)"
proof -
  have v: "valid_seqs (drop i data) = (case drop (i + 1) data of c1 # r \<Rightarrow> cont c1 \<and> valid_seqs r | _ \<Rightarrow> False)"
    unfolding drop_nth_Cons [OF assms(1)] valid_seqs.simps using c by (simp only: simp_thms if_True if_False)
  show ?thesis
  proof (cases "i + 1 < length data")
    case l: True
    have "utf8_scan data i = (cont (data ! (i + 1)) \<and> utf8_scan data (i + 2))"
      unfolding utf8_scan.simps [of data i] using c l assms(1) by (auto simp: cont_def Let_def)
    with IH l show ?thesis unfolding v drop_nth_Cons [OF l] by auto
  next
    case False
    with c assms(1) show ?thesis unfolding v utf8_scan.simps [of data i] using short_case_1 by auto
  qed
qed

lemma scan_three:
  assumes "i < length data" and c: "\<not> data ! i \<le> 0x7F" "\<not> (0xC2 \<le> data ! i \<and> data ! i \<le> 0xDF)"
      "0xE0 \<le> data ! i \<and> data ! i \<le> 0xEF"
    and IH: "i + 2 < length data \<Longrightarrow> cont (data ! (i + 1)) \<Longrightarrow> cont (data ! (i + 2)) \<Longrightarrow>
      \<not> (data ! i = 0xE0 \<and> data ! (i + 1) < 0xA0) \<Longrightarrow> \<not> (data ! i = 0xED \<and> data ! (i + 1) \<ge> 0xA0) \<Longrightarrow>
      utf8_scan data (i + 3) = valid_seqs (drop (i + 3) data)"
  shows "utf8_scan data i = valid_seqs (drop i data)"
proof -
  have v: "valid_seqs (drop i data)
      = (case drop (i + 1) data of c1 # c2 # r \<Rightarrow> cont c1 \<and> cont c2 \<and> \<not> (data ! i = 0xE0 \<and> c1 < 0xA0)
           \<and> \<not> (data ! i = 0xED \<and> c1 \<ge> 0xA0) \<and> valid_seqs r | _ \<Rightarrow> False)"
    unfolding drop_nth_Cons [OF assms(1)] valid_seqs.simps using c by (simp only: simp_thms if_True if_False)
  show ?thesis
  proof (cases "i + 2 < length data")
    case l: True
    have "utf8_scan data i = (cont (data ! (i + 1)) \<and> cont (data ! (i + 2))
      \<and> \<not> (data ! i = 0xE0 \<and> data ! (i + 1) < 0xA0) \<and> \<not> (data ! i = 0xED \<and> data ! (i + 1) \<ge> 0xA0)
      \<and> utf8_scan data (i + 3))"
      unfolding utf8_scan.simps [of data i] Let_def cont_def using c assms(1) l [unfolded not_le [symmetric]]
      by (simp only: simp_thms if_True if_False) auto
    with IH l show ?thesis unfolding v drop_Suc_2 [OF l] by auto
  next
    case False
    then have "utf8_scan data i = False" unfolding utf8_scan.simps [of data i] using c assms(1) by simp
    with False show ?thesis unfolding v using short_case_2 [of "drop (i + 1) data"] by simp
  qed
qed

lemma scan_four:
  assumes "i < length data" and c: "\<not> data ! i \<le> 0x7F" "\<not> (0xC2 \<le> data ! i \<and> data ! i \<le> 0xDF)"
      "\<not> (0xE0 \<le> data ! i \<and> data ! i \<le> 0xEF)" "0xF0 \<le> data ! i \<and> data ! i \<le> 0xF4"
    and IH: "i + 3 < length data \<Longrightarrow> cont (data ! (i + 1)) \<Longrightarrow> cont (data ! (i + 2)) \<Longrightarrow> cont (data ! (i + 3)) \<Longrightarrow>
      \<not> (data ! i = 0xF0 \<and> data ! (i + 1) < 0x90) \<Longrightarrow> \<not> (data ! i = 0xF4 \<and> data ! (i + 1) \<ge> 0x90) \<Longrightarrow>
      utf8_scan data (i + 4) = valid_seqs (drop (i + 4) data)"
  shows "utf8_scan data i = valid_seqs (drop i data)"
proof -
  have v: "valid_seqs (drop i data)
      = (case drop (i + 1) data of c1 # c2 # c3 # r \<Rightarrow> cont c1 \<and> cont c2 \<and> cont c3
           \<and> \<not> (data ! i = 0xF0 \<and> c1 < 0x90) \<and> \<not> (data ! i = 0xF4 \<and> c1 \<ge> 0x90) \<and> valid_seqs r | _ \<Rightarrow> False)"
    unfolding drop_nth_Cons [OF assms(1)] valid_seqs.simps using c by (simp only: simp_thms if_True if_False)
  show ?thesis
  proof (cases "i + 3 < length data")
    case l: True
    have "utf8_scan data i = (cont (data ! (i + 1)) \<and> cont (data ! (i + 2)) \<and> cont (data ! (i + 3))
      \<and> \<not> (data ! i = 0xF0 \<and> data ! (i + 1) < 0x90) \<and> \<not> (data ! i = 0xF4 \<and> data ! (i + 1) \<ge> 0x90)
      \<and> utf8_scan data (i + 4))"
      unfolding utf8_scan.simps [of data i] Let_def cont_def using c assms(1) l [unfolded not_le [symmetric]]
      by (simp only: simp_thms if_True if_False) auto
    with IH l show ?thesis unfolding v drop_Suc_3 [OF l] by auto
  next
    case False
    then have "utf8_scan data i = False" unfolding utf8_scan.simps [of data i] using c assms(1) by simp
    with False show ?thesis unfolding v using short_case_3 [of "drop (i + 1) data"] by simp
  qed
qed

lemma utf8_scan_eq: "utf8_scan data i = valid_seqs (drop i data)"
proof (induction data i rule: utf8_scan.induct)
  case (1 data i)
  show ?case
  proof (cases "i < length data")
    case False
    then show ?thesis by (simp add: utf8_scan.simps)
  next
    case True
    let ?c = "data ! i"
    note IH = "1.IH" [OF True refl]
    consider (one) "?c \<le> 0x7F"
      | (two) "\<not> ?c \<le> 0x7F" "0xC2 \<le> ?c \<and> ?c \<le> 0xDF"
      | (three) "\<not> ?c \<le> 0x7F" "\<not> (0xC2 \<le> ?c \<and> ?c \<le> 0xDF)" "0xE0 \<le> ?c \<and> ?c \<le> 0xEF"
      | (four) "\<not> ?c \<le> 0x7F" "\<not> (0xC2 \<le> ?c \<and> ?c \<le> 0xDF)" "\<not> (0xE0 \<le> ?c \<and> ?c \<le> 0xEF)"
          "0xF0 \<le> ?c \<and> ?c \<le> 0xF4"
      | (bad) "\<not> ?c \<le> 0x7F" "\<not> (0xC2 \<le> ?c \<and> ?c \<le> 0xDF)" "\<not> (0xE0 \<le> ?c \<and> ?c \<le> 0xEF)"
          "\<not> (0xF0 \<le> ?c \<and> ?c \<le> 0xF4)"
      by blast
    then show ?thesis
    proof cases
      case one
      with True IH(1) show ?thesis by (simp add: drop_nth_Cons [OF True] utf8_scan.simps [of data i])
    next
      case two
      show ?thesis by (rule scan_two [OF True two]) (use IH(2) two in \<open>auto simp: cont_def\<close>)
    next
      case three
      show ?thesis by (rule scan_three [OF True three]) (use IH(3) three in \<open>auto simp: cont_def\<close>)
    next
      case four
      show ?thesis by (rule scan_four [OF True four]) (use IH(4) four in \<open>auto simp: cont_def\<close>)
    next
      case bad
      have "\<not> utf8_scan data i"
        unfolding utf8_scan.simps [of data i] Let_def using bad True by (simp only: simp_thms if_True if_False)
      moreover have "\<not> valid_seqs (drop i data)"
        unfolding drop_nth_Cons [OF True] valid_seqs.simps using bad by (simp only: simp_thms if_True if_False)
      ultimately show ?thesis by simp
    qed
  qed
qed

section \<open>The ASCII fast path\<close>

text \<open>The constant selects bit 7 of each of the eight bytes of the chunk.\<close>

lemma high_bits_zero:
  assumes "length bs = 8" and "bytes_to_word bs AND (0x8080808080808080 :: u64) = 0" and "b \<in> set bs"
  shows "b \<le> 0x7F"
proof -
  from assms(1,3) obtain k where k: "k < 8" "b = bs ! k" by (auto simp: in_set_conv_nth)
  have "k = 0 \<or> k = 1 \<or> k = 2 \<or> k = 3 \<or> k = 4 \<or> k = 5 \<or> k = 6 \<or> k = 7" using k by arith
  then have "bit (0x8080808080808080 :: u64) (8 * k + 7)" by (elim disjE) simp_all
  moreover have "\<not> bit (bytes_to_word bs AND (0x8080808080808080 :: u64)) (8 * k + 7)"
    using assms(2) by simp
  ultimately have "\<not> bit (bytes_to_word bs :: u64) (8 * k + 7)" by (simp add: bit_and_iff)
  moreover have "(8 * k + 7) div 8 = k" "(8 * k + 7) mod 8 = 7" by presburger+
  ultimately have "\<not> bit b 7"
    using k assms(1) by (simp add: bit_bytes_to_word)
  then have "take_bit 7 b = b"
    by (intro bit_word_eqI) (auto simp: bit_simps less_Suc_eq numeral_eq_Suc)
  then have "unat b = take_bit 7 (unat b)" by (metis unsigned_take_bit_eq)
  then have "unat b < 2 ^ 7" using take_bit_nat_less_exp [of 7 "unat b"] by simp
  then show ?thesis by (simp add: word_le_nat_alt)
qed

lemma valid_seqs_ascii: "(\<And>b. b \<in> set xs \<Longrightarrow> b \<le> 0x7F) \<Longrightarrow> valid_seqs (xs @ ys) = valid_seqs ys"
  by (induction xs) auto

lemma ascii_skip_valid: "valid_seqs (drop (ascii_skip data i) data) = valid_seqs (drop i data)"
proof (induction data i rule: ascii_skip.induct)
  case (1 data i)
  note unfold = ascii_skip.simps [of data i]
  show ?case
  proof (cases "i + 8 \<le> length data \<and> load_u64_le data i AND 0x8080808080808080 = 0")
    case True
    have "drop i data = take 8 (drop i data) @ drop (i + 8) data"
      by (metis append_take_drop_id drop_drop add.commute)
    moreover have "b \<le> 0x7F" if "b \<in> set (take 8 (drop i data))" for b
      using that True by (intro high_bits_zero [of "take 8 (drop i data)"]) (auto simp: load_u64_le_def)
    ultimately have "valid_seqs (drop i data) = valid_seqs (drop (i + 8) data)"
      using valid_seqs_ascii by metis
    with True "1.IH" show ?thesis by (simp add: unfold)
  next
    case False
    then show ?thesis by (auto simp: unfold)
  qed
qed

lemma is_valid_utf8_seqs: "is_valid_utf8 data = valid_seqs data"
  by (simp add: is_valid_utf8_def utf8_scan_eq ascii_skip_valid)

section \<open>Well-formed sequences are the encodings of scalar values\<close>

lemma nat_and_192: "(n::nat) AND 0xC0 = 64 * (n div 64 mod 4)"
proof -
  have "n AND 0xC0 = push_bit 6 (drop_bit 6 (n AND 0xC0)) + take_bit 6 (n AND 0xC0)"
    by (rule bits_ident [symmetric])
  moreover have "take_bit 6 (n AND 0xC0) = 0" by (simp only: take_bit_and) simp
  moreover have "drop_bit 6 (n AND 0xC0) = (n div 64) AND mask 2"
    by (simp only: drop_bit_and) (simp add: drop_bit_eq_div mask_eq_exp_minus_1)
  moreover have "(n div 64) AND mask 2 = n div 64 mod 4"
    by (simp only: take_bit_eq_mask [symmetric] take_bit_eq_mod) simp
  ultimately have "n AND 0xC0 = push_bit 6 (n div 64 mod 4) + 0" by argo
  then show ?thesis by (simp add: push_bit_eq_mult)
qed

lemma cont_iff: "cont c \<longleftrightarrow> 128 \<le> unat c \<and> unat c < 192"
proof -
  have "unat c < 256" using unsigned_less [of c] by simp
  then have "64 * (unat c div 64 mod 4) = 128 \<longleftrightarrow> unat c div 64 = 2" by auto
  also have "\<dots> \<longleftrightarrow> 128 \<le> unat c \<and> unat c < 192" by auto
  finally have "64 * (unat c div 64 mod 4) = 128 \<longleftrightarrow> 128 \<le> unat c \<and> unat c < 192" .
  moreover have "cont c \<longleftrightarrow> unat c AND 0xC0 = 0x80"
    by (simp add: cont_def word_unat_eq_iff unsigned_and_eq)
  ultimately show ?thesis by (simp add: nat_and_192)
qed

lemma unat_byte_of [simp]: "n < 256 \<Longrightarrow> unat (byte_of n) = n"
  by (simp add: byte_of_def unat_of_nat)

lemmas u8_nat = word_le_nat_alt word_less_nat_alt word_unat_eq_iff cont_iff

lemma mod_window:
  fixes q :: nat
  assumes "n * m \<le> q" and "q < n * m + w" and "w \<le> m"
  shows "q mod m < w"
proof -
  obtain k where "q = k + n * m" using assms(1) le_Suc_ex by (metis add.commute)
  then show ?thesis using assms by simp
qed

lemma valid_seqs_encode:
  assumes "scalar_value cp"
  shows "valid_seqs (utf8_encode cp @ rest) = valid_seqs rest"
proof -
  consider "cp < 0x80" | "0x80 \<le> cp" "cp < 0x800" | "0x800 \<le> cp" "cp < 0x10000"
    | "0x10000 \<le> cp" "cp < 0x110000"
    using assms unfolding scalar_value_def by linarith
  then show ?thesis
  proof cases
    case 1
    then show ?thesis by (simp add: utf8_encode_def u8_nat)
  next
    case 2
    then have "2 \<le> cp div 64" "cp div 64 < 32" by auto
    with 2 show ?thesis by (simp add: utf8_encode_def u8_nat)
  next
    case 3
    then have b: "cp div 4096 < 16" "cp div 64 mod 64 < 64" "cp mod 64 < 64" by auto
    have lo: "32 \<le> cp div 64 mod 64" if "cp div 4096 = 0"
    proof -
      from that 3 have "32 \<le> cp div 64" "cp div 64 < 64" by auto
      then show ?thesis by simp
    qed
    have hi: "cp div 64 mod 64 < 32" if "cp div 4096 = 13"
    proof -
      from that have "53248 \<le> cp" "cp < 57344" by auto
      with assms have "832 \<le> cp div 64" "cp div 64 < 864" by (auto simp: scalar_value_def)
      then show ?thesis using mod_window [of 13 64 "cp div 64" 32] by simp
    qed
    from 3 b lo hi show ?thesis by (auto simp: utf8_encode_def u8_nat)
  next
    case 4
    then have b: "cp div 262144 < 5" "cp div 4096 mod 64 < 64" "cp div 64 mod 64 < 64" "cp mod 64 < 64"
      by auto
    have lo: "16 \<le> cp div 4096 mod 64" if "cp div 262144 = 0"
    proof -
      from that 4 have "16 \<le> cp div 4096" "cp div 4096 < 64" by auto
      then show ?thesis by simp
    qed
    have hi: "cp div 4096 mod 64 < 16" if "cp div 262144 = 4"
    proof -
      from that 4 have "256 \<le> cp div 4096" "cp div 4096 < 272" by auto
      then show ?thesis using mod_window [of 4 64 "cp div 4096" 16] by simp
    qed
    from 4 b lo hi show ?thesis by (auto simp: utf8_encode_def u8_nat)
  qed
qed

lemma decode_2:
  assumes "0xC2 \<le> c" "c \<le> 0xDF" "cont c1"
  shows "\<exists>cp. scalar_value cp \<and> utf8_encode cp = [c, c1]"
proof -
  obtain a b where ab: "unat c = 0xC0 + a" "unat c1 = 0x80 + b" "2 \<le> a" "a < 32" "b < 64"
    using assms le_Suc_ex [of 192 "unat c"] le_Suc_ex [of 128 "unat c1"]
    by (auto simp: u8_nat)
  let ?cp = "64 * a + b"
  have "scalar_value ?cp" using ab by (auto simp: scalar_value_def)
  moreover have "?cp div 64 = a" "?cp mod 64 = b" using ab by auto
  ultimately show ?thesis
    using ab by (intro exI [of _ ?cp]) (auto simp: utf8_encode_def u8_nat)
qed

lemma decode_3:
  assumes "0xE0 \<le> c" "c \<le> 0xEF" "cont c1" "cont c2" "\<not> (c = 0xE0 \<and> c1 < 0xA0)" "\<not> (c = 0xED \<and> c1 \<ge> 0xA0)"
  shows "\<exists>cp. scalar_value cp \<and> utf8_encode cp = [c, c1, c2]"
proof -
  obtain a b d where ab: "unat c = 0xE0 + a" "unat c1 = 0x80 + b" "unat c2 = 0x80 + d"
      "a < 16" "b < 64" "d < 64" "a = 0 \<Longrightarrow> 32 \<le> b" "a = 13 \<Longrightarrow> b < 32"
    using assms le_Suc_ex [of 224 "unat c"] le_Suc_ex [of 128 "unat c1"] le_Suc_ex [of 128 "unat c2"]
    by (auto simp: u8_nat)
  let ?cp = "4096 * a + 64 * b + d"
  consider "a < 13" | "a = 13" | "14 \<le> a" by linarith
  then have "scalar_value ?cp" using ab unfolding scalar_value_def by cases auto
  moreover have "?cp div 4096 = a" "?cp div 64 = 64 * a + b" using ab by (auto intro!: div_nat_eqI)
  moreover have "?cp = d + 64 * (64 * a + b)" by simp
  then have "?cp mod 64 = d" using ab by (metis mod_mult_self2 mod_less)
  moreover have "0x800 \<le> ?cp" "?cp < 0x10000" using ab by (cases "a = 0"; simp)+
  ultimately show ?thesis
    using ab by (intro exI [of _ ?cp]) (auto simp: utf8_encode_def u8_nat)
qed

lemma decode_4:
  assumes "0xF0 \<le> c" "c \<le> 0xF4" "cont c1" "cont c2" "cont c3"
    "\<not> (c = 0xF0 \<and> c1 < 0x90)" "\<not> (c = 0xF4 \<and> c1 \<ge> 0x90)"
  shows "\<exists>cp. scalar_value cp \<and> utf8_encode cp = [c, c1, c2, c3]"
proof -
  obtain a b d e where ab: "unat c = 0xF0 + a" "unat c1 = 0x80 + b" "unat c2 = 0x80 + d"
      "unat c3 = 0x80 + e" "a < 5" "b < 64" "d < 64" "e < 64" "a = 0 \<Longrightarrow> 16 \<le> b" "a = 4 \<Longrightarrow> b < 16"
    using assms le_Suc_ex [of 240 "unat c"] le_Suc_ex [of 128 "unat c1"] le_Suc_ex [of 128 "unat c2"]
      le_Suc_ex [of 128 "unat c3"]
    by (auto simp: u8_nat)
  let ?cp = "262144 * a + 4096 * b + 64 * d + e"
  have r: "0x10000 \<le> ?cp" "?cp < 0x110000" using ab by (cases "a = 0"; cases "a = 4"; simp)+
  then have "scalar_value ?cp" unfolding scalar_value_def by auto
  moreover have "?cp div 262144 = a" "?cp div 4096 = 64 * a + b" "?cp div 64 = d + 64 * (64 * a + b)"
    using ab by (auto intro!: div_nat_eqI)
  moreover have "(d + 64 * (64 * a + b)) mod 64 = d" using ab by (metis mod_mult_self2 mod_less)
  moreover have "?cp = e + 64 * (64 * (64 * a + b) + d)" by simp
  then have "?cp mod 64 = e" using ab by (metis mod_mult_self2 mod_less)
  moreover note r
  ultimately show ?thesis
    using ab by (intro exI [of _ ?cp]) (auto simp: utf8_encode_def u8_nat simp del: distrib_left_numeral)
qed

lemma valid_seqs_Cons_cases:
  assumes "valid_seqs (c # rest)"
  obtains (one) "c \<le> 0x7F" "valid_seqs rest"
    | (two) c1 r where "rest = c1 # r" "0xC2 \<le> c" "c \<le> 0xDF" "cont c1" "valid_seqs r"
    | (three) c1 c2 r where "rest = c1 # c2 # r" "0xE0 \<le> c" "c \<le> 0xEF" "cont c1" "cont c2"
        "\<not> (c = 0xE0 \<and> c1 < 0xA0)" "\<not> (c = 0xED \<and> c1 \<ge> 0xA0)" "valid_seqs r"
    | (four) c1 c2 c3 r where "rest = c1 # c2 # c3 # r" "0xF0 \<le> c" "c \<le> 0xF4" "cont c1" "cont c2"
        "cont c3" "\<not> (c = 0xF0 \<and> c1 < 0x90)" "\<not> (c = 0xF4 \<and> c1 \<ge> 0x90)" "valid_seqs r"
proof -
  note v = assms [unfolded valid_seqs.simps]
  show thesis
  proof (cases "c \<le> 0x7F")
    case True
    with v that(1) show thesis by simp
  next
    case c0: False
    show thesis
    proof (cases "0xC2 \<le> c \<and> c \<le> 0xDF")
      case True
      from v have "case rest of c1 # r \<Rightarrow> cont c1 \<and> valid_seqs r | _ \<Rightarrow> False"
        using c0 True by (simp only: simp_thms if_True if_False)
      with True that(2) show thesis by (auto split: list.splits)
    next
      case c1: False
      show thesis
      proof (cases "0xE0 \<le> c \<and> c \<le> 0xEF")
        case True
        from v have "case rest of c1 # c2 # r \<Rightarrow> cont c1 \<and> cont c2 \<and> \<not> (c = 0xE0 \<and> c1 < 0xA0)
            \<and> \<not> (c = 0xED \<and> c1 \<ge> 0xA0) \<and> valid_seqs r | _ \<Rightarrow> False"
          using c0 c1 True by (simp only: simp_thms if_True if_False)
        with True that(3) show thesis by (auto split: list.splits)
      next
        case c2: False
        have "case rest of c1 # c2 # c3 # r \<Rightarrow> cont c1 \<and> cont c2 \<and> cont c3
            \<and> \<not> (c = 0xF0 \<and> c1 < 0x90) \<and> \<not> (c = 0xF4 \<and> c1 \<ge> 0x90) \<and> valid_seqs r | _ \<Rightarrow> False"
          and "0xF0 \<le> c \<and> c \<le> 0xF4"
          using v c0 c1 c2 by (simp_all only: simp_thms if_True if_False split: if_splits)
        with that(4) show thesis by (auto split: list.splits)
      qed
    qed
  qed
qed

lemma valid_seqs_decode:
  "valid_seqs data \<Longrightarrow> \<exists>cps. list_all scalar_value cps \<and> data = concat (map utf8_encode cps)"
proof (induction data rule: length_induct)
  case (1 data)
  have step: ?case if "data = utf8_encode cp @ r" "scalar_value cp" "valid_seqs r" "utf8_encode cp \<noteq> []"
    for cp r
  proof -
    have "length r < length data" using that by simp
    with "1.IH" that(3) obtain cps where "list_all scalar_value cps" "r = concat (map utf8_encode cps)"
      by blast
    with that show ?thesis by (intro exI [of _ "cp # cps"]) simp
  qed
  show ?case
  proof (cases data)
    case Nil
    then show ?thesis by (intro exI [of _ "[]"]) simp
  next
    case (Cons c rest)
    have "valid_seqs (c # rest)" using "1.prems" unfolding Cons .
    then show ?thesis
    proof (cases rule: valid_seqs_Cons_cases)
      case one
      then have "utf8_encode (unat c) = [c]" "scalar_value (unat c)"
        by (auto simp: utf8_encode_def byte_of_def scalar_value_def word_le_nat_alt)
      with one Cons step [of "unat c" rest] show ?thesis by simp
    next
      case (two c1 r)
      from decode_2 [OF two(2-4)] obtain cp where "scalar_value cp" "utf8_encode cp = [c, c1]" by blast
      with two Cons step [of cp r] show ?thesis by simp
    next
      case (three c1 c2 r)
      from decode_3 [OF three(2-7)] obtain cp where "scalar_value cp" "utf8_encode cp = [c, c1, c2]" by blast
      with three Cons step [of cp r] show ?thesis by simp
    next
      case (four c1 c2 c3 r)
      from decode_4 [OF four(2-8)] obtain cp where "scalar_value cp" "utf8_encode cp = [c, c1, c2, c3]" by blast
      with four Cons step [of cp r] show ?thesis by simp
    qed
  qed
qed

lemma valid_seqs_concat:
  "list_all scalar_value cps \<Longrightarrow> valid_seqs (concat (map utf8_encode cps))"
  by (induction cps) (auto simp: valid_seqs_encode)

text \<open>
  C5: the validator used on every text message (fast path and scanner together) accepts a byte
  string if and only if it is the UTF-8 encoding of some sequence of Unicode scalar values: no
  surrogate, overlong, truncated or out-of-range sequence is accepted, and no valid text is refused.
\<close>

theorem is_valid_utf8_iff_encoding:
  "is_valid_utf8 data \<longleftrightarrow> (\<exists>cps. list_all scalar_value cps \<and> data = concat (map utf8_encode cps))"
  using valid_seqs_decode valid_seqs_concat by (auto simp: is_valid_utf8_seqs)

end
