(* ===== verification/Errors.thy ===== *)
theory Errors
  imports Prelude
begin

text \<open>
  Error codes (\<open>include/wscpp/error.hpp\<close>, \<open>src/error.cpp\<close>).  A \<open>std::error_code\<close> is a value and a
  category; it counts as an error exactly when its value is not zero.
\<close>

datatype errc =
    success | already_open | not_open | not_connected | handshake_failed | invalid_address
  | ssl_not_enabled | ssl_init_failed | ssl_io_error | ssl_would_block | compression_failed
  | server_not_listening | host_not_found

definition errc_list :: "errc list" where
  "errc_list = [success, already_open, not_open, not_connected, handshake_failed, invalid_address,
     ssl_not_enabled, ssl_init_failed, ssl_io_error, ssl_would_block, compression_failed,
     server_not_listening, host_not_found]"

primrec errc_value :: "errc \<Rightarrow> int" where
  "errc_value success = 0"
| "errc_value already_open = 1"
| "errc_value not_open = 2"
| "errc_value not_connected = 3"
| "errc_value handshake_failed = 4"
| "errc_value invalid_address = 5"
| "errc_value ssl_not_enabled = 6"
| "errc_value ssl_init_failed = 7"
| "errc_value ssl_io_error = 8"
| "errc_value ssl_would_block = 9"
| "errc_value compression_failed = 10"
| "errc_value server_not_listening = 11"
| "errc_value host_not_found = 12"

datatype error_category = wscpp_category | system_category | generic_category | transport_category

record error_code =
  ec_value :: int
  ec_category :: error_category

text \<open>\<open>std::error_code()\<close>, the value of success, and the conversion to \<open>bool\<close>.\<close>

definition no_error :: error_code where
  "no_error = \<lparr>ec_value = 0, ec_category = system_category\<rparr>"

definition failed :: "error_code \<Rightarrow> bool" where
  "failed ec \<longleftrightarrow> ec_value ec \<noteq> 0"

definition make_error_code :: "errc \<Rightarrow> error_code" where
  "make_error_code e = \<lparr>ec_value = errc_value e, ec_category = wscpp_category\<rparr>"

text \<open>\<open>std::error_code(errno, std::system_category())\<close>\<close>

definition system_error :: "int \<Rightarrow> error_code" where
  "system_error e = \<lparr>ec_value = e, ec_category = system_category\<rparr>"

text \<open>\<open>std::make_error_code(std::errc::...)\<close>; the two conditions the sockets report.\<close>

definition broken_pipe :: error_code where
  "broken_pipe = \<lparr>ec_value = 32, ec_category = generic_category\<rparr>"

definition connection_reset :: error_code where
  "connection_reset = \<lparr>ec_value = 104, ec_category = generic_category\<rparr>"

definition error_message :: "int \<Rightarrow> string" where
  "error_message ev =
     (if ev = errc_value success then ''success''
      else if ev = errc_value already_open then ''connection already open''
      else if ev = errc_value not_open then ''connection not open''
      else if ev = errc_value not_connected then ''socket not connected''
      else if ev = errc_value handshake_failed then ''WebSocket handshake failed''
      else if ev = errc_value invalid_address then ''invalid address''
      else if ev = errc_value ssl_not_enabled then ''SSL not enabled''
      else if ev = errc_value ssl_init_failed then ''SSL context initialization failed''
      else if ev = errc_value ssl_io_error then ''SSL I/O error''
      else if ev = errc_value ssl_would_block then ''SSL operation would block''
      else if ev = errc_value compression_failed then ''permessage-deflate compression failed''
      else if ev = errc_value server_not_listening then ''server not listening''
      else if ev = errc_value host_not_found then ''host not found''
      else ''unknown wscpp error'')"

lemma not_failed_no_error [simp]: "\<not> failed no_error"
  by (simp add: failed_def no_error_def)

lemma failed_make_error_code [simp]: "failed (make_error_code e) \<longleftrightarrow> e \<noteq> success"
  by (cases e) (simp_all add: failed_def make_error_code_def)

lemma failed_system_error [simp]: "failed (system_error e) \<longleftrightarrow> e \<noteq> 0"
  by (simp add: failed_def system_error_def)

lemma failed_generic [simp]: "failed broken_pipe" "failed connection_reset"
  by (simp_all add: failed_def broken_pipe_def connection_reset_def)

lemma errc_value_inj: "errc_value a = errc_value b \<longleftrightarrow> a = b"
  by (cases a; cases b; simp)

lemma error_message_errc_inj: "error_message (errc_value a) = error_message (errc_value b) \<longleftrightarrow> a = b"
  by (cases a; cases b; simp add: error_message_def)

end
