(* ===== verification/Transport.thy ===== *)
theory Transport
  imports Errors "HOL-Library.Sublist"
begin

text \<open>
  The stream socket interface that \<open>connection\<close>, \<open>client\<close> and \<open>server\<close> are written against
  (\<open>include/wscpp/net/transport.hpp\<close>: \<open>using stream_socket = ...\<close>).  The alias selects one of two
  transports at build time; here the chosen transport is a record of its operations on a socket state
  \<open>'s\<close>.  The locale \<open>byte_stream\<close> states what an open, plain connection of such a transport does:
  octets are read in the order they were sent, and written octets are appended to the outgoing stream.
\<close>

record tcp_endpoint =
  ep_address :: string
  ep_port :: u16

text \<open>TLS contexts are held by shared pointer; a context is named by its identity, null is \<open>None\<close>.\<close>

type_synonym ssl_ctx = "nat option"

record 's transport =
  tr_connect :: "'s \<Rightarrow> string \<Rightarrow> string \<Rightarrow> error_code \<times> 's"
  tr_connect_ep :: "'s \<Rightarrow> tcp_endpoint \<Rightarrow> error_code \<times> 's"
  tr_adopt :: "'s \<Rightarrow> int \<Rightarrow> error_code \<times> 's"
  tr_close :: "'s \<Rightarrow> 's"
  tr_write :: "'s \<Rightarrow> bytes \<Rightarrow> nat \<times> error_code \<times> 's"
  tr_read :: "'s \<Rightarrow> nat \<Rightarrow> bytes \<times> error_code \<times> 's"
  tr_read_some :: "'s \<Rightarrow> nat \<Rightarrow> bytes \<times> error_code \<times> 's"
  tr_read_until :: "'s \<Rightarrow> bytes \<Rightarrow> bytes \<Rightarrow> (bytes \<times> error_code \<times> 's) option"
  tr_is_open :: "'s \<Rightarrow> bool"
  tr_enable_ssl :: "'s \<Rightarrow> ssl_ctx \<Rightarrow> error_code \<times> 's"
  tr_set_ssl_hostname :: "'s \<Rightarrow> string \<Rightarrow> error_code \<times> 's"
  tr_ssl_handshake :: "'s \<Rightarrow> bool \<Rightarrow> error_code \<times> 's"
  tr_is_ssl :: "'s \<Rightarrow> bool"

text \<open>
  \<open>inbound\<close> is what the peer has sent and the socket has not yet returned, \<open>outbound\<close> what the socket
  has accepted; \<open>live\<close> says the connection is established.  \<open>fits\<close> says which sizes one call can transfer;
  they include those of every control frame.  \<open>read\<close> returns exactly what was asked for, if the size fits
  and so much has been sent; whenever it succeeds it has returned the next octets of the stream.  \<open>write\<close>
  sends everything, if the size fits; otherwise it may send a part and fail.
\<close>

locale byte_stream =
  fixes t :: "'s transport"
    and live :: "'s \<Rightarrow> bool"
    and inbound :: "'s \<Rightarrow> bytes"
    and outbound :: "'s \<Rightarrow> bytes"
    and fits :: "nat \<Rightarrow> bool"
  assumes read_exact: "live s \<Longrightarrow> 0 < n \<Longrightarrow> n \<le> length (inbound s) \<Longrightarrow> fits n \<Longrightarrow>
      \<exists>s'. tr_read t s n = (take n (inbound s), no_error, s') \<and> live s' \<and>
           inbound s' = drop n (inbound s) \<and> outbound s' = outbound s"
    and read_sound: "live s \<Longrightarrow> 0 < n \<Longrightarrow> tr_read t s n = (got, ec, s') \<Longrightarrow>
      length got \<le> n \<and> (failed ec \<or> ec = no_error \<and> length got = n \<and> live s' \<and>
        inbound s = got @ inbound s' \<and> outbound s' = outbound s)"
    and write_some: "live s \<Longrightarrow>
      \<exists>n ec s'. tr_write t s data = (n, ec, s') \<and> live s' \<and>
           prefix (outbound s) (outbound s') \<and> inbound s' = inbound s"
    and fits_le: "fits n \<Longrightarrow> m \<le> n \<Longrightarrow> fits m"
    and fits_small: "n < 2 ^ 16 \<Longrightarrow> fits n"
    and write_all: "live s \<Longrightarrow> fits (length data) \<Longrightarrow>
      \<exists>s'. tr_write t s data = (length data, no_error, s') \<and> live s' \<and>
           outbound s' = outbound s @ data \<and> inbound s' = inbound s"
begin

text \<open>A read fails when the stream ends first.\<close>

lemma read_eof:
  assumes "live s" and "length (inbound s) < n"
  shows "\<exists>got ec s'. tr_read t s n = (got, ec, s') \<and> failed ec \<and> length got \<le> n"
proof -
  obtain got ec s' where r: "tr_read t s n = (got, ec, s')" by (cases "tr_read t s n")
  have "0 < n" using assms(2) by simp
  from read_sound [OF assms(1) this r] assms(2) r show ?thesis by auto
qed

text \<open>Two reads in a row return consecutive pieces of the stream.\<close>

lemma read_twice:
  assumes "live s" and "0 < m" and "0 < n" and "m + n \<le> length (inbound s)"
    and "fits m" and "fits n"
  shows "\<exists>s1 s2. tr_read t s m = (take m (inbound s), no_error, s1) \<and>
    tr_read t s1 n = (take n (drop m (inbound s)), no_error, s2) \<and> live s2 \<and>
    inbound s2 = drop (m + n) (inbound s) \<and> outbound s2 = outbound s"
proof -
  obtain s1 where s1: "tr_read t s m = (take m (inbound s), no_error, s1)" "live s1"
      "inbound s1 = drop m (inbound s)" "outbound s1 = outbound s"
    using read_exact [of s m] assms by auto
  have "n \<le> length (inbound s1)" using s1(3) assms(4) by simp
  then obtain s2 where "tr_read t s1 n = (take n (inbound s1), no_error, s2)" "live s2"
      "inbound s2 = drop n (inbound s1)" "outbound s2 = outbound s1"
    using read_exact [OF s1(2) assms(3) _ assms(6)] by blast
  with s1 show ?thesis by (auto simp: add.commute)
qed

text \<open>A sequence of writes puts the pieces on the wire in order, nothing lost or duplicated.\<close>

lemma writes_concat:
  assumes "live s" and "\<forall>d \<in> set ds. fits (length d)"
  shows "\<exists>s'. foldl (\<lambda>s d. snd (snd (tr_write t s d))) s ds = s' \<and> live s' \<and>
    outbound s' = outbound s @ concat ds \<and> inbound s' = inbound s"
  using assms
proof (induction ds arbitrary: s)
  case Nil
  then show ?case by simp
next
  case (Cons d ds)
  obtain s1 where s1: "tr_write t s d = (length d, no_error, s1)" "live s1"
      "outbound s1 = outbound s @ d" "inbound s1 = inbound s"
    using write_all [OF Cons.prems(1), of d] Cons.prems(2) by auto
  from Cons.IH [OF s1(2)] s1 Cons.prems(2) show ?case by simp
qed

end

text \<open>
  A transport whose \<open>read_until\<close> takes no octet past the delimiter: the stream is left exactly behind
  the first position at which the buffer ends with \<open>delim\<close>.
\<close>

locale exact_stream = byte_stream +
  assumes read_until_found: "live s \<Longrightarrow> delim \<noteq> [] \<Longrightarrow> 0 < k \<Longrightarrow> k \<le> length (inbound s) \<Longrightarrow>
      suffix delim (buf @ take k (inbound s)) \<Longrightarrow>
      (\<forall>j. 0 < j \<longrightarrow> j < k \<longrightarrow> \<not> suffix delim (buf @ take j (inbound s))) \<Longrightarrow>
      \<exists>s'. tr_read_until t s buf delim = Some (buf @ take k (inbound s), no_error, s') \<and> live s' \<and>
           inbound s' = drop k (inbound s) \<and> outbound s' = outbound s"

end
