(* ===== verification/Parser.thy ===== *)
theory Parser
  imports Frame Mask Builder
begin

text \<open>
  The incremental frame parser (\<open>src/frame/parser.cpp\<close>, \<open>include/wscpp/frame/parser.hpp\<close>).  The
  parser's fields are the record \<open>parser\<close>; each \<open>parse_*\<close> member takes the remaining input and
  returns its result, the number of octets it consumed and the new state.  \<open>vector::reserve\<close> may
  throw: the memory the allocator grants is the parameter \<open>alloc\<close>, and a throw is an \<open>Inl\<close> value.
\<close>

section \<open>Model\<close>

datatype exn = bad_alloc | length_error

text \<open>
  \<open>std::vector<uint8_t>::max_size()\<close> is \<open>PTRDIFF_MAX\<close>; reserving nothing asks for no memory.
\<close>

definition vec_reserve :: "(nat \<Rightarrow> bool) \<Rightarrow> nat \<Rightarrow> exn option" where
  "vec_reserve alloc n =
     (if n = 0 then None
      else if 0x7FFFFFFFFFFFFFFF < n then Some length_error else if alloc n then None else Some bad_alloc)"

datatype parser_state = HEADER | PAYLOAD_LENGTH_EXT | MASKING_KEY | PAYLOAD

record parser =
  p_state :: parser_state
  p_header :: frame_header
  p_buffer :: bytes
  p_bytes_read :: nat
  p_payload_remaining :: nat
  p_mask_set :: bool

definition header_zero :: frame_header where
  "header_zero = \<lparr>fh_fin = False, fh_rsv1 = False, fh_rsv2 = False, fh_rsv3 = False,
     fh_op = CONTINUATION, fh_mask = False, fh_payload_len = 0, fh_masking_key = [0, 0, 0, 0]\<rparr>"

definition parser_new :: parser where
  "parser_new = \<lparr>p_state = HEADER, p_header = header_zero, p_buffer = [], p_bytes_read = 0,
     p_payload_remaining = 0, p_mask_set = False\<rparr>"

lemma parser_new_simps [simp]:
  "p_state parser_new = HEADER" "p_header parser_new = header_zero" "p_buffer parser_new = []"
  "length (fh_masking_key header_zero) = 4" "fh_masking_key header_zero = [0, 0, 0, 0]"
  by (simp_all add: parser_new_def header_zero_def)

definition parser_reset :: "parser \<Rightarrow> parser" where
  "parser_reset p = p\<lparr>p_state := HEADER, p_bytes_read := 0, p_payload_remaining := 0,
     p_mask_set := False, p_buffer := [], p_header := header_zero\<rparr>"

definition bytes_needed :: "parser \<Rightarrow> nat" where
  "bytes_needed p =
     (case p_state p of
        HEADER \<Rightarrow> 2 - p_bytes_read p
      | PAYLOAD_LENGTH_EXT \<Rightarrow>
          (if fh_payload_len (p_header p) \<le> 125 then 0
           else if fh_payload_len (p_header p) \<le> 65535 then 2 else 8)
      | MASKING_KEY \<Rightarrow> (if fh_mask (p_header p) then 4 else 0)
      | PAYLOAD \<Rightarrow> p_payload_remaining p)"

definition is_frame_complete :: "parser \<Rightarrow> bool" where
  "is_frame_complete p \<longleftrightarrow> p_state p = HEADER \<and> p_buffer p = []"

type_synonym step_result = "exn + (parse_result \<times> nat \<times> parser)"

definition parse_header :: "(nat \<Rightarrow> bool) \<Rightarrow> parser \<Rightarrow> bytes \<Rightarrow> step_result" where
  "parse_header alloc p data =
     (case data of
        first_byte # second_byte # _ \<Rightarrow>
          let h = (p_header p)\<lparr>fh_fin := first_byte AND 0x80 \<noteq> 0, fh_rsv1 := first_byte AND 0x40 \<noteq> 0,
                    fh_rsv2 := first_byte AND 0x20 \<noteq> 0, fh_rsv3 := first_byte AND 0x10 \<noteq> 0,
                    fh_op := opcode_of (first_byte AND 0x0F), fh_mask := second_byte AND 0x80 \<noteq> 0,
                    fh_payload_len := ucast (second_byte AND 0x7F)\<rparr>;
              p1 = p\<lparr>p_header := h\<rparr>
          in if \<not> valid_op_val (op_val (fh_op h)) then Inr (ERROR, 2, p1)
             else if fh_payload_len h \<le> 125
             then let p2 = p1\<lparr>p_state := (if fh_mask h then MASKING_KEY else PAYLOAD),
                            p_payload_remaining := unat (fh_payload_len h), p_buffer := []\<rparr>
                  in case (if fh_payload_len h > 0 then vec_reserve alloc (unat (fh_payload_len h)) else None) of
                       Some e \<Rightarrow> Inl e
                     | None \<Rightarrow> Inr (INCOMPLETE, 2, p2)
             else if fh_payload_len h = 126 \<or> fh_payload_len h = 127
             then Inr (INCOMPLETE, 2, p1\<lparr>p_state := PAYLOAD_LENGTH_EXT, p_payload_remaining := 0\<rparr>)
             else Inr (INCOMPLETE, 2, p1)
      | _ \<Rightarrow> Inr (INCOMPLETE, 0, p))"

text \<open>Big-endian accumulation, the body of the loop over the eight length octets.\<close>

definition be_accumulate :: "bytes \<Rightarrow> u64" where
  "be_accumulate data = foldl (\<lambda>len b. push_bit 8 len OR ucast b) 0 data"

definition parse_payload_length :: "(nat \<Rightarrow> bool) \<Rightarrow> parser \<Rightarrow> bytes \<Rightarrow> step_result" where
  "parse_payload_length alloc p data =
     (let n = (if fh_payload_len (p_header p) = 126 then 2 else 8) in
      if length data < n then Inr (INCOMPLETE, 0, p)
      else let len = (if fh_payload_len (p_header p) = 126
                      then push_bit 8 (ucast (data ! 0)) OR ucast (data ! 1)
                      else be_accumulate (take 8 data));
               p1 = p\<lparr>p_header := (p_header p)\<lparr>fh_payload_len := len\<rparr>\<rparr>
           in if len > 0x7FFFFFFFFFFFFFFF then Inr (ERROR, n, p1)
              else let p2 = p1\<lparr>p_state := (if fh_mask (p_header p) then MASKING_KEY else PAYLOAD),
                             p_payload_remaining := unat len, p_buffer := []\<rparr>
                   in case (if len > 0 then vec_reserve alloc (unat len) else None) of
                        Some e \<Rightarrow> Inl e
                      | None \<Rightarrow> Inr (INCOMPLETE, n, p2))"

definition parse_masking_key :: "(nat \<Rightarrow> bool) \<Rightarrow> parser \<Rightarrow> bytes \<Rightarrow> step_result" where
  "parse_masking_key alloc p data =
     (if length data < 4 then Inr (INCOMPLETE, 0, p)
      else let len = fh_payload_len (p_header p);
               p1 = p\<lparr>p_header := (p_header p)\<lparr>fh_masking_key := take 4 data\<rparr>, p_state := PAYLOAD,
                      p_payload_remaining := unat len\<rparr>
           in case vec_reserve alloc (unat len) of
                Some e \<Rightarrow> Inl e
              | None \<Rightarrow> Inr (INCOMPLETE, 4, p1))"

definition parse_payload :: "parser \<Rightarrow> bytes \<Rightarrow> step_result" where
  "parse_payload p data =
     (if p_payload_remaining p = 0 then Inr (COMPLETE, 0, p\<lparr>p_state := HEADER\<rparr>)
      else let to_read = min (p_payload_remaining p) (length data);
               offset = length (p_buffer p);
               buf = p_buffer p @ replicate to_read 0;
               buf = (if fh_mask (p_header p)
                      then take offset buf @ copy_and_unmask (drop offset buf) (take to_read data) to_read
                             offset (fh_masking_key (p_header p))
                      else overwrite buf offset (take to_read data));
               remaining = p_payload_remaining p - to_read;
               p1 = p\<lparr>p_buffer := buf, p_payload_remaining := remaining\<rparr>
           in if remaining = 0 then Inr (COMPLETE, to_read, p1\<lparr>p_state := HEADER\<rparr>)
              else Inr (INCOMPLETE, to_read, p1))"

definition parse_step :: "(nat \<Rightarrow> bool) \<Rightarrow> parser \<Rightarrow> bytes \<Rightarrow> step_result" where
  "parse_step alloc p data =
     (case p_state p of
        HEADER \<Rightarrow> parse_header alloc p data
      | PAYLOAD_LENGTH_EXT \<Rightarrow> parse_payload_length alloc p data
      | MASKING_KEY \<Rightarrow> parse_masking_key alloc p data
      | PAYLOAD \<Rightarrow> parse_payload p data)"

text \<open>
  The loop of \<open>parser::parse\<close>.  The result carries the new parser and, on \<open>COMPLETE\<close>, the values
  stored through the reference parameters \<open>header\<close> and \<open>payload\<close>.
\<close>

type_synonym parse_outcome = "exn + (parse_result \<times> parser \<times> (frame_header \<times> bytes) option)"

function parse_loop :: "(nat \<Rightarrow> bool) \<Rightarrow> parser \<Rightarrow> bytes \<Rightarrow> nat \<Rightarrow> parse_outcome" where
  "parse_loop alloc p data consumed =
     (if consumed < length data
      then case parse_step alloc p (drop consumed data) of
             Inl e \<Rightarrow> Inl e
           | Inr (r, c, p') \<Rightarrow>
               if r = ERROR then Inr (ERROR, p', None)
               else if p_state p = PAYLOAD \<and> r = COMPLETE
               then Inr (COMPLETE, parser_reset p', Some (p_header p', p_buffer p'))
               else if c = 0 then Inr (INCOMPLETE, p', None)
               else parse_loop alloc p' data (consumed + c)
      else Inr (INCOMPLETE, p, None))"
  by pat_completeness auto
termination
  by (relation "measure (\<lambda>(alloc, p, data, consumed). length data - consumed)") auto

declare parse_loop.simps [simp del]

definition parse :: "(nat \<Rightarrow> bool) \<Rightarrow> parser \<Rightarrow> bytes \<Rightarrow> parse_outcome" where
  "parse alloc p data = parse_loop alloc p data 0"

definition unmask_payload :: "parser \<Rightarrow> bytes \<Rightarrow> bytes" where
  "unmask_payload p payload =
     (if \<not> fh_mask (p_header p) \<or> payload = [] then payload
      else apply_mask payload (fh_masking_key (p_header p)))"

section \<open>The loop as recursion over the remaining input\<close>

lemma parse_loop_shift:
  "k \<le> length data \<Longrightarrow> parse_loop alloc p data (k + j) = parse_loop alloc p (drop k data) j"
proof (induction alloc p data "k + j" arbitrary: j rule: parse_loop.induct)
  case (1 alloc p data)
  show ?case
  proof (cases "k + j < length data")
    case False
    then have "\<not> j < length (drop k data)" by simp
    with False show ?thesis
      unfolding parse_loop.simps [of alloc p data "k + j"] parse_loop.simps [of alloc p "drop k data" j]
      by (simp only: if_False)
  next
    case True
    have d: "drop (k + j) data = drop j (drop k data)" by (simp add: add.commute)
    have rec: "parse_loop alloc p' data (k + (j + c)) = parse_loop alloc p' (drop k data) (j + c)"
      if "parse_step alloc p (drop (k + j) data) = Inr (r, c, p')" "r \<noteq> ERROR"
        "\<not> (p_state p = PAYLOAD \<and> r = COMPLETE)" "c \<noteq> 0" for r c p'
      using "1.hyps" [OF True that(1) refl refl that(2-4)] "1.prems" by (simp add: add.assoc)
    show ?thesis
      unfolding parse_loop.simps [of alloc p data "k + j"]
        parse_loop.simps [of alloc p "drop k data" j] d [symmetric]
      using True rec by (auto split: sum.splits prod.splits simp: add.assoc)
  qed
qed

lemma parse_Nil [simp]: "parse alloc p [] = Inr (INCOMPLETE, p, None)"
  by (simp add: parse_def parse_loop.simps)

lemma parse_unfold:
  assumes "data \<noteq> []"
  shows "parse alloc p data =
     (case parse_step alloc p data of
        Inl e \<Rightarrow> Inl e
      | Inr (r, c, p') \<Rightarrow>
          if r = ERROR then Inr (ERROR, p', None)
          else if p_state p = PAYLOAD \<and> r = COMPLETE
          then Inr (COMPLETE, parser_reset p', Some (p_header p', p_buffer p'))
          else if c = 0 then Inr (INCOMPLETE, p', None)
          else parse alloc p' (drop c data))"
proof -
  have "parse_loop alloc p' data c = parse_loop alloc p' (drop c data) 0" for c p'
  proof (cases "c \<le> length data")
    case True
    then show ?thesis using parse_loop_shift [of c data alloc p' 0] by simp
  next
    case False
    then show ?thesis by (simp add: parse_loop.simps)
  qed
  then show ?thesis
    using assms unfolding parse_def parse_loop.simps [of alloc p data 0]
    by (auto split: sum.splits prod.splits)
qed

lemma parse_continue:
  assumes "parse_step alloc p data = Inr (INCOMPLETE, c, p')" and "c \<noteq> 0" and "data \<noteq> []"
  shows "parse alloc p data = parse alloc p' (drop c data)"
  using assms by (simp add: parse_unfold)

section \<open>Decoding what the builder encodes\<close>

definition header_of :: "bool \<Rightarrow> bool \<Rightarrow> opcode \<Rightarrow> bool \<Rightarrow> nat \<Rightarrow> bytes \<Rightarrow> frame_header" where
  "header_of fin rsv1 opc m n k =
     \<lparr>fh_fin = fin, fh_rsv1 = rsv1, fh_rsv2 = False, fh_rsv3 = False, fh_op = opc, fh_mask = m,
      fh_payload_len = of_nat n, fh_masking_key = k\<rparr>"

lemma header_of_simps [simp]:
  "fh_fin (header_of fin rsv1 opc m n k) = fin" "fh_rsv1 (header_of fin rsv1 opc m n k) = rsv1"
  "fh_rsv2 (header_of fin rsv1 opc m n k) = False" "fh_rsv3 (header_of fin rsv1 opc m n k) = False"
  "fh_op (header_of fin rsv1 opc m n k) = opc" "fh_mask (header_of fin rsv1 opc m n k) = m"
  "fh_payload_len (header_of fin rsv1 opc m n k) = of_nat n"
  "fh_masking_key (header_of fin rsv1 opc m n k) = k"
  "(header_of fin rsv1 opc m n k)\<lparr>fh_payload_len := of_nat n'\<rparr> = header_of fin rsv1 opc m n' k"
  "(header_of fin rsv1 opc m n k)\<lparr>fh_masking_key := k'\<rparr> = header_of fin rsv1 opc m n k'"
  by (simp_all add: header_of_def)

definition after_length :: "bool \<Rightarrow> bool \<Rightarrow> opcode \<Rightarrow> bool \<Rightarrow> nat \<Rightarrow> parser \<Rightarrow> parser" where
  "after_length fin rsv1 opc m n p =
     p\<lparr>p_header := header_of fin rsv1 opc m n (fh_masking_key (p_header p)),
       p_state := (if m then MASKING_KEY else PAYLOAD), p_payload_remaining := n, p_buffer := []\<rparr>"

lemma be_accumulate_rev: "be_accumulate (rev bs) = bytes_to_word bs"
proof -
  have "foldl (\<lambda>len b. push_bit 8 len OR ucast b) 0 (rev bs) = (bytes_to_word bs :: u64)"
    by (induction bs) (simp_all add: or.commute)
  then show ?thesis by (simp add: be_accumulate_def)
qed

lemma bytes_to_word_to_bytes:
  fixes v :: "'w::len word"
  assumes "unat v < 2 ^ (8 * n)"
  shows "bytes_to_word (word_to_bytes n v) = v"
proof (rule bit_word_eqI)
  fix i assume i: "i < LENGTH('w)"
  have hi: "\<not> bit v i" if "8 * n \<le> i"
  proof -
    have "take_bit (8 * n) v = v"
      using assms by (simp add: word_unat_eq_iff unsigned_take_bit_eq take_bit_nat_eq_self)
    with that show ?thesis by (metis bit_take_bit_iff not_less)
  qed
  show "bit (bytes_to_word (word_to_bytes n v) :: 'w word) i = bit v i"
  proof (cases "i div 8 < n")
    case True
    then show ?thesis using i by (simp add: bit_bytes_to_word word_to_bytes_def bit_simps)
  next
    case False
    then have "8 * n \<le> i" by presburger
    with False hi show ?thesis by (simp add: bit_bytes_to_word)
  qed
qed

lemma be_bytes_2:
  assumes "n < 65536"
  obtains a b where "be_bytes 2 n = [a, b]" "push_bit 8 (ucast a) OR ucast b = (of_nat n :: u64)"
proof -
  have "be_accumulate (be_bytes 2 n) = of_nat n"
    using assms unfolding be_bytes_def be_accumulate_rev
    by (intro bytes_to_word_to_bytes) (simp add: unat_of_nat)
  moreover obtain a b where ab: "be_bytes 2 n = [a, b]"
    by (simp add: be_bytes_def word_to_bytes_def upt_2)
  ultimately show thesis using that by (simp add: be_accumulate_def)
qed

lemma be_bytes_8:
  "n < 2 ^ 64 \<Longrightarrow> be_accumulate (be_bytes 8 n) = of_nat n"
  unfolding be_bytes_def be_accumulate_rev
  by (intro bytes_to_word_to_bytes) (simp add: unat_of_nat)

lemma length_be_bytes [simp]: "length (be_bytes k n) = k"
  by (simp add: be_bytes_def)

lemma be_bytes_eq_Nil [simp]: "be_bytes k n = [] \<longleftrightarrow> k = 0"
  using length_be_bytes [of k n] by (metis length_0_conv)

lemma vec_reserve_ok: "n < 2 ^ 63 \<Longrightarrow> alloc n \<or> n = 0 \<Longrightarrow> vec_reserve alloc n = None"
  by (auto simp: vec_reserve_def)

lemma header_of_update:
  "h\<lparr>fh_fin := fin, fh_rsv1 := rsv1, fh_rsv2 := False, fh_rsv3 := False, fh_op := opc, fh_mask := m,
     fh_payload_len := of_nat n\<rparr> = header_of fin rsv1 opc m n (fh_masking_key h)"
  by (cases h) (simp add: header_of_def)

lemma parse_first_octets:
  assumes "named opc" and "x < 128" and "p_state p = HEADER"
  shows "parse_step alloc p (first_octet fin rsv1 opc # ((if m then 0x80 else 0) OR of_nat x) # rest) =
    (let h = header_of fin rsv1 opc m x (fh_masking_key (p_header p)) in
     if x \<le> 125
     then case vec_reserve alloc x of Some e \<Rightarrow> Inl e
          | None \<Rightarrow> Inr (INCOMPLETE, 2, after_length fin rsv1 opc m x p)
     else Inr (INCOMPLETE, 2, p\<lparr>p_header := h, p_state := PAYLOAD_LENGTH_EXT, p_payload_remaining := 0\<rparr>))"
proof -
  have x: "unat (of_nat x :: u8) = x" using assms(2) by (simp add: unat_of_nat)
  then have x': "unat (of_nat x :: u8) < 128" using assms(2) by simp
  have u: "(ucast (of_nat x :: u8) :: u64) = of_nat x"
    using assms(2) by (simp add: unsigned_of_nat take_bit_nat_eq_self)
  have ux: "unat (of_nat x :: u64) = x" using assms(2) by (simp add: unat_of_nat)
  have v: "valid_op_val (op_val opc)" using assms(1) by (simp add: valid_op_val_iff opcode_of_op_val)
  have cmp: "(of_nat x :: u64) \<le> 125 \<longleftrightarrow> x \<le> 125" "(0 :: u64) < of_nat x \<longleftrightarrow> 0 < x"
    "(of_nat x :: u64) = 126 \<longleftrightarrow> x = 126" "(of_nat x :: u64) = 127 \<longleftrightarrow> x = 127"
    using ux by (simp_all add: word_le_nat_alt word_less_nat_alt word_unat_eq_iff)
  let ?fo = "first_octet fin rsv1 opc" and ?so = "(if m then 0x80 else 0) OR of_nat x :: u8"
  let ?h = "header_of fin rsv1 opc m x (fh_masking_key (p_header p))"
  have b: "(?fo AND 0x80 \<noteq> 0) = fin" "(?fo AND 0x40 \<noteq> 0) = rsv1" "(?fo AND 0x20 \<noteq> 0) = False"
    "(?fo AND 0x10 \<noteq> 0) = False" "opcode_of (?fo AND 0x0F) = opc" "(?so AND 0x80 \<noteq> 0) = m"
    "ucast (?so AND 0x7F) = (of_nat x :: u64)"
    using first_octet_fields [OF assms(1), of fin rsv1] opcode_of_op_val [OF assms(1)]
      len_octet_fields [OF x', of m] u by simp_all
  have sel: "fh_op ?h = opc" "fh_payload_len ?h = of_nat x" "fh_mask ?h = m" by (simp_all add: header_of_def)
  have vr: "(if 0 < x then vec_reserve alloc x else None) = vec_reserve alloc x"
    by (simp add: vec_reserve_def)
  have hx: "\<not> x \<le> 125 \<Longrightarrow> x = 126 \<or> x = 127" using assms(2) by auto
  show ?thesis
    unfolding parse_step_def assms(3) parser_state.case parse_header_def list.case b header_of_update Let_def
      sel cmp ux vr after_length_def
    using v hx by (simp split: option.split)
qed

lemma parse_length_ext:
  assumes "p_state p = PAYLOAD_LENGTH_EXT" and "n < 2 ^ 63" and "alloc n"
    and "p_header p = header_of fin rsv1 opc m x k" and "(x = 126 \<and> n < 65536) \<or> x = 127"
    and "0 < n"
  shows "parse_step alloc p (be_bytes (if x = 126 then 2 else 8) n @ rest) =
    Inr (INCOMPLETE, (if x = 126 then 2 else 8), after_length fin rsv1 opc m n p)"
proof -
  have un: "unat (of_nat n :: u64) = n" using assms(2) by (simp add: unat_of_nat)
  then have cmp: "((of_nat n :: u64) > 0x7FFFFFFFFFFFFFFF) = False" "((0::u64) < of_nat n) = True"
    using assms(2,6) by (simp_all add: word_less_nat_alt)
  have vr: "vec_reserve alloc n = None" using assms(2,3) by (simp add: vec_reserve_ok)
  note unfolds = parse_step_def assms(1) parser_state.case parse_payload_length_def assms(4) header_of_simps
  show ?thesis
  proof (cases "x = 126")
    case True
    with assms(5) have "n < 65536" by auto
    then obtain a b where ab: "be_bytes 2 n = [a, b]" "push_bit 8 (ucast a) OR ucast b = (of_nat n :: u64)"
      by (rule be_bytes_2)
    with True cmp un vr show ?thesis
      unfolding unfolds by (simp add: Let_def after_length_def assms(4) not_less)
  next
    case False
    with assms(5) have x: "x = 127" by simp
    have "be_accumulate (be_bytes 8 n) = of_nat n" using assms(2) by (intro be_bytes_8) simp
    with x cmp un vr show ?thesis
      unfolding unfolds by (simp add: Let_def after_length_def assms(4) not_less)
  qed
qed

text \<open>The header and length octets of an encoded frame bring the parser to the key or the payload.\<close>

lemma parse_header_field:
  assumes "named opc" and "p_state p = HEADER" and "n < 2 ^ 63" and "alloc n \<or> n = 0"
  shows "parse alloc p (first_octet fin rsv1 opc # length_field m n @ rest)
       = parse alloc (after_length fin rsv1 opc m n p) rest"
proof -
  let ?so = "\<lambda>x. (if m then 0x80 else 0) OR of_nat x :: u8"
  have ext: "parse alloc p (first_octet fin rsv1 opc # ?so x # be_bytes (if x = 126 then 2 else 8) n @ rest)
      = parse alloc (after_length fin rsv1 opc m n p) rest"
    if x: "(x = 126 \<and> n < 65536) \<or> x = 127" and n: "125 < n" for x
  proof -
    let ?p1 = "p\<lparr>p_header := header_of fin rsv1 opc m x (fh_masking_key (p_header p)),
                 p_state := PAYLOAD_LENGTH_EXT, p_payload_remaining := 0\<rparr>"
    let ?bs = "be_bytes (if x = 126 then 2 else 8) n @ rest"
    have "parse_step alloc p (first_octet fin rsv1 opc # ?so x # ?bs) = Inr (INCOMPLETE, 2, ?p1)"
      using x parse_first_octets [OF assms(1) _ assms(2), of x alloc fin rsv1 m ?bs] by auto
    then have s1: "parse alloc p (first_octet fin rsv1 opc # ?so x # ?bs) = parse alloc ?p1 ?bs"
      by (subst parse_continue) (auto simp: numeral_2_eq_2)
    have "parse_step alloc ?p1 ?bs
        = Inr (INCOMPLETE, (if x = 126 then 2 else 8), after_length fin rsv1 opc m n ?p1)"
      using assms(3,4) x n by (intro parse_length_ext) auto
    moreover have "?bs \<noteq> []" by simp
    ultimately have "parse alloc ?p1 ?bs = parse alloc (after_length fin rsv1 opc m n ?p1) rest"
      using parse_continue by fastforce
    moreover have "after_length fin rsv1 opc m n ?p1 = after_length fin rsv1 opc m n p"
      by (simp add: after_length_def)
    ultimately show ?thesis using s1 by simp
  qed
  consider "n \<le> 125" | "125 < n" "n \<le> 65535" | "65535 < n" by linarith
  then show ?thesis
  proof cases
    case 1
    have "parse_step alloc p (first_octet fin rsv1 opc # ?so n # rest)
        = Inr (INCOMPLETE, 2, after_length fin rsv1 opc m n p)"
      using 1 assms(4) parse_first_octets [OF assms(1) _ assms(2), of n alloc fin rsv1 m rest] vec_reserve_ok [of n alloc]
      by simp
    with 1 show ?thesis by (simp add: length_field_def parse_continue)
  next
    case 2
    then show ?thesis using ext [of 126] by (simp add: length_field_def)
  next
    case 3
    then show ?thesis using ext [of 127] by (simp add: length_field_def)
  qed
qed

definition after_key :: "bytes \<Rightarrow> parser \<Rightarrow> parser" where
  "after_key k p = p\<lparr>p_header := (p_header p)\<lparr>fh_masking_key := k\<rparr>, p_state := PAYLOAD,
     p_payload_remaining := unat (fh_payload_len (p_header p))\<rparr>"

lemma parse_key:
  assumes "p_state p = MASKING_KEY" and "length k = 4"
    and "vec_reserve alloc (unat (fh_payload_len (p_header p))) = None"
  shows "parse alloc p (k @ rest) = parse alloc (after_key k p) rest"
proof -
  have "parse_step alloc p (k @ rest) = Inr (INCOMPLETE, 4, after_key k p)"
    using assms by (simp add: parse_step_def parse_masking_key_def after_key_def Let_def)
  with assms(2) show ?thesis by (subst parse_continue) auto
qed

text \<open>What \<open>parse_payload\<close> appends for a chunk, masked or not.\<close>

definition plain :: "parser \<Rightarrow> bytes \<Rightarrow> bytes" where
  "plain p chunk = (if fh_mask (p_header p)
     then mask_from (fh_masking_key (p_header p)) (length (p_buffer p)) chunk else chunk)"

lemma length_plain [simp]: "length (plain p xs) = length xs"
  by (simp add: plain_def)

lemma parse_payload_eq:
  assumes "0 < p_payload_remaining p" and "length (fh_masking_key (p_header p)) = 4"
  shows "parse_payload p data =
    (let t = min (p_payload_remaining p) (length data);
         p1 = p\<lparr>p_buffer := p_buffer p @ plain p (take t data),
                p_payload_remaining := p_payload_remaining p - t\<rparr>
     in if p_payload_remaining p1 = 0 then Inr (COMPLETE, t, p1\<lparr>p_state := HEADER\<rparr>)
        else Inr (INCOMPLETE, t, p1))"
proof -
  let ?t = "min (p_payload_remaining p) (length data)"
  have "copy_and_unmask (replicate ?t 0) (take ?t data) ?t (length (p_buffer p)) (fh_masking_key (p_header p))
      = mask_from (fh_masking_key (p_header p)) (length (p_buffer p)) (take ?t data)"
    using assms(2) by (subst copy_and_unmask_eq) auto
  moreover have "overwrite (p_buffer p @ replicate ?t 0) (length (p_buffer p)) (take ?t data)
      = p_buffer p @ take ?t data"
    by (simp add: overwrite_def)
  ultimately show ?thesis
    using assms(1) unfolding parse_payload_def Let_def plain_def by auto
qed

lemma parse_payload_final:
  assumes "p_state p = PAYLOAD" and "p_payload_remaining p = length body" and "body \<noteq> []"
    and "length (fh_masking_key (p_header p)) = 4"
  shows "parse alloc p (body @ rest) =
    Inr (COMPLETE, parser_reset p, Some (p_header p, p_buffer p @ plain p body))"
proof -
  have "parse_step alloc p (body @ rest) = Inr (COMPLETE, length body,
      p\<lparr>p_buffer := p_buffer p @ plain p body, p_payload_remaining := 0, p_state := HEADER\<rparr>)"
    using assms by (simp add: parse_step_def parse_payload_eq Let_def)
  with assms show ?thesis by (simp add: parse_unfold parser_reset_def)
qed

lemma parser_reset_new: "parser_reset p = parser_new"
  by (cases p) (simp add: parser_reset_def parser_new_def)

lemma parse_encode_frame:
  assumes "named opc" and "p_state p = HEADER" and "length (fh_masking_key (p_header p)) = 4"
    and "payload \<noteq> []" and "length payload < 2 ^ 63" and "alloc (length payload)"
    and "\<And>k. key = Some k \<Longrightarrow> length k = 4"
  shows "parse alloc p (encode_frame fin rsv1 opc key payload @ rest) =
    Inr (COMPLETE, parser_new,
      Some (header_of fin rsv1 opc (key \<noteq> None) (length payload)
              (case key of None \<Rightarrow> fh_masking_key (p_header p) | Some k \<Rightarrow> k), payload))"
proof -
  let ?n = "length payload"
  let ?p1 = "after_length fin rsv1 opc (key \<noteq> None) ?n p"
  have un: "unat (of_nat ?n :: u64) = ?n" using assms(5) by (simp add: unat_of_nat)
  have vr: "vec_reserve alloc ?n = None" using assms(5,6) by (simp add: vec_reserve_ok)
  show ?thesis
  proof (cases key)
    case None
    have "parse alloc p (encode_frame fin rsv1 opc key payload @ rest) = parse alloc ?p1 (payload @ rest)"
      using None assms(1,2,5,6) by (simp add: encode_frame_def parse_header_field)
    also have "\<dots> = Inr (COMPLETE, parser_reset ?p1, Some (p_header ?p1, p_buffer ?p1 @ plain ?p1 payload))"
      using None assms(3,4) by (intro parse_payload_final) (auto simp: after_length_def)
    finally show ?thesis
      using None by (simp add: parser_reset_new after_length_def plain_def)
  next
    case (Some k)
    let ?p2 = "after_key k ?p1"
    have "parse alloc p (encode_frame fin rsv1 opc key payload @ rest)
        = parse alloc ?p1 (k @ mask_from k 0 payload @ rest)"
      using Some assms(1,2,5,6) by (simp add: encode_frame_def parse_header_field)
    also have "\<dots> = parse alloc ?p2 (mask_from k 0 payload @ rest)"
      using Some assms(7) vr un by (intro parse_key) (auto simp: after_length_def)
    also have "\<dots> = Inr (COMPLETE, parser_reset ?p2,
        Some (p_header ?p2, p_buffer ?p2 @ plain ?p2 (mask_from k 0 payload)))"
      using Some assms(4,7) un
      by (intro parse_payload_final) (auto simp: after_length_def after_key_def)
    finally show ?thesis
      using Some by (simp add: parser_reset_new after_length_def after_key_def plain_def)
  qed
qed

text \<open>
  C4: the parser inverts the builder.  For every named opcode, flag combination and masking choice, a
  frame with a non-empty payload below $2^{63}$ octets that the allocator can hold, followed by any
  further input, parses to exactly the header fields and payload it was built from, and the parser is
  back in its initial state.
\<close>

theorem parse_build_into:
  assumes "named opc" and "payload \<noteq> []" and "length payload < 2 ^ 63" and "alloc (length payload)"
    and "length key = 4"
  shows "parse alloc parser_new (build_into b opc payload fin msk key rsv1 @ rest) =
    Inr (COMPLETE, parser_new,
      Some (header_of fin rsv1 opc msk (length payload) (if msk then key else [0, 0, 0, 0]), payload))"
proof -
  have "length payload < 2 ^ 64" using assms(3) by simp
  then show ?thesis
    using assms by (cases msk) (simp_all add: build_into_eq, (subst parse_encode_frame; auto)+)
qed

theorem parse_build_into_witness:
  "parse (\<lambda>n. n \<le> 1024) parser_new
     (build_into builder_new TEXT [0x48, 0x69] True True [1, 2, 3, 4] False @ [0x89]) =
   Inr (COMPLETE, parser_new, Some (header_of True False TEXT True 2 [1, 2, 3, 4], [0x48, 0x69]))"
  using parse_build_into [of TEXT "[0x48, 0x69]" "\<lambda>n. n \<le> 1024" "[1, 2, 3, 4]" builder_new True True False "[0x89]"]
  by (simp add: named_def flip: numeral_2_eq_2)

section \<open>Feeding a frame in pieces\<close>

fun feed :: "(nat \<Rightarrow> bool) \<Rightarrow> parser \<Rightarrow> bytes list \<Rightarrow> parse_outcome" where
  "feed alloc p [] = Inr (INCOMPLETE, p, None)"
| "feed alloc p (c # cs) =
     (case parse alloc p c of Inr (INCOMPLETE, p', _) \<Rightarrow> feed alloc p' cs | r \<Rightarrow> r)"

definition advance :: "bytes \<Rightarrow> parser \<Rightarrow> parser" where
  "advance c p = p\<lparr>p_buffer := p_buffer p @ plain p c,
     p_payload_remaining := p_payload_remaining p - length c\<rparr>"

lemma parse_payload_partial:
  assumes "p_state p = PAYLOAD" and "length c < p_payload_remaining p"
    and "length (fh_masking_key (p_header p)) = 4"
  shows "parse alloc p c = Inr (INCOMPLETE, advance c p, None)"
proof (cases "c = []")
  case True
  then show ?thesis by (simp add: advance_def plain_def)
next
  case False
  have "parse_step alloc p c = Inr (INCOMPLETE, length c, advance c p)"
    using assms by (simp add: parse_step_def parse_payload_eq Let_def advance_def)
  with False show ?thesis by (simp add: parse_continue)
qed

lemma plain_advance: "plain p (xs @ ys) = plain p xs @ plain (advance xs p) ys"
  by (simp add: plain_def advance_def mask_from_append)

lemma feed_payload:
  assumes "p_state p = PAYLOAD" and "p_payload_remaining p = length (concat cs)" and "concat cs \<noteq> []"
    and "length (fh_masking_key (p_header p)) = 4"
  shows "feed alloc p cs = Inr (COMPLETE, parser_new, Some (p_header p, p_buffer p @ plain p (concat cs)))"
  using assms
proof (induction cs arbitrary: p)
  case Nil
  then show ?case by simp
next
  case (Cons c cs)
  show ?case
  proof (cases "concat cs = []")
    case True
    with Cons.prems have "parse alloc p c =
        Inr (COMPLETE, parser_reset p, Some (p_header p, p_buffer p @ plain p c))"
      using parse_payload_final [of p c alloc "[]"] by simp
    with True show ?thesis by (simp add: parser_reset_new del: concat_eq_Nil_conv)
  next
    case False
    then have "length c < p_payload_remaining p" using Cons.prems(2) by (simp del: concat_eq_Nil_conv)
    then have "parse alloc p c = Inr (INCOMPLETE, advance c p, None)"
      using Cons.prems by (simp add: parse_payload_partial)
    moreover have "feed alloc (advance c p) cs = Inr (COMPLETE, parser_new,
        Some (p_header (advance c p), p_buffer (advance c p) @ plain (advance c p) (concat cs)))"
      using Cons.prems False by (intro Cons.IH) (simp_all add: advance_def)
    ultimately show ?thesis by (simp add: plain_advance) (simp add: advance_def)
  qed
qed

lemma encode_front_parse:
  assumes "named opc" and "length payload < 2 ^ 63" and "alloc (length payload) \<or> payload = []"
    and "\<And>k. key = Some k \<Longrightarrow> length k = 4"
  obtains p pre where "p_state p = PAYLOAD" and "p_payload_remaining p = length payload"
    and "length (fh_masking_key (p_header p)) = 4" and "p_buffer p = []"
    and "p_header p = header_of fin rsv1 opc (key \<noteq> None) (length payload)
           (case key of None \<Rightarrow> [0, 0, 0, 0] | Some k \<Rightarrow> k)"
    and "encode_frame fin rsv1 opc key payload
           = pre @ (case key of None \<Rightarrow> payload | Some k \<Rightarrow> mask_from k 0 payload)"
    and "\<forall>rest. parse alloc parser_new (pre @ rest) = parse alloc p rest"
proof -
  let ?n = "length payload"
  let ?p1 = "after_length fin rsv1 opc (key \<noteq> None) ?n parser_new"
  let ?pre = "first_octet fin rsv1 opc # length_field (key \<noteq> None) ?n"
  have un: "unat (of_nat ?n :: u64) = ?n" using assms(2) by (simp add: unat_of_nat)
  have vr: "vec_reserve alloc ?n = None" using assms(2,3) by (auto simp: vec_reserve_ok)
  have p1: "parse alloc parser_new (?pre @ rest) = parse alloc ?p1 rest" for rest
    using assms(1,2,3) by (simp add: parse_header_field)
  show thesis
  proof (cases key)
    case None
    show thesis
      using None p1
      by (intro that [of ?p1 ?pre])
         (auto simp: after_length_def encode_frame_def)
  next
    case (Some k)
    have "parse alloc parser_new ((?pre @ k) @ rest) = parse alloc (after_key k ?p1) rest" for rest
      using Some assms(4) vr un p1 [of "k @ rest"] parse_key [of ?p1 k alloc rest]
      by (simp add: after_length_def)
    with Some assms(4) un show thesis
      by (intro that [of "after_key k ?p1" "?pre @ k"])
         (auto simp: after_length_def after_key_def encode_frame_def)
  qed
qed

text \<open>
  C23: payload octets may arrive in any number of calls.  If header, extended length and masking key
  are delivered whole in the first call, then however the payload octets are cut into further chunks
  (empty ones included) the parser reports \<open>COMPLETE\<close> with the same header and the same unmasked
  payload as if the frame had arrived at once.
\<close>

theorem feed_chunked_payload:
  assumes "named opc" and "payload \<noteq> []" and "length payload < 2 ^ 63" and "alloc (length payload)"
    and "length key = 4"
    and "build_into b opc payload fin msk key rsv1 = front @ concat chunks"
    and "length (concat chunks) \<le> length payload"
  shows "feed alloc parser_new (front # chunks) =
    Inr (COMPLETE, parser_new,
      Some (header_of fin rsv1 opc msk (length payload) (if msk then key else [0, 0, 0, 0]), payload))"
proof -
  let ?key = "if msk then Some key else None"
  let ?body = "case ?key of None \<Rightarrow> payload | Some k \<Rightarrow> mask_from k 0 payload"
  have len64: "length payload < 2 ^ 64" using assms(3) by simp
  have k4: "\<And>k. ?key = Some k \<Longrightarrow> length k = 4" using assms(5) by (auto split: if_splits)
  obtain p pre where p: "p_state p = PAYLOAD" "p_payload_remaining p = length payload"
      "length (fh_masking_key (p_header p)) = 4" "p_buffer p = []"
      "p_header p = header_of fin rsv1 opc (?key \<noteq> None) (length payload)
           (case ?key of None \<Rightarrow> [0, 0, 0, 0] | Some k \<Rightarrow> k)"
      "encode_frame fin rsv1 opc ?key payload = pre @ ?body"
      "\<forall>rest. parse alloc parser_new (pre @ rest) = parse alloc p rest"
    by (rule encode_front_parse [where alloc = alloc and key = ?key and fin = fin and ?rsv1.0 = rsv1,
          OF assms(1,3) disjI1 [OF assms(4)] k4])
  have blen: "length ?body = length payload" by simp
  have eq: "front @ concat chunks = pre @ ?body"
    using assms(6) p(6) build_into_eq [OF len64 assms(5)] by simp
  have "length pre \<le> length front"
    using arg_cong [OF eq, of length] assms(7) blen by simp
  then obtain c0 where c0: "front = pre @ c0" "?body = c0 @ concat chunks"
    using eq by (metis append_eq_append_conv_if append_take_drop_id append_eq_conv_conj)
  have "feed alloc parser_new (front # chunks) = feed alloc p (c0 # chunks)"
    using p(7) c0(1) by simp
  also have "\<dots> = Inr (COMPLETE, parser_new, Some (p_header p, p_buffer p @ plain p (concat (c0 # chunks))))"
  proof (rule feed_payload [OF p(1) _ _ p(3)])
    show "p_payload_remaining p = length (concat (c0 # chunks))"
      using p(2) c0(2) blen by (simp only: concat.simps)
    show "concat (c0 # chunks) \<noteq> []"
      using c0(2) blen assms(2) by (metis concat.simps(2) length_0_conv)
  qed
  also have "plain p (concat (c0 # chunks)) = payload"
    using c0(2) [symmetric] p(4,5) by (auto simp: plain_def split: if_splits)
  finally show ?thesis using p(4,5) by (auto split: if_splits)
qed

theorem feed_chunked_payload_witness:
  "feed (\<lambda>n. n \<le> 1024) parser_new [[0x82, 0x83, 1, 2, 3, 4], [8], [], [9, 10]] =
   Inr (COMPLETE, parser_new, Some (header_of True False BINARY True 3 [1, 2, 3, 4], [9, 11, 9]))"
proof -
  have "build_into builder_new BINARY [9, 11, 9] True True [1, 2, 3, 4] False
      = [0x82, 0x83, 1, 2, 3, 4] @ concat [[8], [], [9, 10]]"
    by (simp add: build_into_eq encode_frame_def first_octet_def length_field_def)
  from feed_chunked_payload [OF _ _ _ _ _ this, of "\<lambda>n. n \<le> 1024"] show ?thesis
    by (simp add: named_def flip: numeral_3_eq_3)
qed

section \<open>Where incremental feeding does not work\<close>

text \<open>
  a frame without payload is not reported when it arrives.  The call that delivers it returns
  \<open>INCOMPLETE\<close>; the frame is reported by the next call, whatever that call is given, and the octets
  given there are neither consumed nor kept.
\<close>

lemma empty_frame_reported_late:
  assumes "named opc" and "\<And>k. key = Some k \<Longrightarrow> length k = 4"
  shows "\<exists>p. parse alloc parser_new (encode_frame fin rsv1 opc key []) = Inr (INCOMPLETE, p, None)
    \<and> (\<forall>b bs. \<exists>h. parse alloc p (b # bs) = Inr (COMPLETE, parser_new, Some (h, [])))"
proof -
  have l: "length ([] :: bytes) < 2 ^ 63" by simp
  obtain p pre where p: "p_state p = PAYLOAD" "p_payload_remaining p = length ([] :: bytes)" "p_buffer p = []"
      "encode_frame fin rsv1 opc key [] = pre @ (case key of None \<Rightarrow> [] | Some k \<Rightarrow> mask_from k 0 [])"
      "\<forall>rest. parse alloc parser_new (pre @ rest) = parse alloc p rest"
    by (rule encode_front_parse [where alloc = alloc and key = key and fin = fin and ?rsv1.0 = rsv1,
          OF assms(1) l disjI2 [OF refl] assms(2)])
  have "parse alloc p (b # bs) = Inr (COMPLETE, parser_new, Some (p_header p, []))" for b bs
    using p(1-3) by (simp add: parse_unfold parse_step_def parse_payload_def parser_reset_new)
  moreover have "parse alloc parser_new (encode_frame fin rsv1 opc key []) = Inr (INCOMPLETE, p, None)"
    using p(4) p(5) [rule_format, of "[]"] by (simp split: option.splits)
  ultimately show ?thesis by blast
qed

lemma empty_frame_reported_late_witness:
  "\<exists>p. parse (\<lambda>n. True) parser_new (encode_frame True False PING None []) = Inr (INCOMPLETE, p, None)
    \<and> (\<forall>b bs. \<exists>h. parse (\<lambda>n. True) p (b # bs) = Inr (COMPLETE, parser_new, Some (h, [])))"
  using empty_frame_reported_late [of PING None "\<lambda>n. True" True False] by (simp add: named_def)

text \<open>
  the fixed-size parts of a frame are not buffered.  In every state but \<open>PAYLOAD\<close>, a call with
  fewer octets than the pending field needs returns \<open>INCOMPLETE\<close> and leaves the parser exactly as it
  was, so those octets are lost to a caller that does not present them again.
\<close>

lemma short_field_not_kept:
  assumes "p_state p \<noteq> PAYLOAD"
    and "length data < (case p_state p of HEADER \<Rightarrow> 2 | MASKING_KEY \<Rightarrow> 4
           | _ \<Rightarrow> (if fh_payload_len (p_header p) = 126 then 2 else 8))"
  shows "parse alloc p data = Inr (INCOMPLETE, p, None)"
proof (cases "data = []")
  case False
  have "parse_step alloc p data = Inr (INCOMPLETE, 0, p)"
    using assms
    by (auto simp: parse_step_def parse_header_def parse_payload_length_def parse_masking_key_def
      split: parser_state.splits list.splits if_splits)
  with False show ?thesis by (simp add: parse_unfold)
qed simp

lemma short_field_not_kept_witness:
  "parse (\<lambda>n. True) parser_new [0x81] = Inr (INCOMPLETE, parser_new, None)"
  using short_field_not_kept [of parser_new "[0x81]" "\<lambda>n. True"] by simp

text \<open>
  \<open>bytes_needed\<close> is wrong for the 64-bit length.  After a header announcing a 64-bit length the
  parser cannot advance on fewer than eight octets, yet \<open>bytes_needed\<close> answers two.
\<close>

lemma bytes_needed_64_bit:
  assumes "p_state p = PAYLOAD_LENGTH_EXT" and "fh_payload_len (p_header p) = 127"
  shows "bytes_needed p = 2 \<and> (\<forall>data. length data < 8 \<longrightarrow> parse alloc p data = Inr (INCOMPLETE, p, None))"
proof -
  have "parse alloc p data = Inr (INCOMPLETE, p, None)" if "length data < 8" for data
  proof (cases "data = []")
    case False
    have "parse_step alloc p data = Inr (INCOMPLETE, 0, p)"
      using assms that by (simp add: parse_step_def parse_payload_length_def)
    with False show ?thesis by (simp add: parse_unfold)
  qed simp
  moreover have "bytes_needed p = 2" using assms by (simp add: bytes_needed_def)
  ultimately show ?thesis by blast
qed

lemma bytes_needed_64_bit_witness:
  "bytes_needed (parser_new\<lparr>p_state := PAYLOAD_LENGTH_EXT, p_header := header_zero\<lparr>fh_payload_len := 127\<rparr>\<rparr>) = 2"
  using bytes_needed_64_bit [of "parser_new\<lparr>p_state := PAYLOAD_LENGTH_EXT,
      p_header := header_zero\<lparr>fh_payload_len := 127\<rparr>\<rparr>" "\<lambda>n. True"] by simp

section \<open>Well-formed parser states\<close>

fun parser_wf :: "parser \<Rightarrow> bool" where
  "parser_wf p \<longleftrightarrow> length (fh_masking_key (p_header p)) = 4 \<and>
     (case p_state p of
        HEADER \<Rightarrow> True
      | PAYLOAD_LENGTH_EXT \<Rightarrow> named (fh_op (p_header p)) \<and> fh_payload_len (p_header p) \<in> {126, 127}
      | MASKING_KEY \<Rightarrow> named (fh_op (p_header p)) \<and> fh_mask (p_header p) \<and> p_buffer p = []
          \<and> fh_payload_len (p_header p) \<le> 0x7FFFFFFFFFFFFFFF
          \<and> p_payload_remaining p = unat (fh_payload_len (p_header p))
      | PAYLOAD \<Rightarrow> named (fh_op (p_header p)) \<and> fh_payload_len (p_header p) \<le> 0x7FFFFFFFFFFFFFFF
          \<and> length (p_buffer p) + p_payload_remaining p = unat (fh_payload_len (p_header p)))"

declare parser_wf.simps [simp del]

lemma parse_header_wf:
  assumes "parser_wf p" and "parse_header alloc p data = Inr (r, c, p')" and "r \<noteq> ERROR"
    and "p_state p = HEADER"
  shows "parser_wf p' \<and> r = INCOMPLETE"
  using assms
  by (auto simp: parse_header_def parser_wf.simps Let_def valid_op_val_iff word_le_nat_alt
    split: list.splits if_splits option.splits)

lemma parse_payload_length_wf:
  assumes "parser_wf p" and "parse_payload_length alloc p data = Inr (r, c, p')" and "r \<noteq> ERROR"
    and "p_state p = PAYLOAD_LENGTH_EXT"
  shows "parser_wf p' \<and> r = INCOMPLETE"
  using assms unfolding parse_payload_length_def Let_def
  by (auto simp: parser_wf.simps not_less split: if_splits option.splits)

lemma parse_masking_key_wf:
  assumes "parser_wf p" and "parse_masking_key alloc p data = Inr (r, c, p')" and "p_state p = MASKING_KEY"
  shows "parser_wf p' \<and> r = INCOMPLETE"
  using assms unfolding parse_masking_key_def Let_def
  by (auto simp: parser_wf.simps split: if_splits option.splits)

lemma parse_payload_wf:
  assumes "parser_wf p" and "parse_payload p data = Inr (r, c, p')" and "p_state p = PAYLOAD"
  shows "parser_wf p' \<and> r \<noteq> ERROR \<and>
    (r = COMPLETE \<longrightarrow> length (p_buffer p') = unat (fh_payload_len (p_header p')) \<and> named (fh_op (p_header p')))"
proof (cases "p_payload_remaining p = 0")
  case True
  with assms show ?thesis by (auto simp: parse_payload_def parser_wf.simps)
next
  case False
  then have "0 < p_payload_remaining p" "length (fh_masking_key (p_header p)) = 4"
    using assms(1) by (auto simp: parser_wf.simps)
  from assms parse_payload_eq [OF this, of data] show ?thesis
    by (auto simp: parser_wf.simps Let_def split: if_splits)
qed

lemmas parse_step_wf = parse_header_wf parse_payload_length_wf parse_masking_key_wf parse_payload_wf

lemma parse_step_preserves:
  assumes "parser_wf p" and "parse_step alloc p data = Inr (r, c, p')" and "r \<noteq> ERROR"
  shows "parser_wf p'" and "p_state p = PAYLOAD \<Longrightarrow> r = COMPLETE \<Longrightarrow>
      length (p_buffer p') = unat (fh_payload_len (p_header p')) \<and> named (fh_op (p_header p'))"
  using assms by (auto simp: parse_step_def split: parser_state.splits dest: parse_step_wf)

lemma parser_wf_new: "parser_wf parser_new"
  by (simp add: parser_wf.simps)

lemma parse_loop_wf:
  assumes "parser_wf p" and "parse_loop alloc p data k = Inr (r, p', out)" and "r \<noteq> ERROR"
  shows "parser_wf p' \<and> (case out of None \<Rightarrow> r = INCOMPLETE
    | Some (h, pl) \<Rightarrow> r = COMPLETE \<and> length pl = unat (fh_payload_len h) \<and> named (fh_op h))"
  using assms
proof (induction alloc p data k rule: parse_loop.induct)
  case (1 alloc p data k)
  note unfold = parse_loop.simps [of alloc p data k]
  show ?case
  proof (cases "k < length data")
    case False
    with "1.prems" unfold show ?thesis by auto
  next
    case True
    obtain r1 c p1 where st: "parse_step alloc p (drop k data) = Inr (r1, c, p1)"
      using "1.prems"(2) True unfold by (auto split: sum.splits)
    have r1: "r1 \<noteq> ERROR" using "1.prems"(2,3) True unfold st by (auto split: if_splits)
    note keep = parse_step_preserves [OF "1.prems"(1) st r1]
    show ?thesis
    proof (cases "p_state p = PAYLOAD \<and> r1 = COMPLETE \<or> c = 0")
      case stop: True
      with "1.prems"(2) True unfold st r1 keep show ?thesis
        by (auto simp: parser_reset_new parser_wf_new split: if_splits)
    next
      case go: False
      then have "parse_loop alloc p1 data (k + c) = Inr (r, p', out)"
        using "1.prems"(2) True unfold st r1 by auto
      with "1.IH" [OF True st refl refl r1] go keep(1) "1.prems"(3) show ?thesis by auto
    qed
  qed
qed

lemma parse_loop_error: "parse_loop alloc p data k = Inr (ERROR, p', out) \<Longrightarrow> out = None"
proof (induction alloc p data k rule: parse_loop.induct)
  case (1 alloc p data k)
  from "1.prems" show ?case
    unfolding parse_loop.simps [of alloc p data k]
    by (auto split: if_splits sum.splits prod.splits dest: "1.IH")
qed

text \<open>
  C24: A call that does not return \<open>ERROR\<close> keeps the parser well formed (the octets buffered and the octets
  still expected add up to the announced length, the length is below $2^{63}$, the opcode is a named one, the
  key has four octets), and hands out a frame exactly when it returns \<open>COMPLETE\<close>, with a named opcode and a
  payload of exactly the length its header says.  A call that returns \<open>ERROR\<close> hands out no frame; the
  parser has to be reset after it, which makes it well formed again.
\<close>

theorem parse_preserves_wf:
  assumes "parser_wf p" and "parse alloc p data = Inr (r, p', out)"
  shows "if r = ERROR then out = None \<and> parser_wf (parser_reset p')
    else parser_wf p' \<and> (case out of None \<Rightarrow> r = INCOMPLETE
      | Some (h, pl) \<Rightarrow> r = COMPLETE \<and> length pl = unat (fh_payload_len h) \<and> named (fh_op h))"
  using assms parse_loop_wf parse_loop_error by (auto simp: parse_def parser_reset_new parser_wf_new)

theorem parse_preserves_wf_witness:
  "parser_wf parser_new \<and> parser_wf (advance [7] (after_length True False BINARY False 2 parser_new))"
proof -
  let ?p = "after_length True False BINARY False 2 parser_new"
  have wf: "parser_wf ?p" by (simp add: parser_wf.simps after_length_def named_def word_le_nat_alt)
  have "parse (\<lambda>n. True) ?p [7] = Inr (INCOMPLETE, advance [7] ?p, None)"
    by (rule parse_payload_partial) (simp_all add: after_length_def)
  from parse_preserves_wf [OF wf this] show ?thesis by (simp add: parser_wf_new)
qed

section \<open>Protocol errors\<close>

lemma top_bit_iff: "(2 ^ (LENGTH('w) - 1) \<le> unat w) = bit (w :: 'w::len word) (LENGTH('w) - 1)"
proof -
  obtain n where n: "LENGTH('w) = Suc n" using len_gt_0 not0_implies_Suc by (metis not_less0)
  have "unat w < 2 * 2 ^ n" using unsigned_less [of w] n by simp
  then have "unat w div 2 ^ n < 2" by (simp add: div_less_iff_less_mult)
  moreover have "(2 ^ n \<le> unat w) = (0 < unat w div 2 ^ n)" by (simp add: div_greater_zero_iff)
  ultimately have "(2 ^ n \<le> unat w) = odd (unat w div 2 ^ n)" by (auto simp: less_2_cases_iff)
  also have "\<dots> = bit w n"
    by (metis bit_iff_odd bit_unsigned_iff n lessI possible_bit_nat)
  finally show ?thesis using n by simp
qed

lemma be_accumulate_top:
  assumes "length ds = 7"
  shows "be_accumulate (d # ds) > 0x7FFFFFFFFFFFFFFF \<longleftrightarrow> 0x80 \<le> d"
proof -
  have "be_accumulate (d # ds) = bytes_to_word (rev (d # ds))"
    using be_accumulate_rev [of "rev (d # ds)"] by (simp only: rev_rev_ident)
  then have "bit (be_accumulate (d # ds)) 63 = bit d 7"
    using assms by (simp add: bit_bytes_to_word nth_append)
  moreover have "(be_accumulate (d # ds) > 0x7FFFFFFFFFFFFFFF) = bit (be_accumulate (d # ds)) 63"
    using top_bit_iff [of "be_accumulate (d # ds)"] by (auto simp: word_less_nat_alt)
  moreover have "(0x80 \<le> d) = bit d 7" using top_bit_iff [of d] by (simp add: word_le_nat_alt)
  ultimately show ?thesis by simp
qed

lemma no_error_after_header:
  assumes "p_state p = MASKING_KEY \<or> p_state p = PAYLOAD"
  shows "parse alloc p data \<noteq> Inr (ERROR, p', out)"
proof -
  have pay: "parse alloc q xs \<noteq> Inr (ERROR, p', out)" if "p_state q = PAYLOAD" for q xs
  proof (cases "xs = []")
    case False
    with that show ?thesis
      by (auto simp: parse_unfold parse_step_def parse_payload_def Let_def split: if_splits)
  qed simp
  show ?thesis
  proof (cases "p_state p = PAYLOAD \<or> data = []")
    case True
    with pay show ?thesis by auto
  next
    case False
    with assms show ?thesis
      using pay by (auto simp: parse_unfold parse_step_def parse_masking_key_def Let_def
        split: if_splits option.splits)
  qed
qed

lemma u8_and_7F_cases:
  fixes b :: u8
  shows "ucast (b AND 0x7F) \<le> (125 :: u64) \<or> b AND 0x7F = 126 \<or> b AND 0x7F = 127"
proof -
  have "unat (b AND 0x7F) \<le> unat (0x7F :: u8)"
    by (rule word_and_le1 [THEN word_le_nat_alt [THEN iffD1]])
  then have le: "unat (b AND 0x7F) \<le> 127" by simp
  then have "take_bit 64 (unat (b AND 0x7F)) = unat (b AND 0x7F)" by (intro take_bit_nat_eq_self) simp
  with le show ?thesis by (auto simp: word_le_nat_alt word_unat_eq_iff unsigned_ucast_eq)
qed

lemma parse_ext_error:
  assumes "p_state p = PAYLOAD_LENGTH_EXT" and "fh_payload_len (p_header p) \<in> {126, 127}"
  shows "(\<exists>p' out. parse alloc p data = Inr (ERROR, p', out)) \<longleftrightarrow>
    fh_payload_len (p_header p) = 127 \<and> 8 \<le> length data \<and> 0x80 \<le> data ! 0"
proof (cases "data = []")
  case True
  then show ?thesis by simp
next
  case False
  have tail: "\<not> (\<exists>p' out. parse alloc q xs = Inr (ERROR, p', out))"
    if "p_state q = (if m then MASKING_KEY else PAYLOAD)" for q xs m
    using that no_error_after_header by (auto split: if_splits)
  consider (short) "length data < (if fh_payload_len (p_header p) = 126 then 2 else 8)"
    | (two) "fh_payload_len (p_header p) = 126" "2 \<le> length data"
    | (eight) "fh_payload_len (p_header p) = 127" "8 \<le> length data"
    using assms(2) by fastforce
  then show ?thesis
  proof cases
    case short
    then have "parse_step alloc p data = Inr (INCOMPLETE, 0, p)"
      using assms(1) by (simp add: parse_step_def parse_payload_length_def)
    with short False show ?thesis by (auto simp: parse_unfold split: if_splits)
  next
    case two
    let ?len = "push_bit 8 (ucast (data ! 0)) OR ucast (data ! 1) :: u64"
    have "\<not> bit ?len 63" by (auto simp: bit_simps dest: bit_imp_le_length)
    then have "\<not> ?len > 0x7FFFFFFFFFFFFFFF"
      using top_bit_iff [of ?len] by (auto simp: word_less_nat_alt)
    with two False assms(1) tail show ?thesis
      by (auto simp: parse_unfold parse_step_def parse_payload_length_def Let_def split: option.splits)
  next
    case eight
    then obtain d ds where d: "data = d # ds" "7 \<le> length ds" by (cases data) auto
    then have top: "be_accumulate (take 8 data) > 0x7FFFFFFFFFFFFFFF \<longleftrightarrow> 0x80 \<le> d"
      using be_accumulate_top [of "take 7 ds" d] by simp
    have st: "parse_step alloc p data = parse_payload_length alloc p data"
      using assms(1) by (simp add: parse_step_def)
    show ?thesis
      using eight False top d tail unfolding parse_unfold [OF False] st parse_payload_length_def Let_def
      by (auto split: option.splits simp: assms(1))
  qed
qed

text \<open>
  C25: between frames, a call is refused as a protocol error exactly when both header octets are there
  and either the opcode is a reserved one, or a 64-bit length is announced, its eight octets are there
  and its most significant bit is set.  In every other case the call is accepted.
\<close>

theorem parse_error_iff:
  assumes "p_state p = HEADER"
  shows "(\<exists>p' out. parse alloc p data = Inr (ERROR, p', out)) \<longleftrightarrow>
    2 \<le> length data \<and> (\<not> named (opcode_of (data ! 0 AND 0x0F)) \<or>
      (data ! 1 AND 0x7F = 127 \<and> 10 \<le> length data \<and> 0x80 \<le> data ! 2))"
proof (cases "\<exists>b0 b1 rest. data = b0 # b1 # rest")
  case False
  then have short: "length data < 2" by (cases data; cases "tl data") auto
  have "parse alloc p data = Inr (INCOMPLETE, p, None)"
  proof (cases "data = []")
    case ne: False
    have "parse_step alloc p data = Inr (INCOMPLETE, 0, p)"
      using assms False by (auto simp: parse_step_def parse_header_def split: list.splits)
    with ne show ?thesis by (simp add: parse_unfold)
  qed simp
  with short show ?thesis by simp
next
  case True
  then obtain b0 b1 rest where d: "data = b0 # b1 # rest" by blast
  have len: "ucast (b1 AND 0x7F) = (127 :: u64) \<longleftrightarrow> b1 AND 0x7F = 127"
    "ucast (b1 AND 0x7F) = (126 :: u64) \<longleftrightarrow> b1 AND 0x7F = 126"
  proof -
    have "unat (b1 AND 0x7F) < 256" using unsigned_less [of "b1 AND 0x7F"] by simp
    then have "take_bit 64 (unat (b1 AND 0x7F)) = unat (b1 AND 0x7F)"
      by (intro take_bit_nat_eq_self) simp
    then show "ucast (b1 AND 0x7F) = (127 :: u64) \<longleftrightarrow> b1 AND 0x7F = 127"
      "ucast (b1 AND 0x7F) = (126 :: u64) \<longleftrightarrow> b1 AND 0x7F = 126"
      by (simp_all add: word_unat_eq_iff unsigned_ucast_eq)
  qed
  let ?h = "(p_header p)\<lparr>fh_fin := b0 AND 0x80 \<noteq> 0, fh_rsv1 := b0 AND 0x40 \<noteq> 0, fh_rsv2 := b0 AND 0x20 \<noteq> 0,
      fh_rsv3 := b0 AND 0x10 \<noteq> 0, fh_op := opcode_of (b0 AND 0x0F), fh_mask := b1 AND 0x80 \<noteq> 0,
      fh_payload_len := ucast (b1 AND 0x7F)\<rparr>"
  have st: "parse_step alloc p data = parse_header alloc p data" using assms by (simp add: parse_step_def)
  consider (bad) "\<not> named (opcode_of (b0 AND 0x0F))"
    | (small) "named (opcode_of (b0 AND 0x0F))" "ucast (b1 AND 0x7F) \<le> (125 :: u64)"
    | (ext) "named (opcode_of (b0 AND 0x0F))" "\<not> ucast (b1 AND 0x7F) \<le> (125 :: u64)"
        "ucast (b1 AND 0x7F) = (126 :: u64) \<or> ucast (b1 AND 0x7F) = (127 :: u64)"
    using u8_and_7F_cases [of b1] len by blast
  then show ?thesis
  proof cases
    case bad
    then show ?thesis using st d by (simp add: parse_unfold parse_header_def Let_def valid_op_val_iff)
  next
    case small
    then have "b1 AND 0x7F \<noteq> 127" using len by auto
    moreover have "\<not> (\<exists>p' out. parse alloc p data = Inr (ERROR, p', out))"
      using small st d no_error_after_header
      by (auto simp: parse_unfold parse_header_def Let_def valid_op_val_iff split: if_splits option.splits)
    ultimately show ?thesis using small d by simp
  next
    case ext
    let ?p1 = "p\<lparr>p_header := ?h, p_state := PAYLOAD_LENGTH_EXT, p_payload_remaining := 0\<rparr>"
    have "parse alloc p data = parse alloc ?p1 rest"
      using ext st d by (simp add: parse_unfold parse_header_def Let_def valid_op_val_iff)
    moreover have "(\<exists>p' out. parse alloc ?p1 rest = Inr (ERROR, p', out)) \<longleftrightarrow>
        ucast (b1 AND 0x7F) = (127 :: u64) \<and> 8 \<le> length rest \<and> 0x80 \<le> rest ! 0"
      using ext parse_ext_error [of ?p1 alloc rest] by simp
    ultimately show ?thesis using ext d len by auto
  qed
qed

theorem parse_error_iff_witness:
  "(\<exists>p' out. parse (\<lambda>n. True) parser_new [0x83, 0x00] = Inr (ERROR, p', out))
   \<and> \<not> (\<exists>p' out. parse (\<lambda>n. True) parser_new [0x81, 0x00] = Inr (ERROR, p', out))"
  using parse_error_iff [of parser_new "\<lambda>n. True" "[0x83, 0x00]"]
    parse_error_iff [of parser_new "\<lambda>n. True" "[0x81, 0x00]"]
  by (simp add: opcode_of_def named_def)

end
