(* ===== verification/Deflate.thy ===== *)
theory Deflate
  imports Parser "HOL-Library.Sublist"
begin

text \<open>
  The permessage-deflate extension (\<open>src/extensions/permessage_deflate.cpp\<close>).  zlib is the parameter
  \<open>zlib\<close>: the results of \<open>deflateInit2\<close>/\<open>inflateInit2\<close> and, for a fresh raw stream, what one call
  of \<open>deflate\<close>/\<open>inflate\<close> with \<open>Z_SYNC_FLUSH\<close> returns and writes, given its input and \<open>avail_out\<close>.
\<close>

section \<open>Model\<close>

record zlib =
  z_deflate_init :: int
  z_deflate :: "bytes \<Rightarrow> nat \<Rightarrow> int \<times> bytes"
  z_inflate_init :: int
  z_inflate :: "bytes \<Rightarrow> nat \<Rightarrow> int \<times> bytes"

definition Z_OK :: int where "Z_OK = 0"
definition Z_BUF_ERROR :: int where "Z_BUF_ERROR = -5"

text \<open>\<open>static_cast<uInt>\<close> of a \<open>size_t\<close>.\<close>

definition to_uInt :: "nat \<Rightarrow> nat" where
  "to_uInt n = unat (of_nat n :: u32)"

definition kOffer :: string where
  "kOffer = ''permessage-deflate; client_no_context_takeover; server_no_context_takeover''"

definition deflate_tail :: bytes where
  "deflate_tail = [0x00, 0x00, 0xff, 0xff]"

definition ends_with_deflate_tail :: "bytes \<Rightarrow> bool" where
  "ends_with_deflate_tail data \<longleftrightarrow>
     (let n = length data in
      n \<ge> 4 \<and> data ! (n - 4) = 0x00 \<and> data ! (n - 3) = 0x00 \<and> data ! (n - 2) = 0xff \<and> data ! (n - 1) = 0xff)"

definition permessage_deflate_offer :: string where
  "permessage_deflate_offer = kOffer"

definition header_offers_permessage_deflate :: "string \<Rightarrow> bool" where
  "header_offers_permessage_deflate extensions_header \<longleftrightarrow> contains ''permessage-deflate'' extensions_header"

text \<open>\<open>None\<close> is the result \<open>false\<close>; otherwise the new contents of \<open>out\<close>.\<close>

definition compress_message :: "zlib \<Rightarrow> bytes \<Rightarrow> bytes option" where
  "compress_message z data =
     (if data = [] then Some []
      else if z_deflate_init z \<noteq> Z_OK then None
      else let buffer = replicate (length data + 32) 0;
               avail_out = to_uInt (length buffer);
               (ret, written) = z_deflate z (take (to_uInt (length data)) data) avail_out;
               produced = length buffer - (avail_out - length written);
               buffer = overwrite buffer 0 written
           in if ret \<noteq> Z_OK \<or> produced < 4 \<or> \<not> ends_with_deflate_tail (take produced buffer) then None
              else Some (take (produced - 4) buffer))"

definition decompress_message :: "zlib \<Rightarrow> bytes \<Rightarrow> bytes option" where
  "decompress_message z data =
     (if data = [] then Some []
      else let input = data @ [0x00, 0x00, 0xff, 0xff] in
           if z_inflate_init z \<noteq> Z_OK then None
           else let buffer = replicate (length data * 8 + 64) 0;
                    avail_out = to_uInt (length buffer);
                    (ret, written) = z_inflate z (take (to_uInt (length input)) input) avail_out;
                    produced = length buffer - (avail_out - length written);
                    buffer = overwrite buffer 0 written
                in if ret \<noteq> Z_OK \<and> ret \<noteq> Z_BUF_ERROR then None
                   else Some (take produced buffer))"

section \<open>The contract of zlib\<close>

text \<open>
  \<open>enc\<close> is the complete raw output of \<open>deflate\<close> with \<open>Z_SYNC_FLUSH\<close> on a fresh stream; it ends with
  an empty stored block, and \<open>inflate\<close> recovers the data.  Both calls stop when the output buffer is
  full and still return \<open>Z_OK\<close>, since progress has been made.
\<close>

locale raw_deflate =
  fixes z :: zlib and enc :: "bytes \<Rightarrow> bytes"
  assumes init_ok: "z_deflate_init z = Z_OK" "z_inflate_init z = Z_OK"
    and deflate_sync: "data \<noteq> [] \<Longrightarrow> 0 < cap \<Longrightarrow> z_deflate z data cap = (Z_OK, take cap (enc data))"
    and inflate_sync: "data \<noteq> [] \<Longrightarrow> 0 < cap \<Longrightarrow> z_inflate z (enc data) cap = (Z_OK, take cap data)"
    and sync_marker: "data \<noteq> [] \<Longrightarrow> \<exists>body. body \<noteq> [] \<and> enc data = body @ deflate_tail"
begin

text \<open>What a message becomes on the wire: the output without the marker.\<close>

lemma to_uInt_id: "n < 2 ^ 32 \<Longrightarrow> to_uInt n = n"
  by (simp add: to_uInt_def unat_of_nat)

lemma ends_with_tail: "ends_with_deflate_tail (body @ deflate_tail)"
  by (simp add: ends_with_deflate_tail_def deflate_tail_def nth_append Let_def)

lemma compress_fits:
  assumes "data \<noteq> []" and "length data + 32 < 2 ^ 32" and "enc data = body @ deflate_tail"
    and "length (enc data) \<le> length data + 32"
  shows "compress_message z data = Some body"
proof -
  let ?cap = "length data + 32"
  have d: "z_deflate z data ?cap = (Z_OK, enc data)" using assms deflate_sync [of data ?cap] by simp
  have le: "length (enc data) \<le> ?cap" by (rule assms(4))
  have tk: "take (length (enc data)) (overwrite (replicate ?cap 0) 0 (enc data)) = enc data"
    by (simp add: overwrite_def)
  have body: "take (length (enc data) - 4) (overwrite (replicate ?cap 0) 0 (enc data)) = body"
    using assms(3) by (simp add: overwrite_def deflate_tail_def)
  have "4 \<le> length (enc data)" using assms(3) by (simp add: deflate_tail_def)
  then show ?thesis using assms(1,2) d le tk body ends_with_tail [of body] init_ok
    by (simp add: compress_message_def to_uInt_id Let_def assms(3) [symmetric])
qed

lemma decompress_enc:
  assumes "data \<noteq> []" and "enc data = body @ deflate_tail" and "body \<noteq> []" and "length body * 8 + 64 < 2 ^ 32"
  shows "decompress_message z body = Some (take (length body * 8 + 64) data)"
proof -
  let ?cap = "length body * 8 + 64"
  let ?w = "take ?cap data"
  have i: "z_inflate z (body @ deflate_tail) ?cap = (Z_OK, ?w)"
    using assms inflate_sync [of data ?cap] by simp
  have u: "to_uInt (length (body @ deflate_tail)) = length (body @ deflate_tail)"
    by (rule to_uInt_id) (use assms(4) in \<open>simp add: deflate_tail_def\<close>)
  have len: "?cap - (?cap - length ?w) = length ?w" by simp
  have tk: "take (length ?w) (overwrite (replicate ?cap 0) 0 ?w) = ?w"
    by (rule take_overwrite_0)
  have inp: "take (to_uInt (length (body @ deflate_tail))) (body @ deflate_tail) = body @ deflate_tail"
    by (simp only: u take_all)
  show ?thesis
    unfolding decompress_message_def deflate_tail_def [symmetric] Let_def length_replicate inp i
      to_uInt_id [OF assms(4)] prod.case len tk
    using assms(3) init_ok by simp
qed

end

section \<open>A run-length codec\<close>

text \<open>
  A concrete codec that meets the contract: long runs of one octet become the octet and a 64-bit
  count, anything else is stored with every octet doubled.
\<close>

fun doubled :: "bytes \<Rightarrow> bytes" where
  "doubled [] = []"
| "doubled (b # bs) = b # b # doubled bs"

fun every_second :: "bytes \<Rightarrow> bytes" where
  "every_second (b # _ # bs) = b # every_second bs"
| "every_second _ = []"

lemma every_second_doubled [simp]: "every_second (doubled bs) = bs"
  by (induction bs) simp_all

lemma length_doubled [simp]: "length (doubled bs) = 2 * length bs"
  by (induction bs) simp_all

definition is_run :: "bytes \<Rightarrow> bool" where
  "is_run data \<longleftrightarrow> 16 \<le> length data \<and> length data < 2 ^ 64 \<and> data = replicate (length data) (hd data)"

definition rle_enc :: "bytes \<Rightarrow> bytes" where
  "rle_enc data =
     (if is_run data then [1, hd data] @ word_to_bytes 8 (of_nat (length data) :: u64) else 0 # doubled data)
     @ deflate_tail"

definition rle_dec :: "bytes \<Rightarrow> bytes" where
  "rle_dec input =
     (let body = take (length input - 4) input in
      if hd body = 1 then replicate (unat (bytes_to_word (drop 2 body) :: u64)) (body ! 1) else every_second (tl body))"

definition rle_zlib :: zlib where
  "rle_zlib =
     \<lparr>z_deflate_init = Z_OK, z_deflate = (\<lambda>data cap. (Z_OK, take cap (rle_enc data))),
      z_inflate_init = Z_OK, z_inflate = (\<lambda>input cap. (Z_OK, take cap (rle_dec input)))\<rparr>"

lemma rle_dec_enc: "data \<noteq> [] \<Longrightarrow> rle_dec (rle_enc data) = data"
proof (cases "is_run data")
  case True
  have "bytes_to_word (word_to_bytes 8 (of_nat (length data) :: u64)) = (of_nat (length data) :: u64)"
    by (rule bytes_to_word_to_bytes) (use unsigned_less [of "of_nat (length data) :: u64"] in simp)
  moreover have "unat (of_nat (length data) :: u64) = length data"
    using True by (simp add: is_run_def unat_of_nat)
  moreover have "data = replicate (length data) (hd data)" using True by (simp add: is_run_def)
  ultimately show ?thesis using True
    by (simp add: rle_dec_def rle_enc_def deflate_tail_def Let_def)
next
  case False
  then show ?thesis by (simp add: rle_dec_def rle_enc_def deflate_tail_def Let_def)
qed

interpretation rle: raw_deflate rle_zlib rle_enc
proof
  fix data :: bytes assume "data \<noteq> []"
  show "\<exists>body. body \<noteq> [] \<and> rle_enc data = body @ deflate_tail"
    by (cases "is_run data") (auto simp: rle_enc_def)
qed (simp_all add: rle_zlib_def rle_dec_enc)

section \<open>Properties\<close>

lemma deflate_inverse:
  assumes "raw_deflate z enc" and "raw_deflate z' enc" and "data \<noteq> []" and "length data + 32 < 2 ^ 32"
    and "length (enc data) \<le> length data + 32" and "length data \<le> (length (enc data) - 4) * 8 + 64"
    and "length (enc data) * 8 < 2 ^ 32 - 64"
  shows "\<exists>body. compress_message z data = Some body \<and> decompress_message z' body = Some data \<and>
    body \<noteq> [] \<and> length (enc data) = length body + 4"
proof -
  obtain body where b: "body \<noteq> []" "enc data = body @ deflate_tail"
    using raw_deflate.sync_marker [OF assms(1,3)] by auto
  then have len: "length (enc data) = length body + 4" by (simp add: deflate_tail_def)
  have "compress_message z data = Some body"
    by (rule raw_deflate.compress_fits [OF assms(1,3,4) b(2) assms(5)])
  moreover have "length body * 8 + 64 < 2 ^ 32" using assms(7) len by simp
  then have "decompress_message z' body = Some data"
    using raw_deflate.decompress_enc [OF assms(2,3) b(2,1)] assms(6) len by simp
  ultimately show ?thesis using b(1) len by blast
qed

text \<open>
  C14: Under zlib's contract, a message whose compressed form fits the buffer of \<open>compress_message\<close> is
  recovered by \<open>decompress_message\<close> when it is no longer than eight times its compressed form plus 64
  octets.  The two functions agree on the marker that one strips and the other appends.
\<close>

theorem deflate_roundtrip:
  assumes "raw_deflate z enc" and "data \<noteq> []" and "length data + 32 < 2 ^ 32"
    and "length (enc data) \<le> length data + 32" and "length data \<le> (length (enc data) - 4) * 8 + 64"
    and "length (enc data) * 8 < 2 ^ 32 - 64"
  shows "\<exists>body. compress_message z data = Some body \<and> decompress_message z body = Some data"
  using deflate_inverse [OF assms(1,1-6)] by blast

theorem deflate_roundtrip_witness:
  "\<exists>body. compress_message rle_zlib [1, 2, 3] = Some body \<and> decompress_message rle_zlib body = Some [1, 2, 3]"
  using deflate_roundtrip [OF rle.raw_deflate_axioms, of "[1, 2, 3]"]
  by (simp add: rle_enc_def is_run_def deflate_tail_def)

text \<open>
  C37: A message longer than that is truncated without an error: \<open>decompress_message\<close> makes one call of
  \<open>inflate\<close> into a buffer of eight times the compressed size plus 64 octets and reports success with
  the prefix that fits.
\<close>

theorem deflate_truncates:
  assumes "raw_deflate z enc" and "data \<noteq> []" and "length data + 32 < 2 ^ 32"
    and "length (enc data) \<le> length data + 32" and "(length (enc data) - 4) * 8 + 64 < length data"
  shows "\<exists>body out. compress_message z data = Some body \<and> decompress_message z body = Some out \<and>
    out \<noteq> data \<and> prefix out data"
proof -
  obtain body where b: "body \<noteq> []" "enc data = body @ deflate_tail"
    using raw_deflate.sync_marker [OF assms(1,2)] by auto
  then have len: "length (enc data) = length body + 4" by (simp add: deflate_tail_def)
  have "compress_message z data = Some body"
    by (rule raw_deflate.compress_fits [OF assms(1-3) b(2) assms(4)])
  moreover have "length body * 8 + 64 < 2 ^ 32" using assms(3,5) len by simp
  then have "decompress_message z body = Some (take (length body * 8 + 64) data)"
    using raw_deflate.decompress_enc [OF assms(1,2) b(2,1)] by simp
  moreover have "take (length body * 8 + 64) data \<noteq> data"
    using assms(5) len by (metis length_take min.absorb2 nat_less_le add_diff_cancel_right')
  ultimately show ?thesis by (auto simp: take_is_prefix)
qed

theorem deflate_truncates_witness:
  "\<exists>body out. compress_message rle_zlib (replicate 1000 7) = Some body \<and>
     decompress_message rle_zlib body = Some out \<and> out \<noteq> replicate 1000 7 \<and> prefix out (replicate 1000 7)"
proof -
  have "is_run (replicate 1000 7)" by (simp add: is_run_def)
  then have "length (rle_enc (replicate 1000 7)) = 14" by (simp add: rle_enc_def deflate_tail_def)
  then show ?thesis
    using deflate_truncates [OF rle.raw_deflate_axioms, of "replicate 1000 7"] by simp
qed

text \<open>
  A message that deflate expands by more than 32 octets cannot be sent: the output buffer has no room
  for the rest of the stream, the marker is missing and \<open>compress_message\<close> gives up.
\<close>

lemma compress_fails_when_expanded:
  assumes "raw_deflate z enc" and "data \<noteq> []" and "length data + 32 < 2 ^ 32"
    and "length data + 32 < length (enc data)"
    and "\<not> ends_with_deflate_tail (take (length data + 32) (enc data))"
  shows "compress_message z data = None"
proof -
  let ?cap = "length data + 32"
  let ?w = "take ?cap (enc data)"
  have d: "z_deflate z data ?cap = (Z_OK, ?w)"
    using raw_deflate.deflate_sync [OF assms(1,2), of ?cap] by simp
  have "length ?w = ?cap" using assms(4) by simp
  then have "take ?cap (overwrite (replicate ?cap 0) 0 ?w) = ?w" using take_overwrite_0 by metis
  then show ?thesis using assms(2-5) d raw_deflate.init_ok [OF assms(1)]
    by (simp add: compress_message_def raw_deflate.to_uInt_id [OF assms(1)] Let_def)
qed

lemma compress_fails_when_expanded_witness:
  "compress_message rle_zlib (replicate 40 7 @ [8]) = None"
proof -
  let ?data = "replicate 40 7 @ [8] :: bytes"
  have run: "\<not> is_run ?data"
  proof
    assume "is_run ?data"
    then have "last ?data = last (replicate (length ?data) (hd ?data))" by (metis is_run_def)
    then show False by simp
  qed
  have "take 73 (rle_enc ?data) = 0 # replicate 72 7"
    using run by (simp add: rle_enc_def numeral_eq_Suc)
  then show ?thesis
    using compress_fails_when_expanded [OF rle.raw_deflate_axioms, of ?data] run
    by (simp add: rle_enc_def deflate_tail_def ends_with_deflate_tail_def)
qed

end
