(* ===== verification/Connection.thy ===== *)
theory Connection
  imports Builder Utf8 Transport Deflate
begin

text \<open>
  The WebSocket connection (\<open>class connection::impl\<close>, \<open>src/connection.cpp\<close>), built with
  permessage-deflate enabled, the default.  The state is one record with a field per data member;
  the transport, zlib and the allocator are the environment \<open>env\<close>.

  Callbacks are user code.  A call of a callback is recorded in \<open>c_events\<close>; what the callback then does
  with the connection is \<open>c_react\<close>, which gives the API calls it makes as a function of the callbacks
  so far.  The calls run to completion inside the callback, on the thread that runs it.  A callback that
  runs after \<open>is_open_\<close> was cleared makes calls that have no effect (\<open>run_calls_not_open\<close>), which is why
  \<open>close\<close> only records its \<open>on_close_\<close>, and the \<open>on_error_\<close> of a reader that it wakes.  A frame is handled as
  one piece; when another thread closes the connection the reader is between two frames, and the schedule
  \<open>e_wake\<close>, a function of the callbacks so far, says where.
\<close>

section \<open>State\<close>

datatype connection_role = role_client | role_server

text \<open>The text given to \<open>on_error_\<close>: a literal, or \<open>ec.message()\<close>.\<close>

datatype error_text = Err_text string | Err_code error_code

datatype event = Ev_open | Ev_message bytes opcode | Ev_close u16 string | Ev_error error_text

datatype api_call =
    Call_send_text string bool
  | Call_send_binary bytes bool
  | Call_send_continuation bytes bool
  | Call_send_ping bytes
  | Call_close u16 string

record 's env =
  e_tr :: "'s transport"
  e_zlib :: zlib
  e_alloc :: "nat \<Rightarrow> bool"
  e_wake :: "event list \<Rightarrow> error_code option"

record 's connection =
  c_builder :: builder
  c_gen :: rng
  c_outbound_frame :: bytes
  c_socket :: 's
  c_role :: connection_role
  c_header_buffer :: bytes
  c_ext_payload_buffer :: bytes
  c_masking_key_buffer :: bytes
  c_current_header :: frame_header
  c_payload_buffer :: bytes
  c_message_buffer :: bytes
  c_fragmented :: bool
  c_message_opcode :: opcode
  c_message_compressed :: bool
  c_permessage_deflate :: bool
  c_is_open :: bool
  c_is_closing :: bool
  c_expecting_close :: bool
  c_reader_running :: bool
  c_reader_thread :: bool
  c_on_open :: bool
  c_on_message :: bool
  c_on_close :: bool
  c_on_error :: bool
  c_react :: "event list \<Rightarrow> api_call list"
  c_events :: "event list"

definition connection_new :: "'s \<Rightarrow> rng \<Rightarrow> (event list \<Rightarrow> api_call list) \<Rightarrow> 's connection" where
  "connection_new s gen react =
     \<lparr>c_builder = builder_new, c_gen = gen, c_outbound_frame = [], c_socket = s, c_role = role_server,
      c_header_buffer = [0, 0], c_ext_payload_buffer = [0, 0, 0, 0, 0, 0, 0, 0],
      c_masking_key_buffer = [0, 0, 0, 0], c_current_header = header_zero, c_payload_buffer = [],
      c_message_buffer = [], c_fragmented = False, c_message_opcode = TEXT,
      c_message_compressed = False, c_permessage_deflate = False, c_is_open = False,
      c_is_closing = False, c_expecting_close = False, c_reader_running = False,
      c_reader_thread = False, c_on_open = False, c_on_message = False, c_on_close = False,
      c_on_error = False, c_react = react, c_events = []\<rparr>"

section \<open>Sending and closing\<close>

definition outbound_mask :: "'s connection \<Rightarrow> bool" where
  "outbound_mask c \<longleftrightarrow> c_role c = role_client"

text \<open>\<open>mask ? frame_builder_.generate_masking_key() : {{0, 0, 0, 0}}\<close>\<close>

definition draw_key :: "'s connection \<Rightarrow> bytes \<times> 's connection" where
  "draw_key c =
     (if outbound_mask c then let (key, gen) = generate_masking_key (c_gen c) in (key, c\<lparr>c_gen := gen\<rparr>)
      else ([0, 0, 0, 0], c))"

text \<open>\<open>socket_.write(outbound_frame_.data(), outbound_frame_.size(), ec)\<close>\<close>

definition write_frame :: "'s env \<Rightarrow> 's connection \<Rightarrow> error_code \<times> 's connection" where
  "write_frame E c =
     (let (n, ec, s) = tr_write (e_tr E) (c_socket c) (c_outbound_frame c) in (ec, c\<lparr>c_socket := s\<rparr>))"

definition build_frame :: "opcode \<Rightarrow> bytes \<Rightarrow> bool \<Rightarrow> bool \<Rightarrow> 's connection \<Rightarrow> 's connection" where
  "build_frame opc data fin rsv1 c =
     (let (key, c1) = draw_key c in
      c1\<lparr>c_outbound_frame := build_into (c_builder c1) opc data fin (outbound_mask c) key rsv1\<rparr>)"

definition build_close_frame :: "u16 \<Rightarrow> string \<Rightarrow> 's connection \<Rightarrow> 's connection" where
  "build_close_frame status reason c =
     (let (out, gen) = build_close_into (c_builder c) (c_gen c) status reason (outbound_mask c) in
      c\<lparr>c_outbound_frame := out, c_gen := gen\<rparr>)"

text \<open>
  \<open>send_data_frame\<close> up to the lock of \<open>write_mutex_\<close>, and the part that holds the lock.
\<close>

definition prepare_data_frame ::
  "'s env \<Rightarrow> opcode \<Rightarrow> bytes \<Rightarrow> bool \<Rightarrow> 's connection \<Rightarrow> error_code + 's connection" where
  "prepare_data_frame E opc data fin c =
     (if \<not> c_is_open c then Inl (make_error_code not_open)
      else if c_permessage_deflate c \<and> fin \<and> (opc = TEXT \<or> opc = BINARY)
      then (case compress_message (e_zlib E) data of
              None \<Rightarrow> Inl (make_error_code compression_failed)
            | Some compressed \<Rightarrow> Inr (build_frame opc compressed fin True c))
      else Inr (build_frame opc data fin False c))"

definition locked_write :: "'s env \<Rightarrow> 's connection \<Rightarrow> error_code \<times> 's connection" where
  "locked_write E c =
     (if \<not> c_is_open c \<or> c_is_closing c then (make_error_code not_open, c) else write_frame E c)"

definition send_data_frame ::
  "'s env \<Rightarrow> opcode \<Rightarrow> bytes \<Rightarrow> bool \<Rightarrow> 's connection \<Rightarrow> error_code \<times> 's connection" where
  "send_data_frame E opc data fin c =
     (case prepare_data_frame E opc data fin c of Inl ec \<Rightarrow> (ec, c) | Inr c1 \<Rightarrow> locked_write E c1)"

definition send_text :: "'s env \<Rightarrow> string \<Rightarrow> bool \<Rightarrow> 's connection \<Rightarrow> error_code \<times> 's connection" where
  "send_text E text fin c = send_data_frame E TEXT (bytes_of_string text) fin c"

definition send_binary :: "'s env \<Rightarrow> bytes \<Rightarrow> bool \<Rightarrow> 's connection \<Rightarrow> error_code \<times> 's connection" where
  "send_binary E data fin c = send_data_frame E BINARY data fin c"

definition send_continuation :: "'s env \<Rightarrow> bytes \<Rightarrow> bool \<Rightarrow> 's connection \<Rightarrow> error_code \<times> 's connection" where
  "send_continuation E data fin c = send_data_frame E CONTINUATION data fin c"

definition send_ping :: "'s env \<Rightarrow> bytes \<Rightarrow> 's connection \<Rightarrow> error_code \<times> 's connection" where
  "send_ping E data c =
     (if \<not> c_is_open c then (make_error_code not_open, c)
      else locked_write E (build_frame PING data True False c))"

definition is_valid_close_code :: "u16 \<Rightarrow> bool" where
  "is_valid_close_code code =
     (if code < 1000 then False
      else if code \<ge> 1000 \<and> code \<le> 1003 then True
      else if code \<ge> 1004 \<and> code \<le> 1006 then False
      else if code \<ge> 1007 \<and> code \<le> 1011 then True
      else if code \<ge> 1012 \<and> code \<le> 2999 then False
      else code \<le> 4999)"

definition close_socket :: "'s env \<Rightarrow> 's connection \<Rightarrow> 's connection" where
  "close_socket E c = c\<lparr>c_is_open := False, c_socket := tr_close (e_tr E) (c_socket c)\<rparr>"

definition log_event :: "bool \<Rightarrow> event \<Rightarrow> 's connection \<Rightarrow> 's connection" where
  "log_event installed ev c = (if installed then c\<lparr>c_events := c_events c @ [ev]\<rparr> else c)"

text \<open>
  The end of the reader thread after a read that failed with \<open>ec\<close> on a connection that is no longer open:
  \<open>on_error_\<close> is called, \<open>is_open_\<close> cleared, and the loop left.
\<close>

definition reader_fails :: "error_code \<Rightarrow> 's connection \<Rightarrow> 's connection" where
  "reader_fails ec c = (log_event (c_on_error c \<and> failed ec) (Ev_error (Err_code ec)) c)\<lparr>c_is_open := False\<rparr>"

text \<open>
  \<open>in_reader\<close>: the calling thread is the reader thread.  \<open>reading\<close>: the reader was still in its loop when the
  socket was closed.  The join then waits for it: \<open>e_wake\<close> says whether it was blocked in a read or about
  to make one, and with which error that read ends now that the socket is closed, or was between two frames
  and leaves the loop because \<open>is_open_\<close> is cleared.
\<close>

definition join_reader_if_needed :: "'s env \<Rightarrow> bool \<Rightarrow> bool \<Rightarrow> 's connection \<Rightarrow> 's connection" where
  "join_reader_if_needed E in_reader reading c =
     (if \<not> c_reader_thread c then c
      else if in_reader then c
      else let c = (case (if reading then e_wake E (c_events c) else None) of
                      None \<Rightarrow> c | Some ec \<Rightarrow> reader_fails ec c)
           in c\<lparr>c_reader_thread := False, c_reader_running := False\<rparr>)"

definition shutdown_reader :: "'s env \<Rightarrow> bool \<Rightarrow> 's connection \<Rightarrow> 's connection" where
  "shutdown_reader E in_reader c = join_reader_if_needed E in_reader (c_is_open c) (close_socket E c)"

definition close :: "'s env \<Rightarrow> bool \<Rightarrow> u16 \<Rightarrow> string \<Rightarrow> 's connection \<Rightarrow> 's connection" where
  "close E in_reader status_code reason c =
     (if \<not> c_is_open c \<or> c_is_closing c then c
      else let status_code = (if \<not> is_valid_close_code status_code then 1000 else status_code);
               c = c\<lparr>c_is_closing := True\<rparr>;
               c = build_close_frame status_code reason c;
               c = snd (write_frame E c);
               c = close_socket E c;
               c = join_reader_if_needed E in_reader True c
           in log_event (c_on_close c) (Ev_close status_code reason) c)"

section \<open>Callbacks\<close>

primrec run_call :: "'s env \<Rightarrow> bool \<Rightarrow> api_call \<Rightarrow> 's connection \<Rightarrow> 's connection" where
  "run_call E r (Call_send_text text fin) c = snd (send_text E text fin c)"
| "run_call E r (Call_send_binary data fin) c = snd (send_binary E data fin c)"
| "run_call E r (Call_send_continuation data fin) c = snd (send_continuation E data fin c)"
| "run_call E r (Call_send_ping data) c = snd (send_ping E data c)"
| "run_call E r (Call_close status reason) c = close E r status reason c"

fun run_calls :: "'s env \<Rightarrow> bool \<Rightarrow> api_call list \<Rightarrow> 's connection \<Rightarrow> 's connection" where
  "run_calls E r [] c = c"
| "run_calls E r (a # as) c = run_calls E r as (run_call E r a c)"

text \<open>\<open>if (cb) cb(...)\<close>: the callback is recorded and its calls are made.\<close>

definition fire :: "'s env \<Rightarrow> bool \<Rightarrow> bool \<Rightarrow> event \<Rightarrow> 's connection \<Rightarrow> 's connection" where
  "fire E r installed ev c =
     (if installed then let c1 = log_event True ev c in run_calls E r (c_react c1 (c_events c1)) c1 else c)"

definition emit_error :: "'s env \<Rightarrow> bool \<Rightarrow> string \<Rightarrow> 's connection \<Rightarrow> 's connection" where
  "emit_error E r msg c = fire E r (c_on_error c) (Ev_error (Err_text msg)) c"

definition emit_error_ec :: "'s env \<Rightarrow> bool \<Rightarrow> error_code \<Rightarrow> 's connection \<Rightarrow> 's connection" where
  "emit_error_ec E r ec c = (if \<not> failed ec then c else fire E r (c_on_error c) (Ev_error (Err_code ec)) c)"

section \<open>Opening\<close>

definition start_reader_thread :: "'s connection \<Rightarrow> 's connection" where
  "start_reader_thread c =
     (if \<not> c_is_open c \<or> c_reader_running c then c
      else c\<lparr>c_reader_running := True, c_reader_thread := True\<rparr>)"

definition open_and_start_reader :: "'s env \<Rightarrow> 's connection \<Rightarrow> 's connection" where
  "open_and_start_reader E c =
     (let c = c\<lparr>c_is_open := True\<rparr>;
          c = fire E False (c_on_open c) Ev_open c
      in start_reader_thread c)"

definition connect :: "'s env \<Rightarrow> string \<Rightarrow> string \<Rightarrow> 's connection \<Rightarrow> error_code \<times> 's connection" where
  "connect E host port c =
     (if c_is_open c then (make_error_code already_open, c)
      else let (ec, s) = tr_connect (e_tr E) (c_socket c) host port; c = c\<lparr>c_socket := s\<rparr> in
           if failed ec then (ec, c) else (no_error, open_and_start_reader E c))"

definition connect_ep :: "'s env \<Rightarrow> tcp_endpoint \<Rightarrow> 's connection \<Rightarrow> error_code \<times> 's connection" where
  "connect_ep E endpoint c =
     (if c_is_open c then (make_error_code already_open, c)
      else let (ec, s) = tr_connect_ep (e_tr E) (c_socket c) endpoint; c = c\<lparr>c_socket := s\<rparr> in
           if failed ec then (ec, c) else (no_error, open_and_start_reader E c))"

definition adopt :: "'s env \<Rightarrow> int \<Rightarrow> 's connection \<Rightarrow> error_code \<times> 's connection" where
  "adopt E fd c =
     (if c_is_open c then (make_error_code already_open, c)
      else let (ec, s) = tr_adopt (e_tr E) (c_socket c) fd in (ec, c\<lparr>c_socket := s\<rparr>))"

definition activate :: "'s env \<Rightarrow> 's connection \<Rightarrow> 's connection" where
  "activate E c = open_and_start_reader E c"

definition start_reading :: "'s connection \<Rightarrow> 's connection" where
  "start_reading c = start_reader_thread c"

text \<open>\<open>~impl\<close>\<close>

definition connection_destroy :: "'s env \<Rightarrow> bool \<Rightarrow> 's connection \<Rightarrow> 's connection" where
  "connection_destroy E in_reader c = join_reader_if_needed E in_reader (c_is_open c) (close_socket E c)"

definition set_role :: "connection_role \<Rightarrow> 's connection \<Rightarrow> 's connection" where
  "set_role r c = c\<lparr>c_role := r\<rparr>"

definition set_permessage_deflate :: "bool \<Rightarrow> 's connection \<Rightarrow> 's connection" where
  "set_permessage_deflate enabled c = c\<lparr>c_permessage_deflate := enabled\<rparr>"

definition set_on_open :: "bool \<Rightarrow> 's connection \<Rightarrow> 's connection" where
  "set_on_open cb c = c\<lparr>c_on_open := cb\<rparr>"

definition set_on_message :: "bool \<Rightarrow> 's connection \<Rightarrow> 's connection" where
  "set_on_message cb c = c\<lparr>c_on_message := cb\<rparr>"

definition set_on_close :: "bool \<Rightarrow> 's connection \<Rightarrow> 's connection" where
  "set_on_close cb c = c\<lparr>c_on_close := cb\<rparr>"

definition set_on_error :: "bool \<Rightarrow> 's connection \<Rightarrow> 's connection" where
  "set_on_error cb c = c\<lparr>c_on_error := cb\<rparr>"

section \<open>The reader\<close>

text \<open>Everything below runs on the reader thread.\<close>

definition fail_with_close :: "'s env \<Rightarrow> u16 \<Rightarrow> string \<Rightarrow> 's connection \<Rightarrow> 's connection" where
  "fail_with_close E code reason c =
     (let c = emit_error E True reason c;
          c = (if c_is_open c \<and> \<not> c_is_closing c
               then snd (write_frame E (build_close_frame code reason (c\<lparr>c_is_closing := True\<rparr>)))
               else c);
          c = close_socket E c
      in fire E True (c_on_close c) (Ev_close code reason) c)"

definition fail_protocol :: "'s env \<Rightarrow> string \<Rightarrow> 's connection \<Rightarrow> 's connection" where
  "fail_protocol E reason c = fail_with_close E 1002 reason c"

definition validate_frame_header :: "'s env \<Rightarrow> 's connection \<Rightarrow> bool \<times> 's connection" where
  "validate_frame_header E c =
     (let h = c_current_header c;
          data_op = (fh_op h = TEXT \<or> fh_op h = BINARY \<or> fh_op h = CONTINUATION);
          v = op_val (fh_op h)
      in if fh_rsv1 h \<and> (\<not> c_permessage_deflate c \<or> \<not> data_op)
         then (False, fail_protocol E ''RSV1 set without permessage-deflate'' c)
         else if fh_rsv1 h \<and> fh_op h = CONTINUATION
         then (False, fail_protocol E ''RSV1 on continuation frame'' c)
         else if (fh_rsv2 h \<or> fh_rsv3 h) \<or> (\<not> c_permessage_deflate c \<and> fh_rsv1 h)
         then (False, fail_protocol E ''RSV bits set without extension negotiation'' c)
         else if \<not> ((v \<le> 0x02) \<or> (v \<ge> 0x08 \<and> v \<le> 0x0A))
         then (False, fail_protocol E ''Invalid frame opcode'' c)
         else if c_role c = role_server \<and> \<not> fh_mask h
         then (False, fail_protocol E ''Client frame must be masked'' c)
         else if c_role c = role_client \<and> fh_mask h
         then (False, fail_protocol E ''Server frame must not be masked'' c)
         else (True, c))"

text \<open>The payload is passed by reference: the first component is what it holds afterwards.\<close>

definition deliver_message ::
  "'s env \<Rightarrow> bytes \<Rightarrow> opcode \<Rightarrow> bool \<Rightarrow> 's connection \<Rightarrow> bytes \<times> 's connection" where
  "deliver_message E payload opc compressed c =
     (let finish = (\<lambda>payload.
            if opc = TEXT \<and> \<not> is_valid_utf8 payload
            then (payload, fail_with_close E 1007 ''Invalid UTF-8 in text frame'' c)
            else (payload, fire E True (c_on_message c) (Ev_message payload opc) c))
      in if \<not> compressed then finish payload
         else if \<not> c_permessage_deflate c
         then (payload, fail_protocol E ''Compressed frame without negotiated extension'' c)
         else case decompress_message (e_zlib E) payload of
                None \<Rightarrow> (payload, fail_protocol E ''permessage-deflate decompression failed'' c)
              | Some inflated \<Rightarrow> finish inflated)"

definition reset_fragment_state :: "'s connection \<Rightarrow> 's connection" where
  "reset_fragment_state c =
     c\<lparr>c_fragmented := False, c_message_buffer := [], c_message_opcode := TEXT, c_message_compressed := False\<rparr>"

definition handle_close_frame :: "'s env \<Rightarrow> 's connection \<Rightarrow> 's connection" where
  "handle_close_frame E c =
     (let c = c\<lparr>c_expecting_close := True\<rparr>;
          p = c_payload_buffer c;
          raw_code = (push_bit 8 (ucast (p ! 0)) OR ucast (p ! 1) :: u16);
          status_code = (if length p \<ge> 2
                         then if \<not> is_valid_close_code raw_code then 1002 else raw_code
                         else 1000);
          reason = (if length p \<ge> 2 then string_of_bytes (drop 2 p) else []);
          c = build_close_frame status_code [] c;
          c = snd (write_frame E c);
          c = c\<lparr>c_is_open := False\<rparr>
      in fire E True (c_on_close c) (Ev_close status_code reason) c)"

definition handle_ping_frame :: "'s env \<Rightarrow> 's connection \<Rightarrow> 's connection" where
  "handle_ping_frame E c =
     (if c_is_closing c \<or> \<not> c_is_open c then c
      else let c = build_frame PONG (c_payload_buffer c) True False c in
           if c_is_closing c \<or> \<not> c_is_open c then c
           else let (ec, c) = write_frame E c in emit_error_ec E True ec c)"

definition handle_frame :: "'s env \<Rightarrow> 's connection \<Rightarrow> 's connection" where
  "handle_frame E c =
     (let h = c_current_header c; opc = fh_op h in
      if opc = CLOSE then handle_close_frame E c
      else if opc = PING then handle_ping_frame E c
      else if opc = PONG then c
      else if opc = CONTINUATION
      then (if \<not> c_fragmented c then fail_protocol E ''Unexpected continuation frame'' c
            else let c = c\<lparr>c_message_buffer := c_message_buffer c @ c_payload_buffer c\<rparr> in
                 if fh_fin h
                 then let (buf, c) = deliver_message E (c_message_buffer c) (c_message_opcode c)
                                       (c_message_compressed c) c
                      in reset_fragment_state c
                 else c)
      else if opc = TEXT \<or> opc = BINARY
      then (if c_fragmented c then fail_protocol E ''New data frame before fragmented message completed'' c
            else if \<not> fh_fin h
            then c\<lparr>c_fragmented := True, c_message_opcode := opc, c_message_buffer := c_payload_buffer c,
                   c_message_compressed := fh_rsv1 h\<rparr>
            else let (buf, c) = deliver_message E (c_payload_buffer c) opc (fh_rsv1 h) c
                 in c\<lparr>c_payload_buffer := buf\<rparr>)
      else fail_protocol E ''Unsupported data frame opcode'' c)"

text \<open>
  \<open>read_exact\<close> into a buffer: success, the buffer's new contents and the error code.
\<close>

definition read_exact ::
  "'s env \<Rightarrow> bytes \<Rightarrow> nat \<Rightarrow> 's connection \<Rightarrow> bool \<times> bytes \<times> error_code \<times> 's connection" where
  "read_exact E buf n c =
     (let (got, ec, s) = tr_read (e_tr E) (c_socket c) n in
      (\<not> failed ec \<and> length got = n, overwrite buf 0 got, ec, c\<lparr>c_socket := s\<rparr>))"

text \<open>\<open>payload_buffer_.resize(n)\<close>: growing may throw.\<close>

definition vec_resize :: "(nat \<Rightarrow> bool) \<Rightarrow> nat \<Rightarrow> bytes \<Rightarrow> exn + bytes" where
  "vec_resize alloc n buf =
     (if n \<le> length buf then Inr (take n buf)
      else case vec_reserve alloc n of
             Some e \<Rightarrow> Inl e
           | None \<Rightarrow> Inr (buf @ replicate (n - length buf) 0))"

definition read_payload :: "'s env \<Rightarrow> 's connection \<Rightarrow> exn + error_code \<times> 's connection" where
  "read_payload E c =
     (let len = fh_payload_len (c_current_header c) in
      if len = 0 then Inr (no_error, handle_frame E c)
      else case vec_resize (e_alloc E) (unat len) (c_payload_buffer c) of
             Inl e \<Rightarrow> Inl e
           | Inr buf \<Rightarrow>
               let (ok, buf, ec, c) = read_exact E buf (length buf) c; c = c\<lparr>c_payload_buffer := buf\<rparr> in
               if \<not> ok then Inr (ec, c)
               else let c = (if fh_mask (c_current_header c)
                             then c\<lparr>c_payload_buffer :=
                                     apply_mask (c_payload_buffer c) (fh_masking_key (c_current_header c))\<rparr>
                             else c)
                    in Inr (ec, handle_frame E c))"

text \<open>\<open>parse_header\<close>: the two fixed octets, then the extended length, then the key.\<close>

definition decode_first_octets :: "u8 \<Rightarrow> u8 \<Rightarrow> frame_header \<Rightarrow> frame_header" where
  "decode_first_octets first_byte second_byte h =
     h\<lparr>fh_fin := (first_byte AND 0x80 \<noteq> 0), fh_rsv1 := (first_byte AND 0x40 \<noteq> 0),
       fh_rsv2 := (first_byte AND 0x20 \<noteq> 0), fh_rsv3 := (first_byte AND 0x10 \<noteq> 0),
       fh_op := opcode_of (first_byte AND 0x0F), fh_mask := (second_byte AND 0x80 \<noteq> 0),
       fh_payload_len := ucast (second_byte AND 0x7F)\<rparr>"

definition read_extended_length :: "'s env \<Rightarrow> 's connection \<Rightarrow> bool \<times> error_code \<times> 's connection" where
  "read_extended_length E c =
     (let h = c_current_header c in
      if fh_payload_len h = 126
      then let (ok, buf, ec, c) = read_exact E (c_ext_payload_buffer c) 2 c; c = c\<lparr>c_ext_payload_buffer := buf\<rparr> in
           if \<not> ok then (False, ec, c)
           else (True, ec, c\<lparr>c_current_header :=
                              h\<lparr>fh_payload_len := push_bit 8 (ucast (buf ! 0)) OR ucast (buf ! 1)\<rparr>\<rparr>)
      else if fh_payload_len h = 127
      then let (ok, buf, ec, c) = read_exact E (c_ext_payload_buffer c) 8 c; c = c\<lparr>c_ext_payload_buffer := buf\<rparr> in
           if \<not> ok then (False, ec, c)
           else (True, ec, c\<lparr>c_current_header := h\<lparr>fh_payload_len := be_accumulate (take 8 buf)\<rparr>\<rparr>)
      else (True, no_error, c))"

definition read_masking_key :: "'s env \<Rightarrow> error_code \<Rightarrow> 's connection \<Rightarrow> bool \<times> error_code \<times> 's connection" where
  "read_masking_key E ec c =
     (let h = c_current_header c in
      if fh_mask h
      then let (ok, buf, ec, c) = read_exact E (c_masking_key_buffer c) 4 c; c = c\<lparr>c_masking_key_buffer := buf\<rparr> in
           if \<not> ok then (False, ec, c)
           else (True, ec, c\<lparr>c_current_header := h\<lparr>fh_masking_key := take 4 buf\<rparr>\<rparr>)
      else (True, ec, c))"

definition parse_header :: "'s env \<Rightarrow> 's connection \<Rightarrow> exn + error_code \<times> 's connection" where
  "parse_header E c =
     (let c = c\<lparr>c_current_header :=
                 decode_first_octets (c_header_buffer c ! 0) (c_header_buffer c ! 1) (c_current_header c)\<rparr>;
          (ok, ec, c) = read_extended_length E c
      in if \<not> ok then Inr (ec, c)
         else let (ok, ec, c) = read_masking_key E ec c in
              if \<not> ok then Inr (ec, c)
              else let (valid, c) = validate_frame_header E c in
                   if \<not> valid then Inr (ec, c) else read_payload E c)"

definition read_one_frame :: "'s env \<Rightarrow> 's connection \<Rightarrow> exn + bool \<times> 's connection" where
  "read_one_frame E c =
     (if \<not> c_is_open c then Inr (False, c)
      else let (ok, buf, ec, c) = read_exact E (c_header_buffer c) 2 c; c = c\<lparr>c_header_buffer := buf\<rparr> in
           if \<not> ok then Inr (False, (emit_error_ec E True ec c)\<lparr>c_is_open := False\<rparr>)
           else case parse_header E c of
                  Inl e \<Rightarrow> Inl e
                | Inr (ec, c) \<Rightarrow>
                    if failed ec then Inr (False, (emit_error_ec E True ec c)\<lparr>c_is_open := False\<rparr>)
                    else Inr (c_is_open c, c))"

text \<open>
  \<open>read_loop\<close>, the body of the reader thread: \<open>Inl\<close> an exception that leaves the thread function (the
  process terminates), \<open>None\<close> a loop that never ends.
\<close>

partial_function (option) read_loop :: "'s env \<Rightarrow> 's connection \<Rightarrow> (exn + 's connection) option" where
  "read_loop E c =
     (if c_is_open c \<and> \<not> c_is_closing c
      then case read_one_frame E c of
             Inl e \<Rightarrow> Some (Inl e)
           | Inr (again, c1) \<Rightarrow> if \<not> again then Some (Inr c1) else read_loop E c1
      else Some (Inr c))"

section \<open>The public class\<close>

text \<open>
  The member functions of \<open>class connection\<close>, each of which forwards to the implementation, and what they
  return.  \<open>socket\<close>, which hands out a reference, is the field \<open>c_socket\<close>.
\<close>

datatype conn_request =
    Rq_connect string string
  | Rq_connect_ep tcp_endpoint
  | Rq_adopt int
  | Rq_activate
  | Rq_start_reading
  | Rq_close u16 string
  | Rq_send_text string bool
  | Rq_send_binary bytes bool
  | Rq_send_continuation bytes bool
  | Rq_send_ping bytes
  | Rq_set_role connection_role
  | Rq_set_permessage_deflate bool
  | Rq_permessage_deflate
  | Rq_set_on_open bool
  | Rq_set_on_message bool
  | Rq_set_on_close bool
  | Rq_set_on_error bool
  | Rq_is_open
  | Rq_is_ssl

datatype reply = Re_void | Re_code error_code | Re_bool bool

definition returns_code :: "error_code \<times> 'c \<Rightarrow> reply \<times> 'c" where
  "returns_code r = (Re_code (fst r), snd r)"

primrec connection_api :: "'s env \<Rightarrow> bool \<Rightarrow> conn_request \<Rightarrow> 's connection \<Rightarrow> reply \<times> 's connection" where
  "connection_api E in_reader (Rq_connect host port) c = returns_code (connect E host port c)"
| "connection_api E in_reader (Rq_connect_ep endpoint) c = returns_code (connect_ep E endpoint c)"
| "connection_api E in_reader (Rq_adopt fd) c = returns_code (adopt E fd c)"
| "connection_api E in_reader Rq_activate c = (Re_void, activate E c)"
| "connection_api E in_reader Rq_start_reading c = (Re_void, start_reading c)"
| "connection_api E in_reader (Rq_close status_code reason) c = (Re_void, close E in_reader status_code reason c)"
| "connection_api E in_reader (Rq_send_text txt fin) c = returns_code (send_text E txt fin c)"
| "connection_api E in_reader (Rq_send_binary data fin) c = returns_code (send_binary E data fin c)"
| "connection_api E in_reader (Rq_send_continuation data fin) c = returns_code (send_continuation E data fin c)"
| "connection_api E in_reader (Rq_send_ping data) c = returns_code (send_ping E data c)"
| "connection_api E in_reader (Rq_set_role r) c = (Re_void, set_role r c)"
| "connection_api E in_reader (Rq_set_permessage_deflate enabled) c = (Re_void, set_permessage_deflate enabled c)"
| "connection_api E in_reader Rq_permessage_deflate c = (Re_bool (c_permessage_deflate c), c)"
| "connection_api E in_reader (Rq_set_on_open cb) c = (Re_void, set_on_open cb c)"
| "connection_api E in_reader (Rq_set_on_message cb) c = (Re_void, set_on_message cb c)"
| "connection_api E in_reader (Rq_set_on_close cb) c = (Re_void, set_on_close cb c)"
| "connection_api E in_reader (Rq_set_on_error cb) c = (Re_void, set_on_error cb c)"
| "connection_api E in_reader Rq_is_open c = (Re_bool (c_is_open c), c)"
| "connection_api E in_reader Rq_is_ssl c = (Re_bool (tr_is_ssl (e_tr E) (c_socket c)), c)"

end
