(* ===== verification/Reader.thy ===== *)
theory Reader
  imports Connection
begin

text \<open>
  The reader of a connection over a byte stream: what the API calls and callbacks may change, and how
  one frame on the wire becomes one call of \<open>handle_frame\<close>.
\<close>

section \<open>What sending, closing and callbacks change\<close>

text \<open>\<open>touched c c'\<close>: nothing but the sending side, the open/closing flags and the event log differs.\<close>

definition touched :: "'s connection \<Rightarrow> 's connection \<Rightarrow> bool" where
  "touched c c' \<longleftrightarrow>
     c' = c\<lparr>c_gen := c_gen c', c_outbound_frame := c_outbound_frame c', c_socket := c_socket c',
            c_is_open := c_is_open c', c_is_closing := c_is_closing c',
            c_reader_running := c_reader_running c', c_reader_thread := c_reader_thread c',
            c_events := c_events c'\<rparr>"

lemma touched_refl [simp, intro]: "touched c c"
  by (simp add: touched_def)

lemma touched_trans [trans]: "touched c c1 \<Longrightarrow> touched c1 c2 \<Longrightarrow> touched c c2"
  by (cases c; cases c1; cases c2) (simp add: touched_def)

lemma touchedD:
  assumes "touched c c'"
  shows "c_builder c' = c_builder c" "c_role c' = c_role c" "c_header_buffer c' = c_header_buffer c"
    "c_ext_payload_buffer c' = c_ext_payload_buffer c" "c_masking_key_buffer c' = c_masking_key_buffer c"
    "c_current_header c' = c_current_header c" "c_payload_buffer c' = c_payload_buffer c"
    "c_message_buffer c' = c_message_buffer c" "c_fragmented c' = c_fragmented c"
    "c_message_opcode c' = c_message_opcode c" "c_message_compressed c' = c_message_compressed c"
    "c_permessage_deflate c' = c_permessage_deflate c" "c_on_open c' = c_on_open c"
    "c_on_message c' = c_on_message c" "c_on_close c' = c_on_close c" "c_on_error c' = c_on_error c"
    "c_react c' = c_react c" "c_expecting_close c' = c_expecting_close c"
  using assms by (cases c; cases c'; simp add: touched_def)+

lemma draw_key_eq:
  "draw_key c =
     (if outbound_mask c then fst (generate_masking_key (c_gen c)) else [0, 0, 0, 0],
      c\<lparr>c_gen := (if outbound_mask c then snd (generate_masking_key (c_gen c)) else c_gen c)\<rparr>)"
  by (simp add: draw_key_def split: prod.splits)

lemma build_frame_eq:
  "build_frame opc data fin rsv1 c =
     c\<lparr>c_gen := c_gen (build_frame opc data fin rsv1 c),
       c_outbound_frame := c_outbound_frame (build_frame opc data fin rsv1 c)\<rparr>"
  by (simp add: build_frame_def draw_key_eq Let_def)

lemma build_close_frame_eq:
  "build_close_frame st reason c =
     c\<lparr>c_gen := c_gen (build_close_frame st reason c),
       c_outbound_frame := c_outbound_frame (build_close_frame st reason c)\<rparr>"
  by (simp add: build_close_frame_def split: prod.splits)

lemma build_frame_fields [simp]:
  "c_socket (build_frame opc data fin rsv1 c) = c_socket c"
  "c_is_open (build_frame opc data fin rsv1 c) = c_is_open c"
  "c_is_closing (build_frame opc data fin rsv1 c) = c_is_closing c"
  "c_events (build_frame opc data fin rsv1 c) = c_events c"
  "c_reader_running (build_frame opc data fin rsv1 c) = c_reader_running c"
  "c_reader_thread (build_frame opc data fin rsv1 c) = c_reader_thread c"
  "touched c (build_frame opc data fin rsv1 c)"
  by (subst build_frame_eq; simp add: touched_def)+

lemma build_close_frame_fields [simp]:
  "c_socket (build_close_frame st reason c) = c_socket c"
  "c_is_open (build_close_frame st reason c) = c_is_open c"
  "c_is_closing (build_close_frame st reason c) = c_is_closing c"
  "c_events (build_close_frame st reason c) = c_events c"
  "c_reader_running (build_close_frame st reason c) = c_reader_running c"
  "c_reader_thread (build_close_frame st reason c) = c_reader_thread c"
  "touched c (build_close_frame st reason c)"
  by (subst build_close_frame_eq; simp add: touched_def)+

lemma write_frame_fields [simp]:
  "c_is_open (snd (write_frame E c)) = c_is_open c"
  "c_is_closing (snd (write_frame E c)) = c_is_closing c"
  "c_events (snd (write_frame E c)) = c_events c"
  "c_reader_running (snd (write_frame E c)) = c_reader_running c"
  "c_reader_thread (snd (write_frame E c)) = c_reader_thread c"
  "touched c (snd (write_frame E c))"
  by (simp_all add: write_frame_def touched_def split: prod.splits)

lemma locked_write_fields [simp]:
  "c_is_open (snd (locked_write E c)) = c_is_open c"
  "c_is_closing (snd (locked_write E c)) = c_is_closing c"
  "c_events (snd (locked_write E c)) = c_events c"
  "c_reader_running (snd (locked_write E c)) = c_reader_running c"
  "c_reader_thread (snd (locked_write E c)) = c_reader_thread c"
  "touched c (snd (locked_write E c))"
  by (simp_all add: locked_write_def)

lemma locked_build_touched [simp]:
  "touched c (snd (locked_write E (build_frame opc data fin rsv1 c)))"
  by (rule touched_trans [OF build_frame_fields(7) locked_write_fields(6)])

lemma send_data_frame_fields [simp]:
  "c_is_open (snd (send_data_frame E opc data fin c)) = c_is_open c"
  "c_is_closing (snd (send_data_frame E opc data fin c)) = c_is_closing c"
  "c_events (snd (send_data_frame E opc data fin c)) = c_events c"
  "c_reader_running (snd (send_data_frame E opc data fin c)) = c_reader_running c"
  "c_reader_thread (snd (send_data_frame E opc data fin c)) = c_reader_thread c"
  "touched c (snd (send_data_frame E opc data fin c))"
  by (auto simp: send_data_frame_def prepare_data_frame_def split: option.splits)

lemma send_ping_fields [simp]:
  "c_is_open (snd (send_ping E data c)) = c_is_open c"
  "c_is_closing (snd (send_ping E data c)) = c_is_closing c"
  "c_events (snd (send_ping E data c)) = c_events c"
  "c_reader_running (snd (send_ping E data c)) = c_reader_running c"
  "c_reader_thread (snd (send_ping E data c)) = c_reader_thread c"
  "touched c (snd (send_ping E data c))"
  by (auto simp: send_ping_def)

lemma close_build_touched [simp]:
  "touched c (snd (write_frame E (build_close_frame st reason (c\<lparr>c_is_closing := True\<rparr>))))"
proof -
  have "touched c (c\<lparr>c_is_closing := True\<rparr>)" by (simp add: touched_def)
  also have "touched \<dots> (build_close_frame st reason (c\<lparr>c_is_closing := True\<rparr>))" by simp
  also have "touched \<dots> (snd (write_frame E \<dots>))" by simp
  finally show ?thesis .
qed

text \<open>What the join of the reader leaves as it was, and the callback of a reader that it wakes.\<close>

definition wake_events :: "'s env \<Rightarrow> bool \<Rightarrow> 's connection \<Rightarrow> event list" where
  "wake_events E in_reader c =
     (if c_reader_thread c \<and> \<not> in_reader \<and> c_on_error c
      then case e_wake E (c_events c) of Some ec \<Rightarrow> if failed ec then [Ev_error (Err_code ec)] else [] | None \<Rightarrow> []
      else [])"

lemma join_reader_fields [simp]:
  "touched c (join_reader_if_needed E r b c)"
  "c_is_closing (join_reader_if_needed E r b c) = c_is_closing c"
  "c_outbound_frame (join_reader_if_needed E r b c) = c_outbound_frame c"
  "c_socket (join_reader_if_needed E r b c) = c_socket c"
  "c_on_close (join_reader_if_needed E r b c) = c_on_close c"
  "c_events (join_reader_if_needed E r True c) = c_events c @ wake_events E r c"
  "c_reader_thread (join_reader_if_needed E r b c) \<longleftrightarrow> c_reader_thread c \<and> r"
  "c_reader_running (join_reader_if_needed E r b c) \<longleftrightarrow> c_reader_running c \<and> (r \<or> \<not> c_reader_thread c)"
  by (auto simp: join_reader_if_needed_def reader_fails_def log_event_def touched_def wake_events_def Let_def
      split: option.splits)

lemma join_reader_closed [simp]: "\<not> c_is_open c \<Longrightarrow> \<not> c_is_open (join_reader_if_needed E r b c)"
  by (auto simp: join_reader_if_needed_def reader_fails_def log_event_def Let_def split: option.splits)

lemma close_touched [simp]: "touched c (close E r st reason c)"
proof (cases "\<not> c_is_open c \<or> c_is_closing c")
  case True
  then show ?thesis by (simp add: close_def)
next
  case False
  let ?st = "if \<not> is_valid_close_code st then 1000 else st"
  let ?c2 = "snd (write_frame E (build_close_frame ?st reason (c\<lparr>c_is_closing := True\<rparr>)))"
  have "touched c ?c2" by (rule close_build_touched)
  also have "touched ?c2 (close_socket E ?c2)" by (simp add: touched_def close_socket_def)
  also have "touched \<dots> (join_reader_if_needed E r True (close_socket E ?c2))" by simp
  also have "touched \<dots> (close E r st reason c)"
    using False by (simp add: touched_def close_def log_event_def Let_def)
  finally show ?thesis .
qed

lemma close_flags:
  assumes "c_is_open c" and "\<not> c_is_closing c"
  shows "\<not> c_is_open (close E r st reason c)" and "c_is_closing (close E r st reason c)"
  using assms by (auto simp: close_def log_event_def close_socket_def Let_def)

lemma close_events:
  assumes "c_is_open c" and "\<not> c_is_closing c"
  shows "c_events (close E r st reason c) = c_events c @ wake_events E r c @
    (if c_on_close c then [Ev_close (if is_valid_close_code st then st else 1000) reason] else [])"
proof -
  let ?st = "if \<not> is_valid_close_code st then 1000 else st"
  let ?c2 = "snd (write_frame E (build_close_frame ?st reason (c\<lparr>c_is_closing := True\<rparr>)))"
  have t: "touched c ?c2" by (rule close_build_touched)
  have "wake_events E r (close_socket E ?c2) = wake_events E r c"
    using touchedD [OF t] by (simp add: wake_events_def close_socket_def)
  moreover have "c_on_close (close_socket E ?c2) = c_on_close c" "c_events (close_socket E ?c2) = c_events c"
    using touchedD [OF t] by (simp_all add: close_socket_def)
  ultimately show ?thesis using assms by (simp add: close_def log_event_def Let_def)
qed

text \<open>Without an open connection no API call has any effect.\<close>

lemma run_call_not_open: "\<not> c_is_open c \<Longrightarrow> run_call E r a c = c"
  by (cases a) (simp_all add: send_text_def send_binary_def send_continuation_def send_data_frame_def
      prepare_data_frame_def send_ping_def close_def)

lemma run_calls_not_open: "\<not> c_is_open c \<Longrightarrow> run_calls E r as c = c"
  by (induction as) (simp_all add: run_call_not_open)

text \<open>\<open>reader_fails\<close> is the error branch of \<open>read_one_frame\<close> on a connection that is not open.\<close>

lemma reader_fails_eq: "\<not> c_is_open c \<Longrightarrow> reader_fails ec c = (emit_error_ec E True ec c)\<lparr>c_is_open := False\<rparr>"
  by (simp add: reader_fails_def emit_error_ec_def fire_def log_event_def run_calls_not_open Let_def)

lemma run_call_touched [simp]: "touched c (run_call E r a c)"
  by (cases a) (simp_all add: send_text_def send_binary_def send_continuation_def)

lemma run_calls_touched [simp]: "touched c (run_calls E r as c)"
  by (induction as arbitrary: c) (auto intro: touched_trans [OF run_call_touched])

lemma fire_touched [simp]: "touched c (fire E r b ev c)"
proof -
  have "touched c (log_event True ev c)" by (simp add: touched_def log_event_def)
  then show ?thesis unfolding fire_def by (auto simp: Let_def intro: touched_trans)
qed

lemma fire_not_open: "\<not> c_is_open c \<Longrightarrow> fire E r b ev c = log_event b ev c"
  by (simp add: fire_def log_event_def run_calls_not_open)

lemma emit_error_touched [simp]: "touched c (emit_error E r msg c)" "touched c (emit_error_ec E r ec c)"
  by (simp_all add: emit_error_def emit_error_ec_def)

lemma fail_with_close_touched [simp]: "touched c (fail_with_close E code reason c)"
proof -
  let ?c1 = "emit_error E True reason c"
  let ?c2 = "if c_is_open ?c1 \<and> \<not> c_is_closing ?c1
             then snd (write_frame E (build_close_frame code reason (?c1\<lparr>c_is_closing := True\<rparr>))) else ?c1"
  have "touched c ?c1" by simp
  also have "touched ?c1 ?c2" by simp
  also have "touched ?c2 (close_socket E ?c2)" by (simp add: touched_def close_socket_def)
  also have "touched \<dots> (fail_with_close E code reason c)"
    unfolding fail_with_close_def Let_def by (rule fire_touched)
  finally show ?thesis .
qed

text \<open>A failed connection is closed, whatever the callbacks did.\<close>

lemma fail_with_close_closed [simp]: "\<not> c_is_open (fail_with_close E code reason c)"
  by (simp add: fail_with_close_def Let_def fire_not_open close_socket_def log_event_def)

lemma fail_protocol_closed [simp]:
  "\<not> c_is_open (fail_protocol E reason c)" "touched c (fail_protocol E reason c)"
  by (simp_all add: fail_protocol_def)

section \<open>One frame on the wire\<close>

text \<open>\<open>received c c1\<close>: \<open>c1\<close> differs from \<open>c\<close> in the socket and the reader's buffers only.\<close>

definition received :: "'s connection \<Rightarrow> 's connection \<Rightarrow> bool" where
  "received c c1 \<longleftrightarrow>
     c1 = c\<lparr>c_socket := c_socket c1, c_header_buffer := c_header_buffer c1,
            c_ext_payload_buffer := c_ext_payload_buffer c1,
            c_masking_key_buffer := c_masking_key_buffer c1, c_current_header := c_current_header c1,
            c_payload_buffer := c_payload_buffer c1\<rparr>"

lemma receivedD:
  assumes "received c c1"
  shows "c_role c1 = c_role c" "c_permessage_deflate c1 = c_permessage_deflate c"
    "c_is_open c1 = c_is_open c" "c_is_closing c1 = c_is_closing c" "c_events c1 = c_events c"
    "c_fragmented c1 = c_fragmented c" "c_message_buffer c1 = c_message_buffer c"
    "c_message_opcode c1 = c_message_opcode c" "c_message_compressed c1 = c_message_compressed c"
    "c_on_message c1 = c_on_message c" "c_on_close c1 = c_on_close c" "c_on_error c1 = c_on_error c"
    "c_react c1 = c_react c" "c_gen c1 = c_gen c" "c_builder c1 = c_builder c"
    "c_reader_running c1 = c_reader_running c" "c_reader_thread c1 = c_reader_thread c"
    "c_on_open c1 = c_on_open c" "c_outbound_frame c1 = c_outbound_frame c"
    "c_expecting_close c1 = c_expecting_close c"
  using assms by (cases c; cases c1; simp add: received_def)+

lemma received_refl [simp]: "received c c"
  by (simp add: received_def)

lemma received_trans: "received c c1 \<Longrightarrow> received c1 c2 \<Longrightarrow> received c c2"
  by (cases c; cases c1; cases c2) (simp add: received_def)

text \<open>The fixed-size arrays of the class.\<close>

definition buffers_ok :: "'s connection \<Rightarrow> bool" where
  "buffers_ok c \<longleftrightarrow> length (c_header_buffer c) = 2 \<and> length (c_ext_payload_buffer c) = 8 \<and>
     length (c_masking_key_buffer c) = 4 \<and> length (bld_masking_key (c_builder c)) = 4"

text \<open>The length field as the seven-bit code and the extended length.\<close>

definition len_code :: "nat \<Rightarrow> nat" where
  "len_code n = (if n \<le> 125 then n else if n \<le> 65535 then 126 else 127)"

definition len_ext :: "nat \<Rightarrow> bytes" where
  "len_ext n = (if n \<le> 125 then [] else if n \<le> 65535 then be_bytes 2 n else be_bytes 8 n)"

lemma length_field_split:
  "length_field m n = ((if m then 0x80 else 0) OR of_nat (len_code n)) # len_ext n"
  by (simp add: length_field_def len_code_def len_ext_def Let_def)

lemma len_code_less: "len_code n < 128"
  by (simp add: len_code_def)

lemma decode_first_octets_eq:
  assumes "named opc" and "x < 128"
  shows "decode_first_octets (first_octet fin rsv1 opc) ((if m then 0x80 else 0) OR of_nat x) h
       = header_of fin rsv1 opc m x (fh_masking_key h)"
proof -
  have x: "unat (of_nat x :: u8) < 128" using assms(2) by (simp add: unat_of_nat)
  have u: "(ucast (of_nat x :: u8) :: u64) = of_nat x"
    using assms(2) by (simp add: unsigned_of_nat take_bit_nat_eq_self)
  show ?thesis
    unfolding decode_first_octets_def first_octet_fields [OF assms(1)] len_octet_fields [OF x] u
      opcode_of_op_val [OF assms(1)]
    by (simp add: header_of_update)
qed

lemma of_nat_u64_eq: "a < 2 ^ 64 \<Longrightarrow> b < 2 ^ 64 \<Longrightarrow> (of_nat a :: u64) = of_nat b \<longleftrightarrow> a = b"
  by (simp add: word_unat_eq_iff unat_of_nat)

lemma validate_frame_header_ok:
  assumes "c_current_header c = header_of fin rsv1 opc m n k" and "named opc"
    and "rsv1 \<Longrightarrow> c_permessage_deflate c \<and> (opc = TEXT \<or> opc = BINARY)"
    and "m \<longleftrightarrow> c_role c = role_server"
  shows "validate_frame_header E c = (True, c)"
proof -
  have "valid_op_val (op_val opc)" using assms(2) by (simp add: valid_op_val_iff opcode_of_op_val)
  moreover have "m \<longleftrightarrow> c_role c \<noteq> role_client" using assms(4) by (cases "c_role c") auto
  ultimately show ?thesis
    using assms by (auto simp: validate_frame_header_def valid_op_val_def Let_def)
qed

lemma vec_resize_ok:
  assumes "alloc n" and "n < 2 ^ 63"
  shows "\<exists>buf'. vec_resize alloc n buf = Inr buf' \<and> length buf' = n"
  using assms vec_reserve_ok [of n alloc] by (auto simp: vec_resize_def)

lemma overwrite_all: "length xs = length buf \<Longrightarrow> overwrite buf 0 xs = xs"
  by (simp add: overwrite_def)

locale stream_env = byte_stream "e_tr E" live inbound outbound fits
  for E :: "'s env" and live inbound outbound fits
begin

lemma read_exact_stream:
  assumes "live (c_socket c)" and "0 < n" and "inbound (c_socket c) = xs @ rest" and "length xs = n"
    and "fits n"
  shows "\<exists>s. read_exact E buf n c = (True, overwrite buf 0 xs, no_error, c\<lparr>c_socket := s\<rparr>) \<and> live s \<and>
    inbound s = rest \<and> outbound s = outbound (c_socket c)"
proof -
  have "n \<le> length (inbound (c_socket c))" using assms(3,4) by simp
  from read_exact [OF assms(1,2) this assms(5)] show ?thesis
    using assms(3,4) by (auto simp: read_exact_def)
qed

lemma write_frame_some:
  assumes "live (c_socket c)"
  shows "\<exists>ec s. write_frame E c = (ec, c\<lparr>c_socket := s\<rparr>) \<and> live s \<and>
    prefix (outbound (c_socket c)) (outbound s) \<and> inbound s = inbound (c_socket c)"
  using write_some [OF assms, of "c_outbound_frame c"] by (auto simp: write_frame_def)

lemma write_frame_stream:
  assumes "live (c_socket c)" and "fits (length (c_outbound_frame c))"
  shows "\<exists>s. write_frame E c = (no_error, c\<lparr>c_socket := s\<rparr>) \<and> live s \<and>
    outbound s = outbound (c_socket c) @ c_outbound_frame c \<and> inbound s = inbound (c_socket c)"
  using write_all [OF assms] by (auto simp: write_frame_def)

text \<open>\<open>here c bs out\<close>: the reader stands before \<open>bs\<close>, and \<open>out\<close> has been sent.\<close>

definition here :: "'s connection \<Rightarrow> bytes \<Rightarrow> bytes \<Rightarrow> bool" where
  "here c bs out \<longleftrightarrow> live (c_socket c) \<and> inbound (c_socket c) = bs \<and> outbound (c_socket c) = out"

lemma hereD [dest]: "here c bs out \<Longrightarrow> live (c_socket c)" "here c bs out \<Longrightarrow> inbound (c_socket c) = bs"
  "here c bs out \<Longrightarrow> outbound (c_socket c) = out"
  by (simp_all add: here_def)

lemma read_extended_length_encoded:
  assumes "here c (len_ext n @ rest) out" and "buffers_ok c" and "n < 2 ^ 64"
    and "c_current_header c = header_of fin rsv1 opc m (len_code n) k"
  shows "\<exists>c1. read_extended_length E c = (True, no_error, c1) \<and> received c c1 \<and> here c1 rest out \<and>
    buffers_ok c1 \<and> c_payload_buffer c1 = c_payload_buffer c \<and>
    c_current_header c1 = header_of fin rsv1 opc m n k"
proof -
  have lc: "(of_nat (len_code n) :: u64) = 126 \<longleftrightarrow> len_code n = 126"
    "(of_nat (len_code n) :: u64) = 127 \<longleftrightarrow> len_code n = 127"
    using of_nat_u64_eq [of "len_code n" 126] of_nat_u64_eq [of "len_code n" 127] len_code_less [of n]
    by simp_all
  consider "n \<le> 125" | "125 < n" "n \<le> 65535" | "65535 < n" by linarith
  then show ?thesis
  proof cases
    case 1
    then have "read_extended_length E c = (True, no_error, c)" "len_ext n = []" "len_code n = n"
      using lc assms(4) by (auto simp: read_extended_length_def len_code_def len_ext_def)
    then show ?thesis using assms by auto
  next
    case 2
    then have "n < 65536" by simp
    then obtain a b where ab: "be_bytes 2 n = [a, b]" "push_bit 8 (ucast a) OR ucast b = (of_nat n :: u64)"
      by (rule be_bytes_2)
    have i: "inbound (c_socket c) = [a, b] @ rest" using 2 ab(1) assms(1) by (auto simp: len_ext_def)
    obtain s where s: "read_exact E (c_ext_payload_buffer c) 2 c =
        (True, overwrite (c_ext_payload_buffer c) 0 [a, b], no_error, c\<lparr>c_socket := s\<rparr>)" "live s"
        "inbound s = rest" "outbound s = out"
      using read_exact_stream [OF _ _ i, of 2] fits_small [of 2] assms(1) by auto
    show ?thesis using 2 s ab(2) assms(2,4) lc
      by (simp add: read_extended_length_def len_code_def received_def here_def buffers_ok_def)
         (simp add: overwrite_def)
  next
    case 3
    have i: "inbound (c_socket c) = be_bytes 8 n @ rest" using 3 assms(1) by (auto simp: len_ext_def)
    obtain s where s: "read_exact E (c_ext_payload_buffer c) 8 c =
        (True, overwrite (c_ext_payload_buffer c) 0 (be_bytes 8 n), no_error, c\<lparr>c_socket := s\<rparr>)" "live s"
        "inbound s = rest" "outbound s = out"
      using read_exact_stream [OF _ _ i, of 8] fits_small [of 8] assms(1) by auto
    have "take 8 (overwrite (c_ext_payload_buffer c) 0 (be_bytes 8 n)) = be_bytes 8 n"
      using take_overwrite_0 [of "be_bytes 8 n"] by simp
    then show ?thesis using 3 s assms(2,3,4) lc
      by (simp add: read_extended_length_def len_code_def received_def here_def buffers_ok_def be_bytes_8)
  qed
qed

lemma read_masking_key_encoded:
  assumes "here c ((if m then k else []) @ rest) out" and "buffers_ok c" and "m \<Longrightarrow> length k = 4"
    and "c_current_header c = header_of fin rsv1 opc m n k0"
  shows "\<exists>c1. read_masking_key E no_error c = (True, no_error, c1) \<and> received c c1 \<and> here c1 rest out \<and>
    buffers_ok c1 \<and> c_payload_buffer c1 = c_payload_buffer c \<and>
    c_current_header c1 = header_of fin rsv1 opc m n (if m then k else k0)"
proof (cases m)
  case False
  then show ?thesis using assms by (auto simp: read_masking_key_def)
next
  case True
  then have i: "inbound (c_socket c) = k @ rest" and k: "length k = 4" using assms(1,3) by auto
  obtain s where s: "read_exact E (c_masking_key_buffer c) 4 c =
      (True, overwrite (c_masking_key_buffer c) 0 k, no_error, c\<lparr>c_socket := s\<rparr>)" "live s"
      "inbound s = rest" "outbound s = out"
    using read_exact_stream [OF _ _ i k] fits_small [of 4] assms(1) by auto
  have "take 4 (overwrite (c_masking_key_buffer c) 0 k) = k" using take_overwrite_0 [of k] k by simp
  then show ?thesis using True s k assms(2,4)
    by (simp add: read_masking_key_def received_def here_def buffers_ok_def)
qed

lemma read_payload_encoded:
  assumes "here c ((if m then mask_from k 0 payload else payload) @ rest) out" and "buffers_ok c"
    and "m \<Longrightarrow> length k = 4" and "c_current_header c = header_of fin rsv1 opc m (length payload) k"
    and "length payload < 2 ^ 63" and "e_alloc E (length payload)" and "fits (length payload)"
  shows "\<exists>c1. read_payload E c = Inr (no_error, handle_frame E c1) \<and> received c c1 \<and> here c1 rest out \<and>
    buffers_ok c1 \<and> c_current_header c1 = c_current_header c \<and>
    c_payload_buffer c1 = (if payload = [] then c_payload_buffer c else payload)"
proof (cases "payload = []")
  case True
  then have "here c rest out" using assms(1) by (cases m) simp_all
  with True show ?thesis using assms(2,4) by (intro exI [of _ c]) (simp add: read_payload_def)
next
  case False
  let ?wire = "if m then mask_from k 0 payload else payload"
  have u: "unat (of_nat (length payload) :: u64) = length payload"
    using assms(5) by (simp add: unat_of_nat)
  then have nz: "(of_nat (length payload) :: u64) \<noteq> 0" using False by (metis length_0_conv unat_0)
  obtain buf where buf: "vec_resize (e_alloc E) (length payload) (c_payload_buffer c) = Inr buf"
      "length buf = length payload"
    using vec_resize_ok [of "e_alloc E", OF assms(6,5)] by blast
  have w: "length ?wire = length payload" by simp
  have i: "inbound (c_socket c) = ?wire @ rest" using assms(1) by auto
  obtain s where s: "read_exact E buf (length payload) c = (True, ?wire, no_error, c\<lparr>c_socket := s\<rparr>)"
      "live s" "inbound s = rest" "outbound s = out"
    using read_exact_stream [OF _ _ i w assms(7), of buf] assms(1) False buf(2) by (auto simp: overwrite_all)
  have "apply_mask ?wire k = payload" if m using that assms(3) by (simp add: apply_mask_eq mask_from_involutive)
  then show ?thesis using False nz u buf s assms(2,4)
    by (auto simp: read_payload_def received_def here_def buffers_ok_def Let_def)
qed

text \<open>What \<open>read_one_frame\<close> makes of the result of \<open>read_payload\<close>.\<close>

definition frame_result :: "exn + error_code \<times> 's connection \<Rightarrow> exn + bool \<times> 's connection" where
  "frame_result r =
     (case r of
        Inl e \<Rightarrow> Inl e
      | Inr (ec, c) \<Rightarrow>
          if failed ec then Inr (False, (emit_error_ec E True ec c)\<lparr>c_is_open := False\<rparr>)
          else Inr (c_is_open c, c))"

text \<open>The header of a frame at the head of the stream is decoded and accepted.\<close>

lemma read_header_encoded:
  assumes "c_is_open c" and "buffers_ok c"
    and "here c ((first_octet fin rsv1 opc # length_field m n) @ (if m then k else []) @ rest) out"
    and "named opc" and "rsv1 \<Longrightarrow> c_permessage_deflate c \<and> (opc = TEXT \<or> opc = BINARY)"
    and "m \<longleftrightarrow> c_role c = role_server" and "m \<Longrightarrow> length k = 4" and "n < 2 ^ 64"
  shows "\<exists>c1. read_one_frame E c = frame_result (read_payload E c1) \<and>
    received c c1 \<and> here c1 rest out \<and> buffers_ok c1 \<and> c_payload_buffer c1 = c_payload_buffer c \<and>
    c_current_header c1 = header_of fin rsv1 opc m n (if m then k else fh_masking_key (c_current_header c))"
proof -
  let ?o1 = "first_octet fin rsv1 opc" and ?o2 = "(if m then 0x80 else 0) OR of_nat (len_code n) :: u8"
  let ?tl = "len_ext n @ (if m then k else []) @ rest"
  obtain s where s: "read_exact E (c_header_buffer c) 2 c =
      (True, [?o1, ?o2], no_error, c\<lparr>c_socket := s\<rparr>)" "live s" "inbound s = ?tl" "outbound s = out"
    using read_exact_stream [of c 2 "[?o1, ?o2]" ?tl "c_header_buffer c"] fits_small [of 2] assms(2,3)
    unfolding length_field_split here_def buffers_ok_def by (auto simp: overwrite_all)
  let ?k0 = "fh_masking_key (c_current_header c)"
  let ?ca = "c\<lparr>c_socket := s, c_header_buffer := [?o1, ?o2],
      c_current_header := header_of fin rsv1 opc m (len_code n) ?k0\<rparr>"
  have "here ?ca ?tl out" "buffers_ok ?ca" using s assms(2) by (auto simp: here_def buffers_ok_def)
  then obtain cb where cb: "read_extended_length E ?ca = (True, no_error, cb)" "received ?ca cb"
      "here cb ((if m then k else []) @ rest) out" "buffers_ok cb"
      "c_payload_buffer cb = c_payload_buffer c" "c_current_header cb = header_of fin rsv1 opc m n ?k0"
    using read_extended_length_encoded [of ?ca n _ out fin rsv1 opc m ?k0] assms(8) by auto
  obtain cc where cc: "read_masking_key E no_error cb = (True, no_error, cc)" "received cb cc"
      "here cc rest out" "buffers_ok cc" "c_payload_buffer cc = c_payload_buffer c"
      "c_current_header cc = header_of fin rsv1 opc m n (if m then k else ?k0)"
    using read_masking_key_encoded [OF cb(3,4) assms(7) cb(6)] cb(5) by auto
  have rec: "received c cc"
    using received_trans [OF cb(2) cc(2)] by (auto simp: received_def)
  have valid: "validate_frame_header E cc = (True, cc)"
    using validate_frame_header_ok [OF cc(6) assms(4)] assms(5,6) receivedD [OF rec] by simp
  have "parse_header E (c\<lparr>c_socket := s, c_header_buffer := [?o1, ?o2]\<rparr>) = read_payload E cc"
    using cb(1) cc(1) valid decode_first_octets_eq [OF assms(4) len_code_less]
    by (simp add: parse_header_def)
  then have "read_one_frame E c = frame_result (read_payload E cc)"
    using s(1) assms(1) by (simp add: read_one_frame_def frame_result_def)
  then show ?thesis using rec cc(3-6) by (intro exI [of _ cc]) simp
qed

text \<open>
  A frame of the RFC 6455 encoding at the head of the stream reaches \<open>handle_frame\<close> with its header
  decoded and its payload unmasked, and the stream stands behind it.  An empty payload leaves the
  payload buffer as the previous frame left it.
\<close>

lemma read_one_frame_encoded:
  assumes "c_is_open c" and "buffers_ok c"
    and "here c (encode_frame fin rsv1 opc key payload @ rest) out"
    and "named opc" and "rsv1 \<Longrightarrow> c_permessage_deflate c \<and> (opc = TEXT \<or> opc = BINARY)"
    and "key \<noteq> None \<longleftrightarrow> c_role c = role_server" and "\<And>k. key = Some k \<Longrightarrow> length k = 4"
    and "length payload < 2 ^ 63" and "e_alloc E (length payload)" and "fits (length payload)"
  shows "\<exists>c1. read_one_frame E c = Inr (c_is_open (handle_frame E c1), handle_frame E c1) \<and>
    received c c1 \<and> here c1 rest out \<and> buffers_ok c1 \<and>
    (\<exists>k. c_current_header c1 = header_of fin rsv1 opc (key \<noteq> None) (length payload) k) \<and>
    c_payload_buffer c1 = (if payload = [] then c_payload_buffer c else payload)"
proof -
  define m where "m = (key \<noteq> None)"
  define k where "k = (case key of Some k \<Rightarrow> k | None \<Rightarrow> [])"
  let ?n = "length payload" and ?k0 = "fh_masking_key (c_current_header c)"
  let ?wire = "if m then mask_from k 0 payload else payload"
  have k4: "m \<Longrightarrow> length k = 4" using assms(7) by (auto simp: m_def k_def)
  have split: "encode_frame fin rsv1 opc key payload =
      (first_octet fin rsv1 opc # length_field m ?n) @ (if m then k else []) @ ?wire"
    by (cases key) (simp_all add: encode_frame_def m_def k_def)
  have len: "?n < 2 ^ 64" using assms(8) by simp
  have h: "here c ((first_octet fin rsv1 opc # length_field m ?n) @ (if m then k else []) @ ?wire @ rest) out"
    using assms(3) unfolding split by (simp only: append_assoc)
  obtain cc where cc: "read_one_frame E c = frame_result (read_payload E cc)" "received c cc"
      "here cc (?wire @ rest) out" "buffers_ok cc" "c_payload_buffer cc = c_payload_buffer c"
      "c_current_header cc = header_of fin rsv1 opc m ?n (if m then k else ?k0)"
    using read_header_encoded [OF assms(1,2) h assms(4,5) assms(6) [folded m_def] k4 len] by blast
  have wire: "?wire = (if m then mask_from (if m then k else ?k0) 0 payload else payload)" by simp
  obtain c1 where c1: "read_payload E cc = Inr (no_error, handle_frame E c1)" "received cc c1" "here c1 rest out"
      "buffers_ok c1" "c_current_header c1 = c_current_header cc"
      "c_payload_buffer c1 = (if payload = [] then c_payload_buffer c else payload)"
    using read_payload_encoded [OF cc(3) [unfolded wire] cc(4) _ cc(6) assms(8-10)] k4 cc(5) by auto
  then have "read_one_frame E c = Inr (c_is_open (handle_frame E c1), handle_frame E c1)"
    using cc(1) by (simp add: frame_result_def)
  then show ?thesis using received_trans [OF cc(2) c1(2)] c1(3-6) cc(6) unfolding m_def [symmetric]
    by (intro exI [of _ c1]) auto
qed

end

end
