(* ===== verification/Linux_Socket.thy ===== *)
theory Linux_Socket
  imports Transport
begin

text \<open>
  The POSIX transport (\<open>src/net/linux_socket.cpp\<close>, \<open>include/wscpp/net/linux_socket.hpp\<close>,
  \<open>include/wscpp/net/stream_buffer.hpp\<close>).  The system calls and the OpenSSL functions it uses are the
  parameter \<open>os\<close>: a record of operations on the state \<open>'w\<close> of the world.  A result below zero with
  \<open>errno\<close> set is an \<open>_error\<close> value, a non-negative count its \<open>nat\<close>.
\<close>

section \<open>The operating system and OpenSSL\<close>

datatype io_result = Io_error int | Io_count nat
datatype recv_result = Recv_error int | Recv_data bytes

record 'w os =
  os_getaddrinfo :: "'w \<Rightarrow> string \<Rightarrow> string \<Rightarrow> int \<times> nat list \<times> 'w"
  os_socket :: "'w \<Rightarrow> nat \<Rightarrow> int \<times> int \<times> 'w"
  os_connect :: "'w \<Rightarrow> int \<Rightarrow> nat \<Rightarrow> int \<times> int \<times> 'w"
  os_shutdown :: "'w \<Rightarrow> int \<Rightarrow> 'w"
  os_close :: "'w \<Rightarrow> int \<Rightarrow> 'w"
  os_send :: "'w \<Rightarrow> int \<Rightarrow> bytes \<Rightarrow> io_result \<times> 'w"
  os_recv :: "'w \<Rightarrow> int \<Rightarrow> nat \<Rightarrow> recv_result \<times> 'w"
  os_errno :: "'w \<Rightarrow> int"
  ssl_new :: "'w \<Rightarrow> nat \<Rightarrow> nat option \<times> 'w"
  ssl_set_fd :: "'w \<Rightarrow> nat \<Rightarrow> int \<Rightarrow> int \<times> 'w"
  ssl_free :: "'w \<Rightarrow> nat \<Rightarrow> 'w"
  ssl_shutdown :: "'w \<Rightarrow> nat \<Rightarrow> int \<times> 'w"
  ssl_write :: "'w \<Rightarrow> nat \<Rightarrow> bytes \<Rightarrow> int \<Rightarrow> int \<times> 'w"
  ssl_read :: "'w \<Rightarrow> nat \<Rightarrow> int \<Rightarrow> (int + bytes) \<times> 'w"
  ssl_get_error :: "'w \<Rightarrow> nat \<Rightarrow> int \<Rightarrow> int"
  ssl_connect :: "'w \<Rightarrow> nat \<Rightarrow> int \<times> 'w"
  ssl_accept :: "'w \<Rightarrow> nat \<Rightarrow> int \<times> 'w"
  ssl_set_host_name :: "'w \<Rightarrow> nat \<Rightarrow> string \<Rightarrow> int \<times> 'w"

text \<open>\<open>static_cast<int>\<close> of a \<open>size_t\<close>.\<close>

definition to_int :: "nat \<Rightarrow> int" where
  "to_int n = sint (of_nat n :: 32 word)"

section \<open>Model\<close>

record linux_socket =
  ls_fd :: int
  ls_ssl_context :: ssl_ctx
  ls_ssl :: "nat option"
  ls_ssl_enabled :: bool

type_synonym 'w ls = "linux_socket \<times> 'w"

definition linux_socket_new :: linux_socket where
  "linux_socket_new = \<lparr>ls_fd = -1, ls_ssl_context = None, ls_ssl = None, ls_ssl_enabled = False\<rparr>"

definition close_fd :: "'w os \<Rightarrow> int \<Rightarrow> 'w \<Rightarrow> int \<times> 'w" where
  "close_fd os fd w = (if fd \<ge> 0 then (-1, os_close os (os_shutdown os w fd) fd) else (fd, w))"

text \<open>The loop over the resolved addresses.\<close>

fun connect_addrs :: "'w os \<Rightarrow> nat list \<Rightarrow> error_code \<Rightarrow> 'w \<Rightarrow> (error_code + int) \<times> 'w" where
  "connect_addrs os [] last_ec w = (Inl last_ec, w)"
| "connect_addrs os (rp # rps) last_ec w =
     (let (fd, e1, w1) = os_socket os w rp in
      if fd < 0 then connect_addrs os rps (system_error e1) w1
      else let (rc, e2, w2) = os_connect os w1 fd rp in
           if rc = 0 then (Inr fd, w2)
           else connect_addrs os rps (system_error e2) (snd (close_fd os fd w2)))"

definition connect_host :: "'w os \<Rightarrow> string \<Rightarrow> string \<Rightarrow> 'w \<Rightarrow> (error_code + int) \<times> 'w" where
  "connect_host os host port w =
     (let (rc, addrs, w1) = os_getaddrinfo os w host port in
      if rc \<noteq> 0 then (Inl (make_error_code host_not_found), w1)
      else connect_addrs os addrs (make_error_code host_not_found) w1)"

definition ls_is_open :: "'w ls \<Rightarrow> bool" where
  "ls_is_open s \<longleftrightarrow> ls_fd (fst s) \<ge> 0"

definition ls_close :: "'w os \<Rightarrow> 'w ls \<Rightarrow> 'w ls" where
  "ls_close os s =
     (let (k, w) = s;
          w1 = (case ls_ssl k of None \<Rightarrow> w | Some ssl \<Rightarrow> ssl_free os (snd (ssl_shutdown os w ssl)) ssl);
          (fd, w2) = close_fd os (ls_fd k) w1
      in (k\<lparr>ls_ssl := None, ls_ssl_enabled := False, ls_ssl_context := None, ls_fd := fd\<rparr>, w2))"

definition ls_connect :: "'w os \<Rightarrow> 'w ls \<Rightarrow> string \<Rightarrow> string \<Rightarrow> error_code \<times> 'w ls" where
  "ls_connect os s host port =
     (let (k, w) = (if ls_is_open s then ls_close os s else s) in
      case connect_host os host port w of
        (Inl ec, w1) \<Rightarrow> (ec, k, w1)
      | (Inr fd, w1) \<Rightarrow> (no_error, k\<lparr>ls_fd := fd\<rparr>, w1))"

text \<open>The port of an endpoint is passed in decimal.\<close>

definition ls_connect_ep :: "'w os \<Rightarrow> 'w ls \<Rightarrow> tcp_endpoint \<Rightarrow> error_code \<times> 'w ls" where
  "ls_connect_ep os s ep = ls_connect os s (ep_address ep) (nat_digits (unat (ep_port ep)))"

definition ls_adopt :: "'w os \<Rightarrow> 'w ls \<Rightarrow> int \<Rightarrow> error_code \<times> 'w ls" where
  "ls_adopt os s fd =
     (let (k, w) = (if ls_is_open s then ls_close os s else s) in
      if fd < 0 then (system_error (os_errno os w), k, w)
      else (no_error, k\<lparr>ls_fd := fd\<rparr>, w))"

definition ssl_error :: "'w os \<Rightarrow> 'w \<Rightarrow> nat \<Rightarrow> int \<Rightarrow> error_code" where
  "ssl_error os w ssl result =
     (let err = ssl_get_error os w ssl result in
      if err = 6 then connection_reset
      else if err = 2 \<or> err = 3 then make_error_code ssl_would_block
      else make_error_code ssl_io_error)"

text \<open>
  One \<open>SSL_write\<close> or \<open>send\<close>: the number of octets taken, or the error.  The count is stored in an
  \<open>int\<close>.
\<close>

definition write_once :: "'w os \<Rightarrow> linux_socket \<Rightarrow> 'w \<Rightarrow> bytes \<Rightarrow> (error_code + nat) \<times> 'w" where
  "write_once os k w data =
     (case ls_ssl k of
        Some ssl \<Rightarrow>
          let (n, w1) = ssl_write os w ssl data (to_int (length data)) in
          if n \<le> 0 then (Inl (ssl_error os w1 ssl n), w1) else (Inr (nat n), w1)
      | None \<Rightarrow>
          (case os_send os w (ls_fd k) data of
             (Io_error e, w1) \<Rightarrow> (Inl (system_error e), w1)
           | (Io_count c, w1) \<Rightarrow>
               let n = to_int c in
               if n < 0 then (Inl (system_error (os_errno os w1)), w1)
               else if n = 0 then (Inl broken_pipe, w1)
               else (Inr (nat n), w1)))"

lemma write_once_pos: "write_once os k w data = (Inr n, w1) \<Longrightarrow> 0 < n"
  by (auto simp: write_once_def Let_def split: option.splits prod.splits if_splits io_result.splits)

function write_loop :: "'w os \<Rightarrow> linux_socket \<Rightarrow> bytes \<Rightarrow> nat \<Rightarrow> 'w \<Rightarrow> nat \<times> error_code \<times> 'w" where
  "write_loop os k data tot w =
     (if tot < length data
      then case write_once os k w (drop tot data) of
             (Inl ec, w1) \<Rightarrow> (tot, ec, w1)
           | (Inr n, w1) \<Rightarrow> write_loop os k data (tot + n) w1
      else (tot, no_error, w))"
  by pat_completeness auto
termination
  by (relation "measure (\<lambda>(os, k, data, tot, w). length data - tot)") (auto dest: write_once_pos [OF sym])

definition ls_write :: "'w os \<Rightarrow> 'w ls \<Rightarrow> bytes \<Rightarrow> nat \<times> error_code \<times> 'w ls" where
  "ls_write os s data =
     (let (k, w) = s in
      if \<not> ls_is_open s then (0, make_error_code not_connected, s)
      else let (n, ec, w1) = write_loop os k data 0 w in (n, ec, k, w1))"

text \<open>
  One \<open>SSL_read\<close> or \<open>recv\<close>.  The parameter returns the octets it stored; their number is the return
  value of the call, again stored in an \<open>int\<close>.
\<close>

definition read_once :: "'w os \<Rightarrow> linux_socket \<Rightarrow> 'w \<Rightarrow> nat \<Rightarrow> (error_code + bytes) \<times> 'w" where
  "read_once os k w sz =
     (case ls_ssl k of
        Some ssl \<Rightarrow>
          (case ssl_read os w ssl (to_int sz) of
             (Inl n, w1) \<Rightarrow> (Inl (ssl_error os w1 ssl n), w1)
           | (Inr bs, w1) \<Rightarrow> if bs = [] then (Inl (ssl_error os w1 ssl 0), w1) else (Inr bs, w1))
      | None \<Rightarrow>
          (case os_recv os w (ls_fd k) sz of
             (Recv_error e, w1) \<Rightarrow> (Inl (system_error e), w1)
           | (Recv_data bs, w1) \<Rightarrow>
               let n = to_int (length bs) in
               if n < 0 then (Inl (system_error (os_errno os w1)), w1)
               else if n = 0 then (Inl connection_reset, w1)
               else (Inr (take (nat n) bs), w1)))"

lemma to_int_0 [simp]: "to_int 0 = 0"
  by (simp add: to_int_def)

lemma to_int_id: "n < 2 ^ 31 \<Longrightarrow> to_int n = int n"
  by (simp add: to_int_def signed_of_nat signed_take_bit_int_eq_self)

lemma read_once_pos: "read_once os k w sz = (Inr bs, w1) \<Longrightarrow> bs \<noteq> []"
  by (auto simp: read_once_def Let_def split: option.splits prod.splits if_splits recv_result.splits sum.splits)

text \<open>\<open>read_raw\<close>: \<open>got\<close> is what has been stored in the caller's buffer so far.\<close>

function read_raw :: "'w os \<Rightarrow> linux_socket \<Rightarrow> nat \<Rightarrow> bool \<Rightarrow> bytes \<Rightarrow> 'w \<Rightarrow> bytes \<times> error_code \<times> 'w" where
  "read_raw os k sz exact got w =
     (if length got < sz
      then case read_once os k w (sz - length got) of
             (Inl ec, w1) \<Rightarrow> (got, ec, w1)
           | (Inr bs, w1) \<Rightarrow>
               if \<not> exact then (got @ bs, no_error, w1) else read_raw os k sz exact (got @ bs) w1
      else (got, no_error, w))"
  by pat_completeness auto
termination
  by (relation "measure (\<lambda>(os, k, sz, exact, got, w). sz - length got)")
     (auto dest!: read_once_pos [OF sym] simp: neq_Nil_conv)

declare write_loop.simps [simp del] read_raw.simps [simp del]

definition ls_read :: "'w os \<Rightarrow> 'w ls \<Rightarrow> nat \<Rightarrow> bytes \<times> error_code \<times> 'w ls" where
  "ls_read os s sz =
     (let (k, w) = s in
      if \<not> ls_is_open s then ([], make_error_code not_connected, s)
      else let (bs, ec, w1) = read_raw os k sz True [] w in (bs, ec, k, w1))"

definition ls_read_some :: "'w os \<Rightarrow> 'w ls \<Rightarrow> nat \<Rightarrow> bytes \<times> error_code \<times> 'w ls" where
  "ls_read_some os s sz =
     (let (k, w) = s in
      if \<not> ls_is_open s then ([], make_error_code not_connected, s)
      else let (bs, ec, w1) = read_raw os k sz False [] w in (bs, ec, k, w1))"

text \<open>
  The loop of \<open>read_until\<close> reads one octet at a time until the buffer ends with the delimiter.
  Nothing bounds it: \<open>None\<close> is a peer that keeps sending without ever sending the delimiter.
\<close>

partial_function (option) until_loop ::
  "'w os \<Rightarrow> linux_socket \<Rightarrow> bytes \<Rightarrow> bytes \<Rightarrow> 'w \<Rightarrow> (bytes \<times> error_code \<times> 'w) option" where
  "until_loop os k delim buf w =
     (case read_raw os k 1 True [] w of
        (got, ec, w1) \<Rightarrow>
          if failed ec then Some (buf, ec, w1)
          else let buf1 = buf @ got in
               if length delim \<le> length buf1 \<and> drop (length buf1 - length delim) buf1 = delim
               then Some (buf1, ec, w1)
               else until_loop os k delim buf1 w1)"

definition ls_read_until :: "'w os \<Rightarrow> 'w ls \<Rightarrow> bytes \<Rightarrow> bytes \<Rightarrow> (bytes \<times> error_code \<times> 'w ls) option" where
  "ls_read_until os s buf delim =
     (let (k, w) = s in
      if \<not> ls_is_open s then Some (buf, make_error_code not_connected, s)
      else if delim = [] then Some (buf, no_error, s)
      else map_option (\<lambda>(buf1, ec, w1). (buf1, ec, k, w1)) (until_loop os k delim buf w))"

definition ls_enable_ssl :: "'w os \<Rightarrow> 'w ls \<Rightarrow> ssl_ctx \<Rightarrow> error_code \<times> 'w ls" where
  "ls_enable_ssl os s ctx =
     (let (k, w) = s in
      case ctx of
        None \<Rightarrow> (no_error, s)
      | Some c \<Rightarrow>
          if \<not> ls_is_open s then (make_error_code not_connected, s)
          else let k1 = k\<lparr>ls_ssl_context := ctx\<rparr>; (ssl, w1) = ssl_new os w c in
               case ssl of
                 None \<Rightarrow> (make_error_code ssl_init_failed, k1\<lparr>ls_ssl := None\<rparr>, w1)
               | Some h \<Rightarrow>
                   let (rc, w2) = ssl_set_fd os w1 h (ls_fd k) in
                   if rc \<noteq> 1 then (make_error_code ssl_init_failed, k1\<lparr>ls_ssl := None\<rparr>, ssl_free os w2 h)
                   else (no_error, k1\<lparr>ls_ssl := Some h, ls_ssl_enabled := True\<rparr>, w2))"

definition ls_set_ssl_hostname :: "'w os \<Rightarrow> 'w ls \<Rightarrow> string \<Rightarrow> error_code \<times> 'w ls" where
  "ls_set_ssl_hostname os s host =
     (let (k, w) = s in
      case ls_ssl k of
        None \<Rightarrow> (make_error_code ssl_not_enabled, s)
      | Some h \<Rightarrow>
          let (rc, w1) = ssl_set_host_name os w h host in
          (if rc \<noteq> 1 then make_error_code ssl_io_error else no_error, k, w1))"

definition ls_ssl_handshake :: "'w os \<Rightarrow> 'w ls \<Rightarrow> bool \<Rightarrow> error_code \<times> 'w ls" where
  "ls_ssl_handshake os s as_client =
     (let (k, w) = s in
      case ls_ssl k of
        None \<Rightarrow> (make_error_code ssl_not_enabled, s)
      | Some h \<Rightarrow>
          let (rc, w1) = (if as_client then ssl_connect os w h else ssl_accept os w h) in
          (if rc \<noteq> 1 then ssl_error os w1 h rc else no_error, k, w1))"

definition ls_is_ssl :: "'w ls \<Rightarrow> bool" where
  "ls_is_ssl s = ls_ssl_enabled (fst s)"

text \<open>The destructor closes; \<open>native_fd\<close> is \<open>-1\<close> exactly on a closed socket.\<close>

definition ls_destroy :: "'w os \<Rightarrow> 'w ls \<Rightarrow> 'w ls" where
  "ls_destroy os s = ls_close os s"

definition native_fd :: "'w ls \<Rightarrow> int" where
  "native_fd s = ls_fd (fst s)"

lemma destroyed_socket: "native_fd (ls_destroy os s) < 0 \<and> \<not> ls_is_open (ls_destroy os s) \<and> ls_ssl (fst (ls_destroy os s)) = None"
  by (cases s) (auto simp: native_fd_def ls_destroy_def ls_close_def ls_is_open_def close_fd_def Let_def
      split: option.splits prod.splits)

definition linux_transport :: "'w os \<Rightarrow> 'w ls transport" where
  "linux_transport os =
     \<lparr>tr_connect = ls_connect os, tr_connect_ep = ls_connect_ep os, tr_adopt = ls_adopt os,
      tr_close = ls_close os, tr_write = ls_write os, tr_read = ls_read os,
      tr_read_some = ls_read_some os, tr_read_until = ls_read_until os, tr_is_open = ls_is_open,
      tr_enable_ssl = ls_enable_ssl os, tr_set_ssl_hostname = ls_set_ssl_hostname os,
      tr_ssl_handshake = ls_ssl_handshake os, tr_is_ssl = ls_is_ssl\<rparr>"

lemma suffix_iff_drop:
  "suffix xs ys \<longleftrightarrow> length xs \<le> length ys \<and> drop (length ys - length xs) ys = xs"
proof
  assume "suffix xs ys"
  then show "length xs \<le> length ys \<and> drop (length ys - length xs) ys = xs"
    by (auto simp: suffix_def)
next
  assume r: "length xs \<le> length ys \<and> drop (length ys - length xs) ys = xs"
  then have "ys = take (length ys - length xs) ys @ xs" by (metis append_take_drop_id)
  then show "suffix xs ys" by (rule suffixI)
qed

section \<open>The loops over one call\<close>

text \<open>
  What \<open>write\<close>, \<open>read\<close> and \<open>read_until\<close> need of the calls they repeat: as long as the socket is up, one
  call transfers a non-empty prefix.  \<open>small\<close> says which sizes a call may be asked for; the two kinds of
  socket, plain and TLS, differ in it.
\<close>

locale socket_io =
  fixes os :: "'w os"
    and up :: "linux_socket \<Rightarrow> 'w \<Rightarrow> bool"
    and inb :: "linux_socket \<Rightarrow> 'w \<Rightarrow> bytes"
    and outb :: "linux_socket \<Rightarrow> 'w \<Rightarrow> bytes"
    and small :: "nat \<Rightarrow> bool"
  assumes once_write: "up k w \<Longrightarrow> data \<noteq> [] \<Longrightarrow> small (length data) \<Longrightarrow>
      \<exists>n w1. write_once os k w data = (Inr n, w1) \<and> 0 < n \<and> n \<le> length data \<and> up k w1 \<and>
        outb k w1 = outb k w @ take n data \<and> inb k w1 = inb k w"
    and once_write_any: "up k w \<Longrightarrow> data \<noteq> [] \<Longrightarrow>
      \<exists>r w1. write_once os k w data = (r, w1) \<and> up k w1 \<and> prefix (outb k w) (outb k w1) \<and> inb k w1 = inb k w"
    and once_read: "up k w \<Longrightarrow> inb k w \<noteq> [] \<Longrightarrow> 0 < sz \<Longrightarrow> small sz \<Longrightarrow>
      \<exists>bs w1. read_once os k w sz = (Inr bs, w1) \<and> bs \<noteq> [] \<and> length bs \<le> sz \<and> up k w1 \<and>
        inb k w = bs @ inb k w1 \<and> outb k w1 = outb k w"
    and once_eof: "up k w \<Longrightarrow> inb k w = [] \<Longrightarrow> 0 < sz \<Longrightarrow> small sz \<Longrightarrow>
      \<exists>w1. read_once os k w sz = (Inl connection_reset, w1)"
    and once_read_any: "up k w \<Longrightarrow> 0 < sz \<Longrightarrow> read_once os k w sz = (r, w1) \<Longrightarrow>
      (case r of
         Inl ec \<Rightarrow> failed ec
       | Inr bs \<Rightarrow> length bs \<le> sz \<and> up k w1 \<and> inb k w = bs @ inb k w1 \<and> outb k w1 = outb k w)"
    and small_le: "small n \<Longrightarrow> m \<le> n \<Longrightarrow> small m"
    and small_1: "small 1"
begin

lemma write_loop_all:
  assumes "up k w" and "tot \<le> length data" and "small (length data)"
  shows "\<exists>w'. write_loop os k data tot w = (length data, no_error, w') \<and> up k w' \<and>
    outb k w' = outb k w @ drop tot data \<and> inb k w' = inb k w"
  using assms(1,2)
proof (induction "length data - tot" arbitrary: tot w rule: less_induct)
  case less
  show ?case
  proof (cases "tot < length data")
    case False
    then show ?thesis using less.prems by (auto simp: write_loop.simps [of os k data "length data" w])
  next
    case True
    then obtain n w1 where n: "write_once os k w (drop tot data) = (Inr n, w1)" "0 < n" "n \<le> length data - tot"
        "up k w1" "outb k w1 = outb k w @ take n (drop tot data)" "inb k w1 = inb k w"
      using once_write [OF less.prems(1), of "drop tot data"] small_le [OF assms(3)] by auto
    have m: "length data - (tot + n) < length data - tot" and le: "tot + n \<le> length data"
      using True n(2,3) by auto
    from less.hyps [OF m n(4) le] obtain w2 where
        w2: "write_loop os k data (tot + n) w1 = (length data, no_error, w2)" "up k w2"
        "outb k w2 = outb k w1 @ drop (tot + n) data" "inb k w2 = inb k w1" by blast
    have "take n (drop tot data) @ drop (tot + n) data = drop tot data"
      by (metis append_take_drop_id drop_drop add.commute)
    then show ?thesis using True n(1,5,6) w2 by (simp add: write_loop.simps [of os k data tot w])
  qed
qed

lemma write_loop_any:
  assumes "up k w"
  shows "\<exists>n ec w'. write_loop os k data tot w = (n, ec, w') \<and> up k w' \<and>
    prefix (outb k w) (outb k w') \<and> inb k w' = inb k w"
  using assms
proof (induction "length data - tot" arbitrary: tot w rule: less_induct)
  case less
  show ?case
  proof (cases "tot < length data")
    case False
    then show ?thesis using less.prems by (simp add: write_loop.simps [of os k data tot w])
  next
    case True
    then obtain r w1 where r: "write_once os k w (drop tot data) = (r, w1)" "up k w1"
        "prefix (outb k w) (outb k w1)" "inb k w1 = inb k w"
      using once_write_any [OF less.prems, of "drop tot data"] by auto
    show ?thesis
    proof (cases r)
      case (Inl ec)
      then show ?thesis using True r by (simp add: write_loop.simps [of os k data tot w])
    next
      case (Inr n)
      then have "0 < n" using write_once_pos r(1) by fastforce
      then have "length data - (tot + n) < length data - tot" using True by simp
      from less.hyps [OF this r(2)] obtain n2 ec w2 where w2: "write_loop os k data (tot + n) w1 = (n2, ec, w2)" "up k w2"
          "prefix (outb k w1) (outb k w2)" "inb k w2 = inb k w1" by blast
      have "write_loop os k data tot w = (n2, ec, w2)"
        using True r(1) Inr w2(1) by (simp add: write_loop.simps [of os k data tot w])
      then show ?thesis using w2(2,4) r(4) prefix_order.order_trans [OF r(3) w2(3)] by simp
    qed
  qed
qed

lemma read_raw_all:
  assumes "up k w" and "length got \<le> sz" and "sz - length got \<le> length (inb k w)" and "small sz"
  shows "\<exists>w'. read_raw os k sz True got w = (got @ take (sz - length got) (inb k w), no_error, w') \<and>
    up k w' \<and> outb k w' = outb k w \<and> inb k w' = drop (sz - length got) (inb k w)"
  using assms(1-3)
proof (induction "sz - length got" arbitrary: got w rule: less_induct)
  case less
  show ?case
  proof (cases "length got < sz")
    case False
    then show ?thesis using less.prems by (auto simp: read_raw.simps [of os k sz True got w])
  next
    case True
    with less.prems(3) have "inb k w \<noteq> []" by auto
    then obtain bs w1 where bs: "read_once os k w (sz - length got) = (Inr bs, w1)" "bs \<noteq> []"
        "length bs \<le> sz - length got" "up k w1" "inb k w = bs @ inb k w1" "outb k w1 = outb k w"
      using once_read [OF less.prems(1), of "sz - length got"] True small_le [OF assms(4)] by auto
    have m: "sz - length (got @ bs) < sz - length got" and le: "length (got @ bs) \<le> sz"
      and rest: "sz - length (got @ bs) \<le> length (inb k w1)"
      using True bs(2,3,5) less.prems(3) by (auto simp: neq_Nil_conv)
    from less.hyps [OF m bs(4) le rest] obtain w2 where
        w2: "read_raw os k sz True (got @ bs) w1 =
               ((got @ bs) @ take (sz - length (got @ bs)) (inb k w1), no_error, w2)"
        "up k w2" "outb k w2 = outb k w1" "inb k w2 = drop (sz - length (got @ bs)) (inb k w1)" by blast
    then show ?thesis using True bs(1,3,5,6)
      by (simp add: read_raw.simps [of os k sz True got w] take_append drop_append)
  qed
qed

lemma read_raw_any:
  assumes "up k w" and "length got \<le> sz" and "read_raw os k sz True got w = (res, ec, w')"
  shows "length res \<le> sz \<and> (failed ec \<or> ec = no_error \<and> length res = sz \<and> up k w' \<and>
    got @ inb k w = res @ inb k w' \<and> outb k w' = outb k w)"
  using assms
proof (induction "sz - length got" arbitrary: got w rule: less_induct)
  case less
  show ?case
  proof (cases "length got < sz")
    case False
    then show ?thesis using less.prems by (auto simp: read_raw.simps [of os k sz True got w])
  next
    case True
    obtain r w1 where r: "read_once os k w (sz - length got) = (r, w1)" by fastforce
    note any = once_read_any [OF less.prems(1) _ r]
    show ?thesis
    proof (cases r)
      case (Inl ec1)
      then show ?thesis using any True r less.prems(2,3) by (simp add: read_raw.simps [of os k sz True got w])
    next
      case (Inr bs)
      then have bs: "length bs \<le> sz - length got" "up k w1" "inb k w = bs @ inb k w1" "outb k w1 = outb k w"
        using any True by simp_all
      have "bs \<noteq> []" using read_once_pos r Inr by fastforce
      then have m: "sz - length (got @ bs) < sz - length got" and le: "length (got @ bs) \<le> sz"
        using True bs(1) by (auto simp: neq_Nil_conv)
      have "read_raw os k sz True (got @ bs) w1 = (res, ec, w')"
        using less.prems(3) True r Inr by (simp add: read_raw.simps [of os k sz True got w])
      from less.hyps [OF m bs(2) le this] show ?thesis using bs(3,4) by simp
    qed
  qed
qed

lemma read_raw_eof:
  assumes "up k w" and "length got + length (inb k w) < sz" and "small sz"
  shows "\<exists>w'. read_raw os k sz True got w = (got @ inb k w, connection_reset, w')"
  using assms(1,2)
proof (induction "sz - length got" arbitrary: got w rule: less_induct)
  case less
  have lt: "length got < sz" using less.prems(2) by simp
  have sm: "small (sz - length got)" using small_le [OF assms(3)] by simp
  show ?case
  proof (cases "inb k w = []")
    case True
    then obtain w1 where "read_once os k w (sz - length got) = (Inl connection_reset, w1)"
      using once_eof [OF less.prems(1) _ _ sm] lt by auto
    then show ?thesis using True lt by (simp add: read_raw.simps [of os k sz True got w])
  next
    case False
    then obtain bs w1 where bs: "read_once os k w (sz - length got) = (Inr bs, w1)"
        "bs \<noteq> []" "up k w1" "inb k w = bs @ inb k w1"
      using once_read [OF less.prems(1) _ _ sm] lt by auto
    have m: "sz - length (got @ bs) < sz - length got" and rest: "length (got @ bs) + length (inb k w1) < sz"
      using lt bs(2,4) less.prems(2) by (auto simp: neq_Nil_conv)
    from less.hyps [OF m bs(3) rest] show ?thesis using lt bs(1,4)
      by (simp add: read_raw.simps [of os k sz True got w])
  qed
qed

text \<open>One octet at a time: the loop of \<open>read_until\<close> stops at the first match.\<close>

lemma read_octet:
  assumes "up k w" and "inb k w \<noteq> []"
  shows "\<exists>w'. read_raw os k 1 True [] w = (take 1 (inb k w), no_error, w') \<and> up k w' \<and>
    outb k w' = outb k w \<and> inb k w' = drop 1 (inb k w)"
  using read_raw_all [OF assms(1), of "[]" 1] assms(2) small_1 by (cases "inb k w") auto

lemma until_loop_found:
  assumes "up k w" and "n < length (inb k w)" and "suffix delim (buf @ take (Suc n) (inb k w))"
    and "\<forall>j. 0 < j \<longrightarrow> j \<le> n \<longrightarrow> \<not> suffix delim (buf @ take j (inb k w))"
  shows "\<exists>w'. until_loop os k delim buf w = Some (buf @ take (Suc n) (inb k w), no_error, w') \<and>
    up k w' \<and> inb k w' = drop (Suc n) (inb k w) \<and> outb k w' = outb k w"
  using assms
proof (induction n arbitrary: w buf)
  case 0
  then have "inb k w \<noteq> []" by auto
  then show ?case using read_octet [OF 0(1)] 0(3)
    by (auto simp: until_loop.simps [of os k delim buf w] suffix_iff_drop)
next
  case (Suc n)
  have "inb k w \<noteq> []" using Suc.prems(2) by auto
  then obtain w1 where w1: "read_raw os k 1 True [] w = (take 1 (inb k w), no_error, w1)"
      "up k w1" "outb k w1 = outb k w" "inb k w1 = drop 1 (inb k w)"
    using read_octet [OF Suc.prems(1)] by blast
  let ?buf1 = "buf @ take 1 (inb k w)"
  have shift: "?buf1 @ take j (inb k w1) = buf @ take (Suc j) (inb k w)" for j
    using w1(4) by (metis append.assoc take_add plus_1_eq_Suc)
  have no: "\<not> suffix delim ?buf1" using Suc.prems(4) by force
  have len: "n < length (inb k w1)" using w1(4) Suc.prems(2) by simp
  have suf: "suffix delim (?buf1 @ take (Suc n) (inb k w1))"
    unfolding shift by (rule Suc.prems(3))
  have none: "\<forall>j. 0 < j \<longrightarrow> j \<le> n \<longrightarrow> \<not> suffix delim (?buf1 @ take j (inb k w1))"
    unfolding shift using Suc.prems(4) by simp
  from Suc.IH [OF w1(2) len suf none] obtain w2 where
      w2: "until_loop os k delim ?buf1 w1 = Some (buf @ take (Suc (Suc n)) (inb k w), no_error, w2)"
      "up k w2" "inb k w2 = drop (Suc n) (inb k w1)" "outb k w2 = outb k w1" unfolding shift by blast
  have "until_loop os k delim buf w = until_loop os k delim ?buf1 w1"
    using w1(1) no by (auto simp: until_loop.simps [of os k delim buf w] suffix_iff_drop Let_def)
  then show ?case using w2 w1(3,4) by simp
qed

text \<open>The operations of the class.\<close>

lemma sock_write:
  assumes "ls_is_open s" and "up (fst s) (snd s)" and "small (length data)"
  shows "\<exists>w. ls_write os s data = (length data, no_error, fst s, w) \<and> up (fst s) w \<and>
    outb (fst s) w = outb (fst s) (snd s) @ data \<and> inb (fst s) w = inb (fst s) (snd s)"
  using write_loop_all [OF assms(2), of 0 data] assms(1,3) by (auto simp: ls_write_def case_prod_unfold Let_def)

lemma sock_write_any:
  assumes "ls_is_open s" and "up (fst s) (snd s)"
  shows "\<exists>n ec w. ls_write os s data = (n, ec, fst s, w) \<and> up (fst s) w \<and>
    prefix (outb (fst s) (snd s)) (outb (fst s) w) \<and> inb (fst s) w = inb (fst s) (snd s)"
  using write_loop_any [OF assms(2), of data 0] assms(1) by (auto simp: ls_write_def case_prod_unfold Let_def)

lemma sock_read:
  assumes "ls_is_open s" and "up (fst s) (snd s)" and "n \<le> length (inb (fst s) (snd s))" and "small n"
  shows "\<exists>w. ls_read os s n = (take n (inb (fst s) (snd s)), no_error, fst s, w) \<and> up (fst s) w \<and>
    inb (fst s) w = drop n (inb (fst s) (snd s)) \<and> outb (fst s) w = outb (fst s) (snd s)"
  using read_raw_all [OF assms(2), of "[]" n] assms(1,3,4) by (auto simp: ls_read_def case_prod_unfold Let_def)

lemma sock_read_any:
  assumes "ls_is_open s" and "up (fst s) (snd s)" and "ls_read os s n = (got, ec, s')"
  shows "length got \<le> n \<and> (failed ec \<or> ec = no_error \<and> length got = n \<and> fst s' = fst s \<and> up (fst s) (snd s') \<and>
    inb (fst s) (snd s) = got @ inb (fst s) (snd s') \<and> outb (fst s) (snd s') = outb (fst s) (snd s))"
proof -
  obtain res ec' w' where r: "read_raw os (fst s) n True [] (snd s) = (res, ec', w')"
    by (cases "read_raw os (fst s) n True [] (snd s)")
  then have "got = res" "ec = ec'" "s' = (fst s, w')"
    using assms(1,3) by (simp_all add: ls_read_def case_prod_unfold)
  then show ?thesis using read_raw_any [OF assms(2) _ r] by simp
qed

lemma sock_read_short:
  assumes "ls_is_open s" and "up (fst s) (snd s)" and "length (inb (fst s) (snd s)) < n" and "small n"
  shows "\<exists>s'. ls_read os s n = (inb (fst s) (snd s), connection_reset, s')"
  using read_raw_eof [OF assms(2), of "[]" n] assms(1,3,4) by (auto simp: ls_read_def case_prod_unfold Let_def)

lemma sock_read_until:
  assumes "ls_is_open s" and "up (fst s) (snd s)" and "delim \<noteq> []" and "0 < n" and "n \<le> length (inb (fst s) (snd s))"
    and "suffix delim (buf @ take n (inb (fst s) (snd s)))"
    and "\<forall>j. 0 < j \<longrightarrow> j < n \<longrightarrow> \<not> suffix delim (buf @ take j (inb (fst s) (snd s)))"
  shows "\<exists>w. ls_read_until os s buf delim = Some (buf @ take n (inb (fst s) (snd s)), no_error, fst s, w) \<and>
    up (fst s) w \<and> inb (fst s) w = drop n (inb (fst s) (snd s)) \<and> outb (fst s) w = outb (fst s) (snd s)"
proof -
  obtain m where m: "n = Suc m" using assms(4) by (cases n) auto
  have less_m: "(j < Suc m) = (j \<le> m)" for j by auto
  show ?thesis
    using until_loop_found [OF assms(2), of m delim buf] assms(1,3,5-7)
    by (auto simp: m less_m ls_read_until_def case_prod_unfold Let_def)
qed

end

section \<open>The contract of the system calls\<close>

text \<open>A plain connected socket and its two streams, over the connections of the world.\<close>

definition ls_live :: "('w \<Rightarrow> int \<Rightarrow> bool) \<Rightarrow> 'w ls \<Rightarrow> bool" where
  "ls_live connected s \<longleftrightarrow> ls_is_open s \<and> ls_ssl (fst s) = None \<and> connected (snd s) (ls_fd (fst s))"

definition ls_stream :: "('w \<Rightarrow> int \<Rightarrow> bytes) \<Rightarrow> 'w ls \<Rightarrow> bytes" where
  "ls_stream box s = box (snd s) (ls_fd (fst s))"

text \<open>
  What POSIX promises of \<open>send\<close> and \<open>recv\<close> on a connected blocking stream socket: \<open>send\<close> takes a
  non-empty prefix of the data, \<open>recv\<close> returns a non-empty prefix of what the peer has sent, at most
  as much as asked for, and nothing exactly when the peer has closed its side.  Linux transfers fewer
  than \<open>2 ^ 31\<close> octets in one call.
\<close>

locale posix_stream =
  fixes os :: "'w os"
    and connected :: "'w \<Rightarrow> int \<Rightarrow> bool"
    and inbox :: "'w \<Rightarrow> int \<Rightarrow> bytes"
    and outbox :: "'w \<Rightarrow> int \<Rightarrow> bytes"
  assumes send_some: "connected w fd \<Longrightarrow> data \<noteq> [] \<Longrightarrow>
      \<exists>n w'. os_send os w fd data = (Io_count n, w') \<and> 0 < n \<and> n \<le> length data \<and> n < 2 ^ 31 \<and>
        connected w' fd \<and> outbox w' fd = outbox w fd @ take n data \<and> inbox w' fd = inbox w fd"
    and recv_some: "connected w fd \<Longrightarrow> inbox w fd \<noteq> [] \<Longrightarrow> 0 < sz \<Longrightarrow>
      \<exists>bs w'. os_recv os w fd sz = (Recv_data bs, w') \<and> bs \<noteq> [] \<and> length bs \<le> sz \<and> length bs < 2 ^ 31 \<and>
        connected w' fd \<and> inbox w fd = bs @ inbox w' fd \<and> outbox w' fd = outbox w fd"
    and recv_eof: "connected w fd \<Longrightarrow> inbox w fd = [] \<Longrightarrow> 0 < sz \<Longrightarrow>
      \<exists>w'. os_recv os w fd sz = (Recv_data [], w')"

sublocale posix_stream \<subseteq> io: socket_io os "\<lambda>k w. ls_ssl k = None \<and> connected w (ls_fd k)"
  "\<lambda>k w. inbox w (ls_fd k)" "\<lambda>k w. outbox w (ls_fd k)" "\<lambda>_. True"
proof (unfold_locales, goal_cases)
  case (1 k w data)
  then show ?case using send_some [of w "ls_fd k" data] by (auto simp: write_once_def to_int_id Let_def)
next
  case (2 k w data)
  then show ?case using send_some [of w "ls_fd k" data] by (auto simp: write_once_def to_int_id Let_def)
next
  case (3 k w sz)
  then show ?case using recv_some [of w "ls_fd k" sz] by (auto simp: read_once_def to_int_id Let_def)
next
  case (4 k w sz)
  then show ?case using recv_eof [of w "ls_fd k" sz] by (auto simp: read_once_def Let_def)
next
  case (5 k w sz r w1)
  then show ?case using recv_eof [of w "ls_fd k" sz] recv_some [of w "ls_fd k" sz]
    by (cases "inbox w (ls_fd k) = []") (auto simp: read_once_def to_int_id Let_def)
qed auto

context posix_stream
begin

lemma ls_write_all:
  assumes "ls_live connected s"
  shows "\<exists>s'. ls_write os s data = (length data, no_error, s') \<and> ls_live connected s' \<and>
    ls_stream outbox s' = ls_stream outbox s @ data \<and> ls_stream inbox s' = ls_stream inbox s"
  using io.sock_write [of s data] assms by (auto simp: ls_stream_def ls_live_def ls_is_open_def)

lemma ls_read_all:
  assumes "ls_live connected s" and "n \<le> length (ls_stream inbox s)"
  shows "\<exists>s'. ls_read os s n = (take n (ls_stream inbox s), no_error, s') \<and> ls_live connected s' \<and>
    ls_stream inbox s' = drop n (ls_stream inbox s) \<and> ls_stream outbox s' = ls_stream outbox s"
  using io.sock_read [of s n] assms by (auto simp: ls_stream_def ls_live_def ls_is_open_def)

lemma ls_read_short:
  assumes "ls_live connected s" and "length (ls_stream inbox s) < n"
  shows "\<exists>s'. ls_read os s n = (ls_stream inbox s, connection_reset, s')"
  using io.sock_read_short [of s n] assms by (auto simp: ls_stream_def ls_live_def)

lemma ls_read_until_found:
  assumes "ls_live connected s" and "delim \<noteq> []" and "0 < n" and "n \<le> length (ls_stream inbox s)"
    and "suffix delim (buf @ take n (ls_stream inbox s))"
    and "\<forall>j. 0 < j \<longrightarrow> j < n \<longrightarrow> \<not> suffix delim (buf @ take j (ls_stream inbox s))"
  shows "\<exists>s'. ls_read_until os s buf delim = Some (buf @ take n (ls_stream inbox s), no_error, s') \<and>
    ls_live connected s' \<and> ls_stream inbox s' = drop n (ls_stream inbox s) \<and>
    ls_stream outbox s' = ls_stream outbox s"
  using io.sock_read_until [of s delim n buf] assms by (auto simp: ls_stream_def ls_live_def ls_is_open_def)

end

sublocale posix_stream \<subseteq> linux: exact_stream "linux_transport os" "ls_live connected"
  "ls_stream inbox" "ls_stream outbox" "\<lambda>_. True"
proof (unfold_locales, goal_cases)
  case (1 s n)
  then show ?case using ls_read_all [of s n] by (simp add: linux_transport_def)
next
  case (2 s n got ec s')
  then show ?case using io.sock_read_any [of s n got ec s']
    by (auto simp: linux_transport_def ls_stream_def ls_live_def ls_is_open_def)
next
  case (3 s data)
  then show ?case using ls_write_all [of s data] by (auto simp: linux_transport_def)
next
  case (6 s data)
  then show ?case using ls_write_all [of s data] by (simp add: linux_transport_def)
next
  case (7 s delim k buf)
  then show ?case using ls_read_until_found [of s delim k buf] by (simp add: linux_transport_def)
qed auto

section \<open>An operating system in memory\<close>

text \<open>
  A world with one connected descriptor, on which every call transfers at most \<open>mw_chunk + 1\<close> octets.
  It satisfies the contract, so the laws of the transport apply to a concrete system.
\<close>

record mem_world =
  mw_in :: bytes
  mw_out :: bytes
  mw_chunk :: nat

definition mem_send :: "mem_world \<Rightarrow> int \<Rightarrow> bytes \<Rightarrow> io_result \<times> mem_world" where
  "mem_send w fd data =
     (if fd \<noteq> 3 then (Io_error 9, w)
      else let d = take (Suc (mw_chunk w)) data in (Io_count (length d), w\<lparr>mw_out := mw_out w @ d\<rparr>))"

definition mem_recv :: "mem_world \<Rightarrow> int \<Rightarrow> nat \<Rightarrow> recv_result \<times> mem_world" where
  "mem_recv w fd sz =
     (if fd \<noteq> 3 then (Recv_error 9, w)
      else let m = min sz (Suc (mw_chunk w)) in (Recv_data (take m (mw_in w)), w\<lparr>mw_in := drop m (mw_in w)\<rparr>))"

definition mem_os :: "mem_world os" where
  "mem_os =
     \<lparr>os_getaddrinfo = (\<lambda>w host port. (0, [0], w)), os_socket = (\<lambda>w rp. (3, 0, w)),
      os_connect = (\<lambda>w fd rp. (0, 0, w)), os_shutdown = (\<lambda>w fd. w), os_close = (\<lambda>w fd. w),
      os_send = mem_send, os_recv = mem_recv, os_errno = (\<lambda>w. 0),
      ssl_new = (\<lambda>w c. (None, w)), ssl_set_fd = (\<lambda>w h fd. (0, w)), ssl_free = (\<lambda>w h. w),
      ssl_shutdown = (\<lambda>w h. (0, w)), ssl_write = (\<lambda>w h bs n. (-1, w)), ssl_read = (\<lambda>w h n. (Inl (-1), w)),
      ssl_get_error = (\<lambda>w h n. 1), ssl_connect = (\<lambda>w h. (-1, w)), ssl_accept = (\<lambda>w h. (-1, w)),
      ssl_set_host_name = (\<lambda>w h host. (0, w))\<rparr>"

definition mem_connected :: "mem_world \<Rightarrow> int \<Rightarrow> bool" where
  "mem_connected w fd \<longleftrightarrow> fd = 3 \<and> mw_chunk w < 2 ^ 31 - 1"

definition mem_in :: "mem_world \<Rightarrow> int \<Rightarrow> bytes" where
  "mem_in w fd = mw_in w"

definition mem_out :: "mem_world \<Rightarrow> int \<Rightarrow> bytes" where
  "mem_out w fd = mw_out w"

lemmas mem_defs = mem_os_def mem_send_def mem_recv_def mem_connected_def mem_in_def mem_out_def

interpretation mem: posix_stream mem_os mem_connected mem_in mem_out
proof
  fix w fd and data :: bytes
  assume c: "mem_connected w fd" and "data \<noteq> []"
  then have "length (take (Suc (mw_chunk w)) data) < 2 ^ 31" "0 < length (take (Suc (mw_chunk w)) data)"
    by (auto simp: mem_connected_def)
  moreover have "take (length (take (Suc (mw_chunk w)) data)) data = take (Suc (mw_chunk w)) data"
    by (simp add: min_def)
  ultimately show "\<exists>n w'. os_send mem_os w fd data = (Io_count n, w') \<and> 0 < n \<and> n \<le> length data \<and>
      n < 2 ^ 31 \<and> mem_connected w' fd \<and> mem_out w' fd = mem_out w fd @ take n data \<and> mem_in w' fd = mem_in w fd"
    using c unfolding mem_defs by (auto simp: Let_def)
next
  fix w fd and sz :: nat
  assume c: "mem_connected w fd" and i: "mem_in w fd \<noteq> []" and "0 < sz"
  then have "take (min sz (Suc (mw_chunk w))) (mw_in w) \<noteq> []"
      "length (take (min sz (Suc (mw_chunk w))) (mw_in w)) < 2 ^ 31"
    by (auto simp: mem_defs)
  then show "\<exists>bs w'. os_recv mem_os w fd sz = (Recv_data bs, w') \<and> bs \<noteq> [] \<and> length bs \<le> sz \<and>
      length bs < 2 ^ 31 \<and> mem_connected w' fd \<and> mem_in w fd = bs @ mem_in w' fd \<and> mem_out w' fd = mem_out w fd"
    using c by (auto simp: mem_defs Let_def simp del: take_eq_Nil take_eq_Nil2)
next
  fix w fd and sz :: nat
  assume "mem_connected w fd" and "mem_in w fd = []" and "0 < sz"
  then show "\<exists>w'. os_recv mem_os w fd sz = (Recv_data [], w')"
    by (auto simp: mem_defs Let_def)
qed

section \<open>Properties\<close>

text \<open>
  C13: On a connected plain socket \<open>write\<close> puts the whole buffer on the wire, in order and once, however
  the system splits it, and \<open>read\<close> of \<open>n\<close> octets returns exactly the next \<open>n\<close> octets of the stream
  and leaves the rest; when the peer has closed before sending \<open>n\<close> octets, \<open>read\<close> returns with an error.
\<close>

theorem linux_transfer:
  assumes "posix_stream os connected inbox outbox" and "ls_live connected s"
  shows "(\<exists>s'. ls_write os s data = (length data, no_error, s') \<and> ls_live connected s' \<and>
            ls_stream outbox s' = ls_stream outbox s @ data \<and> ls_stream inbox s' = ls_stream inbox s) \<and>
         (if n \<le> length (ls_stream inbox s)
          then \<exists>s'. ls_read os s n = (take n (ls_stream inbox s), no_error, s') \<and> ls_live connected s' \<and>
                 ls_stream inbox s' = drop n (ls_stream inbox s) \<and> ls_stream outbox s' = ls_stream outbox s
          else \<exists>s'. ls_read os s n = (ls_stream inbox s, connection_reset, s'))"
  using posix_stream.ls_write_all [OF assms] posix_stream.ls_read_all [OF assms]
    posix_stream.ls_read_short [OF assms] by simp

definition mem_sock :: "bytes \<Rightarrow> nat \<Rightarrow> mem_world ls" where
  "mem_sock bs c = (linux_socket_new\<lparr>ls_fd := 3\<rparr>, \<lparr>mw_in = bs, mw_out = [], mw_chunk = c\<rparr>)"

lemma mem_sock_live: "c < 2 ^ 31 - 1 \<Longrightarrow> ls_live mem_connected (mem_sock bs c)"
  by (simp add: mem_sock_def ls_live_def ls_is_open_def linux_socket_new_def mem_connected_def)

lemma mem_sock_streams [simp]:
  "ls_stream mem_in (mem_sock bs c) = bs" "ls_stream mem_out (mem_sock bs c) = []"
  by (simp_all add: mem_sock_def ls_stream_def mem_in_def mem_out_def)

theorem linux_transfer_witness:
  "(\<exists>s'. ls_write mem_os (mem_sock [7, 8, 9] 1) [1, 2, 3, 4, 5] = (5, no_error, s') \<and>
      ls_stream mem_out s' = [1, 2, 3, 4, 5]) \<and>
   (\<exists>s'. ls_read mem_os (mem_sock [7, 8, 9] 1) 4 = ([7, 8, 9], connection_reset, s'))"
  using linux_transfer [OF mem.posix_stream_axioms mem_sock_live [of 1 "[7, 8, 9]"],
      of "[1, 2, 3, 4, 5]" 4] by auto

text \<open>
  \<open>read_until\<close> returns with the buffer extended up to the first position where it ends with the
  delimiter, and consumes nothing behind it, so frames that follow the HTTP head stay in the stream.
\<close>

lemma linux_read_until_first:
  assumes "posix_stream os connected inbox outbox" and "ls_live connected s"
    and "delim \<noteq> []" and "0 < n" and "n \<le> length (ls_stream inbox s)"
    and "suffix delim (buf @ take n (ls_stream inbox s))"
    and "\<forall>j. 0 < j \<longrightarrow> j < n \<longrightarrow> \<not> suffix delim (buf @ take j (ls_stream inbox s))"
  shows "\<exists>s'. ls_read_until os s buf delim = Some (buf @ take n (ls_stream inbox s), no_error, s') \<and>
    ls_live connected s' \<and> ls_stream inbox s' = drop n (ls_stream inbox s) \<and>
    ls_stream outbox s' = ls_stream outbox s"
  using posix_stream.ls_read_until_found [OF assms] .

lemma linux_read_until_first_witness:
  "\<exists>s'. ls_read_until mem_os (mem_sock [13, 13, 10, 42] 0) [] [13, 10] = Some ([13, 13, 10], no_error, s') \<and>
     ls_stream mem_in s' = [42]"
proof -
  have none: "\<not> suffix [13, 10] ([] @ take j (ls_stream mem_in (mem_sock [13, 13, 10, 42] 0)))"
    if "0 < j" "j < 3" for j
  proof -
    from that have "j = 1 \<or> j = 2" by auto
    then show ?thesis by (auto simp: suffix_iff_drop)
  qed
  show ?thesis
    using linux_read_until_first [OF mem.posix_stream_axioms mem_sock_live [of 0 "[13, 13, 10, 42]"],
        of "[13, 10]" 3 "[]"] none
    by (force simp: suffix_iff_drop)
qed

text \<open>
  \<open>adopt\<close> of an invalid descriptor reports the \<open>errno\<close> of whatever call ran before it.  When no
  call has failed yet that is zero, and the result compares equal to success although the socket is
  not open.
\<close>

lemma adopt_invalid_fd:
  "fd < 0 \<Longrightarrow> \<not> ls_is_open s \<Longrightarrow> os_errno os (snd s) = 0 \<Longrightarrow>
   ls_adopt os s fd = (system_error 0, s) \<and> \<not> failed (fst (ls_adopt os s fd)) \<and>
   \<not> ls_is_open (snd (ls_adopt os s fd))"
  by (cases s) (simp add: ls_adopt_def failed_def system_error_def)

lemma adopt_invalid_fd_witness:
  "\<not> failed (fst (ls_adopt mem_os (linux_socket_new, \<lparr>mw_in = [], mw_out = [], mw_chunk = 0\<rparr>) (-1)))"
  using adopt_invalid_fd [of "-1" "(linux_socket_new, \<lparr>mw_in = [], mw_out = [], mw_chunk = 0\<rparr>)" mem_os]
  by (simp add: ls_is_open_def linux_socket_new_def mem_os_def)

end
