(* ===== verification/Session.thy ===== *)
theory Session
  imports Reader Linux_Socket
begin

text \<open>
  Messages from one end of a connection to the other: what the send operations put on the wire, how the
  reader assembles frames into messages, and the composition of the two.
\<close>

section \<open>The specification of message assembly\<close>

text \<open>
  RFC 6455, section 5.4, on data frames \<open>(opcode, fin, payload)\<close>: the state is the unfinished message,
  the output the finished ones; \<open>None\<close> is a sequence of frames the protocol forbids.
\<close>

type_synonym message = "opcode \<times> bytes"
type_synonym dframe = "opcode \<times> bool \<times> bytes"

fun assemble :: "message option \<Rightarrow> dframe list \<Rightarrow> (message option \<times> message list) option" where
  "assemble st [] = Some (st, [])"
| "assemble None ((opc, fin, d) # fs) =
     (if opc = TEXT \<or> opc = BINARY
      then if fin then map_option (\<lambda>(st, ms). (st, (opc, d) # ms)) (assemble None fs)
           else assemble (Some (opc, d)) fs
      else None)"
| "assemble (Some (o1, d1)) ((opc, fin, d) # fs) =
     (if opc = CONTINUATION
      then if fin then map_option (\<lambda>(st, ms). (st, (o1, d1 @ d) # ms)) (assemble None fs)
           else assemble (Some (o1, d1 @ d)) fs
      else None)"

lemma assemble_Cons:
  "assemble st (f # fs) =
     (case assemble st [f] of
        None \<Rightarrow> None
      | Some (st1, ms1) \<Rightarrow> map_option (\<lambda>(st2, ms2). (st2, ms1 @ ms2)) (assemble st1 fs))"
proof (cases f; cases st)
  fix opc fin d
  assume f: "f = (opc, fin, d)" and st: "st = None"
  show ?thesis unfolding f st by (simp add: option.map_comp comp_def case_prod_unfold option.map_ident)
next
  fix opc fin d m
  assume f: "f = (opc, fin, d)" and st: "st = Some m"
  show ?thesis unfolding f st by (cases m) (simp add: case_prod_unfold option.map_ident)
qed

lemma assemble_named: "assemble st [(opc, fin, d)] = Some r \<Longrightarrow> named opc"
  by (cases st) (auto simp: named_def split: if_splits)

definition pending :: "'s connection \<Rightarrow> message option" where
  "pending c = (if c_fragmented c then Some (c_message_opcode c, c_message_buffer c) else None)"

text \<open>Well-formed messages: text is UTF-8.\<close>

definition message_ok :: "message \<Rightarrow> bool" where
  "message_ok m \<longleftrightarrow> (fst m = TEXT \<longrightarrow> is_valid_utf8 (snd m))"

definition message_event :: "message \<Rightarrow> event" where
  "message_event m = Ev_message (snd m) (fst m)"

text \<open>An open connection over a live stream.\<close>

definition conn_ready :: "('s \<Rightarrow> bool) \<Rightarrow> 's connection \<Rightarrow> bool" where
  "conn_ready live c \<longleftrightarrow> c_is_open c \<and> \<not> c_is_closing c \<and> live (c_socket c) \<and> buffers_ok c"

text \<open>Callbacks that may send but do not close.\<close>

definition is_close_call :: "api_call \<Rightarrow> bool" where
  "is_close_call a \<longleftrightarrow> (case a of Call_close _ _ \<Rightarrow> True | _ \<Rightarrow> False)"

definition sends_only :: "'s connection \<Rightarrow> bool" where
  "sends_only c \<longleftrightarrow> (\<forall>evs. list_all (\<lambda>a. \<not> is_close_call a) (c_react c evs))"

text \<open>The sender's side: one \<open>send_data_frame\<close> per frame, in order; the first error stops it.\<close>

fun send_all :: "'s env \<Rightarrow> dframe list \<Rightarrow> 's connection \<Rightarrow> error_code \<times> 's connection" where
  "send_all E [] c = (no_error, c)"
| "send_all E ((opc, fin, d) # fs) c =
     (let (ec, c1) = send_data_frame E opc d fin c in if failed ec then (ec, c1) else send_all E fs c1)"

text \<open>Frames on the wire, with some key where the sender masks.\<close>

inductive wire_frames :: "bool \<Rightarrow> dframe list \<Rightarrow> bytes \<Rightarrow> bool" where
  wire_Nil: "wire_frames masked [] []"
| wire_Cons: "wire_frames masked fs bs \<Longrightarrow> (key \<noteq> None \<longleftrightarrow> masked) \<Longrightarrow> (\<forall>k. key = Some k \<longrightarrow> length k = 4) \<Longrightarrow>
    wire_frames masked ((opc, fin, d) # fs) (encode_frame fin False opc key d @ bs)"

section \<open>What is sent\<close>

context stream_env
begin

abbreviation ready :: "'s connection \<Rightarrow> bool" where
  "ready \<equiv> conn_ready live"

lemma payload_fits: "fits (n + 14) \<Longrightarrow> fits n"
  by (erule fits_le) simp

lemma touched_buffers_ok: "touched c c1 \<Longrightarrow> buffers_ok c1 = buffers_ok c"
  by (simp add: buffers_ok_def touchedD)

text \<open>A frame that is built and written appears on the wire in the RFC 6455 encoding.\<close>

lemma built_frame_sent:
  assumes "ready c" and "length data < 2 ^ 64" and "here c inb out" and "fits (length data + 14)"
  shows "\<exists>c1 key. locked_write E (build_frame opc data fin rsv1 c) = (no_error, c1) \<and> touched c c1 \<and>
    ready c1 \<and> here c1 inb (out @ encode_frame fin rsv1 opc key data) \<and> c_events c1 = c_events c \<and>
    (key \<noteq> None \<longleftrightarrow> c_role c = role_client) \<and> (\<forall>k. key = Some k \<longrightarrow> length k = 4) \<and>
    c_outbound_frame c1 = encode_frame fin rsv1 opc key data \<and> fits (length (c_outbound_frame c1))"
proof -
  let ?b = "build_frame opc data fin rsv1 c"
  let ?k = "if outbound_mask c then fst (generate_masking_key (c_gen c)) else [0, 0, 0, 0]"
  let ?key = "if outbound_mask c then Some ?k else None"
  have "length ?k = 4" by simp
  then have frame: "c_outbound_frame ?b = encode_frame fin rsv1 opc ?key data"
    using build_into_eq [OF assms(2)] by (simp add: build_frame_def draw_key_eq Let_def)
  have sb: "fits (length (c_outbound_frame ?b))"
    unfolding frame by (rule fits_le [OF assms(4)]) (rule encode_frame_length, auto split: if_splits)
  then obtain s where s: "write_frame E ?b = (no_error, ?b\<lparr>c_socket := s\<rparr>)" "live s"
      "outbound s = out @ c_outbound_frame ?b" "inbound s = inb"
    using write_frame_stream [of ?b] assms(1,3) by (auto simp: conn_ready_def)
  have lw: "locked_write E ?b = (no_error, ?b\<lparr>c_socket := s\<rparr>)"
    using s(1) assms(1) by (simp add: locked_write_def conn_ready_def)
  have t: "touched c (?b\<lparr>c_socket := s\<rparr>)"
    using locked_build_touched [of c E opc data fin rsv1] lw by simp
  then have "ready (?b\<lparr>c_socket := s\<rparr>)"
    using assms(1) s(2) touched_buffers_ok [OF t] by (simp add: conn_ready_def)
  then show ?thesis using lw t s frame sb
    by (intro exI [of _ "?b\<lparr>c_socket := s\<rparr>"] exI [of _ ?key]) (auto simp: here_def outbound_mask_def)
qed

lemma send_data_frame_sent:
  assumes "ready c" and "length data < 2 ^ 64" and "here c inb out" and "fits (length data + 14)"
    and "\<not> c_permessage_deflate c \<or> \<not> fin \<or> opc = CONTINUATION"
  shows "\<exists>c1 key. send_data_frame E opc data fin c = (no_error, c1) \<and> touched c c1 \<and> ready c1 \<and>
    here c1 inb (out @ encode_frame fin False opc key data) \<and> c_events c1 = c_events c \<and>
    (key \<noteq> None \<longleftrightarrow> c_role c = role_client) \<and> (\<forall>k. key = Some k \<longrightarrow> length k = 4)"
  using built_frame_sent [OF assms(1-4), of opc fin False] assms(1,5)
  by (auto simp: send_data_frame_def prepare_data_frame_def conn_ready_def)

lemma send_all_sent:
  assumes "ready c" and "here c inb out" and "\<not> c_permessage_deflate c"
    and "\<forall>(opc, fin, d) \<in> set fs. length d < 2 ^ 64 \<and> fits (length d + 14)"
  shows "\<exists>c1 bs. send_all E fs c = (no_error, c1) \<and> touched c c1 \<and> ready c1 \<and> here c1 inb (out @ bs) \<and>
    wire_frames (c_role c = role_client) fs bs"
  using assms
proof (induction fs arbitrary: c out)
  case Nil
  then show ?case by (intro exI [of _ c] exI [of _ "[]"]) (simp add: wire_Nil)
next
  case (Cons f fs)
  obtain opc fin d where f: "f = (opc, fin, d)" by (cases f)
  have len: "length d < 2 ^ 64" "fits (length d + 14)" using Cons.prems(4) f by auto
  obtain c1 key where c1: "send_data_frame E opc d fin c = (no_error, c1)" "touched c c1" "ready c1"
      "here c1 inb (out @ encode_frame fin False opc key d)" "key \<noteq> None \<longleftrightarrow> c_role c = role_client"
      "\<forall>k. key = Some k \<longrightarrow> length k = 4"
    using send_data_frame_sent [OF Cons.prems(1) len(1) Cons.prems(2) len(2)] Cons.prems(3) by blast
  have "\<not> c_permessage_deflate c1" using Cons.prems(3) touchedD(12) [OF c1(2)] by simp
  from Cons.IH [OF c1(3,4) this] Cons.prems(4) obtain c2 bs where c2:
      "send_all E fs c1 = (no_error, c2)" "touched c1 c2" "ready c2"
      "here c2 inb ((out @ encode_frame fin False opc key d) @ bs)"
      "wire_frames (c_role c1 = role_client) fs bs" by auto
  have "wire_frames (c_role c = role_client) ((opc, fin, d) # fs) (encode_frame fin False opc key d @ bs)"
    using c2(5) c1(5,6) touchedD(2) [OF c1(2)] by (intro wire_Cons) auto
  then show ?case using c1(1) c2(1,3,4) touched_trans [OF c1(2) c2(2)] unfolding f by auto
qed

lemma sent_frames:
  assumes "ready c" and "\<not> c_permessage_deflate c" and "send_all E fs c = (ec, c1)"
    and "\<forall>(opc, fin, d) \<in> set fs. length d < 2 ^ 64 \<and> fits (length d + 14)"
  shows "ec = no_error \<and> (\<exists>bs. outbound (c_socket c1) = outbound (c_socket c) @ bs \<and>
    wire_frames (c_role c = role_client) fs bs)"
proof -
  have "here c (inbound (c_socket c)) (outbound (c_socket c))" using assms(1) by (simp add: here_def conn_ready_def)
  from send_all_sent [OF assms(1) this assms(2,4)] assms(3) show ?thesis by (auto simp: here_def)
qed

section \<open>What is received\<close>

lemma locked_write_keeps:
  assumes "ready c"
  shows "ready (snd (locked_write E (build_frame opc data fin rsv1 c))) \<and>
    inbound (c_socket (snd (locked_write E (build_frame opc data fin rsv1 c)))) = inbound (c_socket c) \<and>
    prefix (outbound (c_socket c)) (outbound (c_socket (snd (locked_write E (build_frame opc data fin rsv1 c)))))"
proof -
  let ?b = "build_frame opc data fin rsv1 c"
  obtain ec s where s: "write_frame E ?b = (ec, ?b\<lparr>c_socket := s\<rparr>)" "live s"
      "inbound s = inbound (c_socket c)" "prefix (outbound (c_socket c)) (outbound s)"
    using write_frame_some [of ?b] assms by (auto simp: conn_ready_def)
  have "touched c (snd (locked_write E ?b))" by simp
  then show ?thesis using s assms touched_buffers_ok
    by (fastforce simp: locked_write_def conn_ready_def)
qed

lemma send_data_frame_keeps:
  assumes "ready c"
  shows "ready (snd (send_data_frame E opc data fin c)) \<and>
    inbound (c_socket (snd (send_data_frame E opc data fin c))) = inbound (c_socket c) \<and>
    prefix (outbound (c_socket c)) (outbound (c_socket (snd (send_data_frame E opc data fin c))))"
  using assms locked_write_keeps [OF assms]
  by (auto simp: send_data_frame_def prepare_data_frame_def split: option.splits)

lemma run_call_keeps:
  assumes "ready c" and "\<not> is_close_call a"
  shows "ready (run_call E r a c) \<and> inbound (c_socket (run_call E r a c)) = inbound (c_socket c) \<and>
    c_events (run_call E r a c) = c_events c \<and>
    prefix (outbound (c_socket c)) (outbound (c_socket (run_call E r a c)))"
  using assms send_data_frame_keeps [OF assms(1)] locked_write_keeps [OF assms(1)]
  by (cases a) (auto simp: is_close_call_def send_text_def send_binary_def send_continuation_def
      send_ping_def)

lemma run_calls_keep:
  assumes "ready c" and "list_all (\<lambda>a. \<not> is_close_call a) as"
  shows "ready (run_calls E r as c) \<and> inbound (c_socket (run_calls E r as c)) = inbound (c_socket c) \<and>
    c_events (run_calls E r as c) = c_events c \<and>
    prefix (outbound (c_socket c)) (outbound (c_socket (run_calls E r as c)))"
  using assms
proof (induction as arbitrary: c)
  case (Cons a as)
  then show ?case using run_call_keeps [of c a r] by (auto intro: prefix_order.order_trans)
qed simp

lemma fire_keeps:
  assumes "ready c" and "sends_only c"
  shows "ready (fire E r b ev c) \<and> inbound (c_socket (fire E r b ev c)) = inbound (c_socket c) \<and>
    c_events (fire E r b ev c) = c_events c @ (if b then [ev] else []) \<and>
    prefix (outbound (c_socket c)) (outbound (c_socket (fire E r b ev c)))"
proof -
  have "ready (log_event True ev c)" using assms(1) by (simp add: conn_ready_def log_event_def buffers_ok_def)
  moreover have "list_all (\<lambda>a. \<not> is_close_call a) (c_react c (c_events c @ [ev]))"
    using assms(2) by (simp add: sends_only_def)
  ultimately show ?thesis using assms(1) run_calls_keep [of "log_event True ev c"]
    by (simp add: fire_def log_event_def)
qed

text \<open>A finished data message goes to \<open>on_message_\<close>.\<close>

lemma deliver_plain:
  assumes "message_ok (opc, d)"
  shows "deliver_message E d opc False c = (d, fire E True (c_on_message c) (Ev_message d opc) c)"
  using assms by (auto simp: deliver_message_def message_ok_def)

lemma payload_update_same: "c_payload_buffer c = d \<Longrightarrow> c\<lparr>c_payload_buffer := d\<rparr> = c"
  by (cases c) simp

text \<open>
  The callback sends \<open>reply m\<close> when it is given one of the messages \<open>ms\<close>, on any connection that differs
  from \<open>c\<close> in its buffers, its socket and its past only.
\<close>

definition answers :: "'s connection \<Rightarrow> (message \<Rightarrow> bytes) \<Rightarrow> message list \<Rightarrow> bool" where
  "answers c reply ms \<longleftrightarrow>
     (\<forall>m \<in> set ms. \<forall>c1. ready c1 \<longrightarrow> c_role c1 = c_role c \<longrightarrow> c_react c1 = c_react c \<longrightarrow>
        c_permessage_deflate c1 = c_permessage_deflate c \<longrightarrow>
        outbound (c_socket (fire E True True (message_event m) c1)) = outbound (c_socket c1) @ reply m)"

lemma answers_same:
  "c_role c1 = c_role c \<Longrightarrow> c_react c1 = c_react c \<Longrightarrow> c_permessage_deflate c1 = c_permessage_deflate c \<Longrightarrow>
   answers c1 reply ms = answers c reply ms"
  by (simp add: answers_def)

text \<open>
  One data frame of a legal sequence: \<open>handle_frame\<close> makes the step of the specification, and calls
  \<open>on_message_\<close> exactly when the specification finishes a message.
\<close>

lemma handle_data_frame:
  assumes "assemble (pending c) [(opc, fin, d)] = Some (st, ms)" and "list_all message_ok ms"
    and "ready c" and "sends_only c" and "c_on_message c" and "\<not> c_message_compressed c"
    and "c_current_header c = header_of fin False opc m n k" and "c_payload_buffer c = d"
  shows "ready (handle_frame E c) \<and> pending (handle_frame E c) = st \<and>
    c_events (handle_frame E c) = c_events c @ map message_event ms \<and>
    inbound (c_socket (handle_frame E c)) = inbound (c_socket c) \<and>
    \<not> c_message_compressed (handle_frame E c) \<and> c_role (handle_frame E c) = c_role c \<and>
    c_react (handle_frame E c) = c_react c \<and> c_on_message (handle_frame E c) \<and>
    c_permessage_deflate (handle_frame E c) = c_permessage_deflate c \<and>
    (answers c reply ms \<longrightarrow> outbound (c_socket (handle_frame E c)) = outbound (c_socket c) @ concat (map reply ms))"
proof (cases "c_fragmented c")
  case False
  then have opc: "opc = TEXT \<or> opc = BINARY" using assms(1) by (auto simp: pending_def split: if_splits)
  show ?thesis
  proof (cases fin)
    case True
    then have st: "st = None" "ms = [(opc, d)]" using assms(1) False opc by (auto simp: pending_def)
    let ?f = "fire E True True (Ev_message d opc) c"
    have t: "touched c ?f" by simp
    have "deliver_message E d opc False c = (d, ?f)" using deliver_plain [of opc d c] assms(2,5) st(2) by simp
    moreover have "c_payload_buffer ?f = d" using touchedD(7) [OF t] assms(8) by simp
    ultimately have "handle_frame E c = ?f"
      using opc True False assms(7,8) payload_update_same [of ?f d] by (auto simp: handle_frame_def)
    then show ?thesis using fire_keeps [OF assms(3,4), of True True "Ev_message d opc"] st False
        touchedD [OF t] assms(3,5,6) by (simp add: pending_def message_event_def answers_def)
  next
    case fin: False
    then have "st = Some (opc, d)" "ms = []" using assms(1) False opc by (auto simp: pending_def)
    moreover have "handle_frame E c = c\<lparr>c_fragmented := True, c_message_opcode := opc,
        c_message_buffer := d, c_message_compressed := False\<rparr>"
      using opc fin False assms(7,8) by (auto simp: handle_frame_def)
    ultimately show ?thesis using assms(3,5) by (simp add: pending_def conn_ready_def buffers_ok_def)
  qed
next
  case True
  then have opc: "opc = CONTINUATION" using assms(1) by (auto simp: pending_def split: if_splits)
  let ?d = "c_message_buffer c @ d" and ?o = "c_message_opcode c"
  let ?c1 = "c\<lparr>c_message_buffer := ?d\<rparr>"
  show ?thesis
  proof (cases fin)
    case fin: True
    then have st: "st = None" "ms = [(?o, ?d)]" using assms(1) True opc by (auto simp: pending_def)
    let ?f = "fire E True True (Ev_message ?d ?o) ?c1"
    have t: "touched ?c1 ?f" by simp
    have h: "handle_frame E c = reset_fragment_state ?f"
      using opc fin True assms(5-8) deliver_plain [of ?o ?d ?c1] assms(2) st(2)
      by (auto simp: handle_frame_def)
    have "ready ?c1" "sends_only ?c1" using assms(3,4) by (simp_all add: conn_ready_def buffers_ok_def sends_only_def)
    from fire_keeps [OF this, of True True "Ev_message ?d ?o"] show ?thesis
      using st touchedD [OF t] assms(3,5) unfolding h
      by (simp add: pending_def message_event_def reset_fragment_state_def conn_ready_def buffers_ok_def answers_def)
  next
    case fin: False
    then have "st = Some (?o, ?d)" "ms = []" using assms(1) True opc by (auto simp: pending_def)
    moreover have "handle_frame E c = ?c1" using opc fin True assms(7,8) by (auto simp: handle_frame_def)
    ultimately show ?thesis using True assms(3,5,6) by (simp add: pending_def conn_ready_def buffers_ok_def)
  qed
qed

text \<open>
  The reader refines the specification: over a legal sequence of data frames with non-empty payloads it
  calls \<open>on_message_\<close> with the assembled messages, in order, and keeps reading.
\<close>

lemma read_loop_refines_assembly:
  assumes "wire_frames (c_role c = role_server) fs bs" and "inbound (c_socket c) = bs @ rest"
    and "ready c" and "sends_only c" and "c_on_message c" and "\<not> c_message_compressed c"
    and "assemble (pending c) fs = Some (st, ms)" and "list_all message_ok ms"
    and "\<forall>(opc, fin, d) \<in> set fs. d \<noteq> [] \<and> length d < 2 ^ 63 \<and> e_alloc E (length d) \<and> fits (length d)"
  shows "\<exists>c1. read_loop E c = read_loop E c1 \<and> ready c1 \<and> pending c1 = st \<and>
    c_events c1 = c_events c @ map message_event ms \<and> inbound (c_socket c1) = rest \<and>
    (\<forall>reply. answers c reply ms \<longrightarrow> outbound (c_socket c1) = outbound (c_socket c) @ concat (map reply ms))"
  using assms
proof (induction "c_role c = role_server" fs bs arbitrary: c ms rule: wire_frames.induct)
  case wire_Nil
  then show ?case by auto
next
  case (wire_Cons fs bs key opc fin d)
  obtain st1 ms1 ms2 where a: "assemble (pending c) [(opc, fin, d)] = Some (st1, ms1)"
      "assemble st1 fs = Some (st, ms2)" "ms = ms1 @ ms2"
    using wire_Cons.prems(6) by (subst (asm) assemble_Cons) (auto split: option.splits)
  have named: "named opc" by (rule assemble_named [OF a(1)])
  have d: "d \<noteq> []" "length d < 2 ^ 63" "e_alloc E (length d)" "fits (length d)" using wire_Cons.prems(8) by auto
  have c: "c_is_open c" "buffers_ok c" "\<not> c_is_closing c" using wire_Cons.prems(2) by (simp_all add: conn_ready_def)
  have h: "here c (encode_frame fin False opc key d @ bs @ rest) (outbound (c_socket c))"
    using wire_Cons.prems(1,2) by (simp add: here_def conn_ready_def)
  obtain c1 k where c1: "read_one_frame E c = Inr (c_is_open (handle_frame E c1), handle_frame E c1)"
      "received c c1" "here c1 (bs @ rest) (outbound (c_socket c))" "buffers_ok c1"
      "c_current_header c1 = header_of fin False opc (key \<noteq> None) (length d) k" "c_payload_buffer c1 = d"
    using read_one_frame_encoded [OF c(1,2) h named _ wire_Cons.hyps(3) _ d(2-4)] wire_Cons.hyps(4) d(1)
    by auto
  note r = receivedD [OF c1(2)]
  have r1: "ready c1" "sends_only c1" "pending c1 = pending c" "c_on_message c1" "\<not> c_message_compressed c1"
    using wire_Cons.prems(2-5) c1(3,4) r by (auto simp: conn_ready_def sends_only_def pending_def)
  let ?c2 = "handle_frame E c1"
  have ms1: "list_all message_ok ms1" and ms2: "list_all message_ok ms2"
    using wire_Cons.prems(7) a(3) by simp_all
  note H = handle_data_frame [OF a(1) [folded r1(3)] ms1 r1(1,2,4,5) c1(5,6)]
  have same: "answers c1 reply ms' = answers c reply ms'" "answers ?c2 reply ms' = answers c reply ms'" for reply ms'
    by (rule answers_same; use H [of "\<lambda>_. []"] r(1,2,13) in simp)+
  have out: "answers c reply ms1 \<Longrightarrow> outbound (c_socket ?c2) = outbound (c_socket c) @ concat (map reply ms1)" for reply
    using H [of reply] same(1) hereD(3) [OF c1(3)] by simp
  have step: "ready ?c2" "pending ?c2 = st1" "c_events ?c2 = c_events c @ map message_event ms1"
      "inbound (c_socket ?c2) = bs @ rest" "\<not> c_message_compressed ?c2" "c_role ?c2 = c_role c"
      "c_on_message ?c2"
    using H r(1,5) hereD(2) [OF c1(3)] by simp_all
  have react: "sends_only ?c2" using H r(13) wire_Cons.prems(3) by (simp add: sends_only_def)
  have loop: "read_loop E c = read_loop E ?c2"
    using c c1(1) step(1) by (subst read_loop.simps) (simp add: conn_ready_def)
  have a2: "assemble (pending ?c2) fs = Some (st, ms2)" using a(2) step(2) by simp
  have fs: "\<forall>(opc, fin, d) \<in> set fs. d \<noteq> [] \<and> length d < 2 ^ 63 \<and> e_alloc E (length d) \<and> fits (length d)"
    using wire_Cons.prems(8) by simp
  from wire_Cons.hyps(2) [OF _ step(4,1) react step(7,5) a2 ms2 fs] step(6) obtain c3 where
      c3: "read_loop E ?c2 = read_loop E c3" "ready c3" "pending c3 = st"
      "c_events c3 = c_events ?c2 @ map message_event ms2" "inbound (c_socket c3) = rest"
      "\<forall>reply. answers ?c2 reply ms2 \<longrightarrow> outbound (c_socket c3) = outbound (c_socket ?c2) @ concat (map reply ms2)" by auto
  have "outbound (c_socket c3) = outbound (c_socket c) @ concat (map reply ms)" if "answers c reply ms" for reply
  proof -
    have "answers c reply ms1" "answers c reply ms2" using that unfolding a(3) answers_def by simp_all
    then show ?thesis using out [of reply] c3(6) same(2) a(3) by simp
  qed
  then show ?case using loop step(3) a(3) c3(1-5) by (intro exI [of _ c3]) simp
qed

end

section \<open>From one end to the other\<close>

lemma frames_arrive:
  fixes a :: "'s connection" and b :: "'t connection"
  assumes "stream_env E alive ain aout afits" and "stream_env F live inbound outbound fits"
    and "conn_ready alive a" and "\<not> c_permessage_deflate a" and "c_role a \<noteq> c_role b"
    and "send_all E fs a = (ec, a1)"
    and "conn_ready live b" and "sends_only b" and "c_on_message b" and "\<not> c_message_compressed b"
    and "inbound (c_socket b) = drop (length (aout (c_socket a))) (aout (c_socket a1)) @ rest"
    and "assemble (pending b) fs = Some (st, ms)" and "list_all message_ok ms"
    and "\<forall>(opc, fin, d) \<in> set fs. d \<noteq> [] \<and> length d < 2 ^ 63 \<and> e_alloc F (length d) \<and>
      afits (length d + 14) \<and> fits (length d)"
  shows "ec = no_error \<and>
    (\<exists>b1. read_loop F b = read_loop F b1 \<and> conn_ready live b1 \<and> pending b1 = st \<and>
       c_events b1 = c_events b @ map message_event ms \<and> inbound (c_socket b1) = rest \<and>
       (\<forall>reply. stream_env.answers F live outbound b reply ms \<longrightarrow>
          outbound (c_socket b1) = outbound (c_socket b) @ concat (map reply ms)))"
proof -
  have len: "\<forall>(opc, fin, d) \<in> set fs. length d < 2 ^ 64 \<and> afits (length d + 14)"
    and fs: "\<forall>(opc, fin, d) \<in> set fs. d \<noteq> [] \<and> length d < 2 ^ 63 \<and> e_alloc F (length d) \<and> fits (length d)"
    using assms(14) by fastforce+
  obtain bs where bs: "ec = no_error" "aout (c_socket a1) = aout (c_socket a) @ bs"
      "wire_frames (c_role a = role_client) fs bs"
    using stream_env.sent_frames [OF assms(1,3,4,6) len] by blast
  have "(c_role a = role_client) = (c_role b = role_server)"
    using assms(5) by (cases "c_role a"; cases "c_role b") auto
  with bs have "wire_frames (c_role b = role_server) fs bs" "inbound (c_socket b) = bs @ rest"
    using assms(11) by simp_all
  from stream_env.read_loop_refines_assembly [OF assms(2) this assms(7-10,12,13) fs] bs(1) show ?thesis by auto
qed

section \<open>A connection over the in-memory system\<close>

definition mem_env :: "mem_world ls env" where
  "mem_env = \<lparr>e_tr = linux_transport mem_os, e_zlib = rle_zlib, e_alloc = (\<lambda>n. n < 2 ^ 30),
     e_wake = (\<lambda>evs. Some connection_reset)\<rparr>"

interpretation mem_conn: stream_env mem_env "ls_live mem_connected" "ls_stream mem_in" "ls_stream mem_out" "\<lambda>_. True"
  by (rule stream_env.intro) (simp add: mem_env_def mem.linux.byte_stream_axioms)

lemma mem_connect_ok: "fst (tr_connect (e_tr mem_env) sk host port) = no_error"
  by (simp add: mem_env_def linux_transport_def ls_connect_def connect_host_def mem_os_def case_prod_unfold Let_def)

text \<open>An open connection of the given role, with all callbacks installed, before the octets \<open>bs\<close>.\<close>

definition mem_conn :: "connection_role \<Rightarrow> (event list \<Rightarrow> api_call list) \<Rightarrow> bytes \<Rightarrow> mem_world ls connection" where
  "mem_conn r react bs =
     (connection_new (mem_sock bs 4) (\<lambda>n. of_nat (7 * n + 1)) react)
       \<lparr>c_role := r, c_is_open := True, c_reader_running := True, c_reader_thread := True,
        c_on_open := True, c_on_message := True, c_on_close := True, c_on_error := True\<rparr>"

lemma mem_conn_fields [simp]:
  "c_role (mem_conn r react bs) = r" "c_is_open (mem_conn r react bs)" "\<not> c_is_closing (mem_conn r react bs)"
  "c_on_message (mem_conn r react bs)" "c_on_close (mem_conn r react bs)" "c_on_error (mem_conn r react bs)"
  "c_react (mem_conn r react bs) = react" "c_events (mem_conn r react bs) = []"
  "\<not> c_message_compressed (mem_conn r react bs)" "\<not> c_permessage_deflate (mem_conn r react bs)"
  "c_socket (mem_conn r react bs) = mem_sock bs 4" "pending (mem_conn r react bs) = None"
  "buffers_ok (mem_conn r react bs)" "c_payload_buffer (mem_conn r react bs) = []"
  "\<not> c_fragmented (mem_conn r react bs)"
  by (simp_all add: mem_conn_def connection_new_def pending_def buffers_ok_def builder_new_def)

lemma mem_conn_ready [simp]: "conn_ready (ls_live mem_connected) (mem_conn r react bs)"
  by (simp add: conn_ready_def mem_sock_live)

section \<open>Properties\<close>

text \<open>
  C1: End to end.  Whatever data frames one end sends (whole messages or fragments, in any legal
  sequence), the reader at the other end calls \<open>on_message_\<close> with exactly the messages those frames
  make up, in order, provided text is UTF-8 and no payload is empty; it is then ready for the octets
  that follow.  The callback of the receiver may itself send.  The two ends may have different transports,
  plain or TLS.
\<close>

theorem end_to_end:
  fixes a :: "'s connection" and b :: "'t connection"
  assumes "stream_env E alive ain aout afits" and "stream_env F live inbound outbound fits"
    and "conn_ready alive a" and "\<not> c_permessage_deflate a" and "c_role a \<noteq> c_role b"
    and "send_all E fs a = (ec, a1)"
    and "conn_ready live b" and "sends_only b" and "c_on_message b" and "\<not> c_message_compressed b"
    and "inbound (c_socket b) = drop (length (aout (c_socket a))) (aout (c_socket a1)) @ rest"
    and "assemble (pending b) fs = Some (st, ms)" and "list_all message_ok ms"
    and "\<forall>(opc, fin, d) \<in> set fs. d \<noteq> [] \<and> length d < 2 ^ 63 \<and> e_alloc F (length d) \<and>
      afits (length d + 14) \<and> fits (length d)"
  shows "\<not> failed ec \<and>
    (\<exists>b1. read_loop F b = read_loop F b1 \<and> conn_ready live b1 \<and> pending b1 = st \<and>
       c_events b1 = c_events b @ map message_event ms \<and> inbound (c_socket b1) = rest)"
  using frames_arrive [OF assms] by auto

text \<open>A message in two fragments and a whole one, sent by a client to a server that echoes.\<close>

definition demo_frames :: "dframe list" where
  "demo_frames = [(TEXT, False, [72, 101]), (CONTINUATION, True, [106]), (BINARY, True, [0, 255])]"

definition demo_echo :: "event list \<Rightarrow> api_call list" where
  "demo_echo evs = (case last evs of Ev_message d opc \<Rightarrow> [Call_send_binary d True] | _ \<Rightarrow> [])"

definition demo_wire :: bytes where
  "demo_wire = mw_out (snd (c_socket (snd (send_all mem_env demo_frames (mem_conn role_client (\<lambda>_. []) [])))))"

lemma demo_sends_only: "sends_only (mem_conn r demo_echo bs)"
  by (simp add: sends_only_def demo_echo_def is_close_call_def split: event.splits)

theorem end_to_end_witness:
  "\<exists>b1. read_loop mem_env (mem_conn role_server demo_echo demo_wire) = read_loop mem_env b1 \<and>
     c_events b1 = [Ev_message [72, 101, 106] TEXT, Ev_message [0, 255] BINARY]"
proof -
  let ?a = "mem_conn role_client (\<lambda>_. []) []"
  obtain ec a1 where a1: "send_all mem_env demo_frames ?a = (ec, a1)" by fastforce
  have asm: "assemble None demo_frames = Some (None, [(TEXT, [72, 101, 106]), (BINARY, [0, 255])])"
    by (simp add: demo_frames_def)
  have utf: "is_valid_utf8 [72, 101, 106]" by code_simp
  have wire: "demo_wire = ls_stream mem_out (c_socket a1)"
    using a1 by (simp add: demo_wire_def ls_stream_def mem_out_def)
  have fs: "\<forall>(opc, fin, d) \<in> set demo_frames. d \<noteq> [] \<and> length d < 2 ^ 63 \<and> e_alloc mem_env (length d) \<and> True \<and> True"
    by (simp add: demo_frames_def mem_env_def)
  have "list_all message_ok [(TEXT, [72, 101, 106]), (BINARY, [0, 255])]"
    using utf by (simp add: message_ok_def)
  from end_to_end [OF mem_conn.stream_env_axioms mem_conn.stream_env_axioms _ _ _ a1 _ demo_sends_only, of role_server demo_wire "[]",
      OF _ _ _ _ _ _ _ _ this fs] asm wire
  show ?thesis by (auto simp: message_event_def)
qed

end
