(* ===== verification/Protocol.thy ===== *)
theory Protocol
  imports Session
begin

text \<open>
  The protocol rules a connection enforces as it reads: header validation, UTF-8, control frames, the
  closing handshake, the end of the stream, and the limits of the reader.
\<close>

section \<open>Definitions\<close>

text \<open>
  What RFC 6455 (and RFC 7692 for RSV1) allows in the header of a frame that an endpoint receives, rule by
  rule: the reserved bits and the opcode (section 5.2), the mask bit (5.1), control frames, which are not
  fragmented and carry at most 125 octets (5.5), and the most significant bit of a 64-bit length (5.2).
\<close>

definition rsv_legal :: "bool \<Rightarrow> frame_header \<Rightarrow> bool" where
  "rsv_legal deflate h \<longleftrightarrow> \<not> fh_rsv2 h \<and> \<not> fh_rsv3 h \<and> (fh_rsv1 h \<longrightarrow> deflate \<and> fh_op h \<in> {TEXT, BINARY})"

definition opcode_legal :: "frame_header \<Rightarrow> bool" where
  "opcode_legal h \<longleftrightarrow> op_val (fh_op h) \<in> {0x0, 0x1, 0x2, 0x8, 0x9, 0xA}"

definition mask_legal :: "connection_role \<Rightarrow> frame_header \<Rightarrow> bool" where
  "mask_legal r h \<longleftrightarrow> fh_mask h = (r = role_server)"

definition control_legal :: "frame_header \<Rightarrow> bool" where
  "control_legal h \<longleftrightarrow> (op_val (fh_op h) \<in> {0x8, 0x9, 0xA} \<longrightarrow> fh_fin h \<and> unat (fh_payload_len h) \<le> 125)"

definition length_legal :: "frame_header \<Rightarrow> bool" where
  "length_legal h \<longleftrightarrow> unat (fh_payload_len h) < 2 ^ 63"

definition header_legal :: "connection_role \<Rightarrow> bool \<Rightarrow> frame_header \<Rightarrow> bool" where
  "header_legal r deflate h \<longleftrightarrow>
     rsv_legal deflate h \<and> opcode_legal h \<and> mask_legal r h \<and> control_legal h \<and> length_legal h"

text \<open>The body of a close frame.\<close>

definition close_payload :: "u16 \<Rightarrow> string \<Rightarrow> bytes" where
  "close_payload status reason = rev (word_to_bytes 2 status) @ bytes_of_string reason"

text \<open>What \<open>fail_with_close\<close> tells the application.\<close>

definition failure_events :: "'s connection \<Rightarrow> u16 \<Rightarrow> string \<Rightarrow> event list" where
  "failure_events c code reason =
     (if c_on_error c then [Ev_error (Err_text reason)] else []) @
     (if c_on_close c then [Ev_close code reason] else [])"

text \<open>
  \<open>failed_with E outbound c code c1\<close>: \<open>c1\<close> is \<open>c\<close> after it was failed with status \<open>code\<close>: \<open>on_error_\<close> and
  \<open>on_close_\<close> were called once each and nothing else, a close frame was sent last and the socket is closed.
\<close>

definition failed_with :: "'s env \<Rightarrow> ('s \<Rightarrow> bytes) \<Rightarrow> 's connection \<Rightarrow> u16 \<Rightarrow> 's connection \<Rightarrow> bool" where
  "failed_with E outbound c code c1 \<longleftrightarrow> \<not> c_is_open c1 \<and>
     (\<exists>reason s pre key. c_events c1 = c_events c @ failure_events c code reason \<and> c_socket c1 = tr_close (e_tr E) s \<and>
        outbound s = outbound (c_socket c) @ pre @ encode_frame True False CLOSE key (close_payload code reason))"

section \<open>Failing a connection\<close>

lemma fail_with_close_not_ready:
  assumes "\<not> c_is_open c"
  shows "c_events (fail_with_close E code reason c) = c_events c @ failure_events c code reason"
  using assms
  by (auto simp: fail_with_close_def emit_error_def fire_not_open log_event_def close_socket_def
      failure_events_def Let_def)

context stream_env
begin

text \<open>\<open>closed_with c c1 code reason\<close>: \<open>c1\<close> is \<open>c\<close> after sending a close frame and closing the socket.\<close>

definition closed_with :: "'s connection \<Rightarrow> 's connection \<Rightarrow> u16 \<Rightarrow> string \<Rightarrow> bool" where
  "closed_with c c1 code reason \<longleftrightarrow> \<not> c_is_open c1 \<and> c_is_closing c1 \<and>
     c_events c1 = c_events c @ failure_events c code reason \<and>
     (\<exists>s pre key. c_socket c1 = tr_close (e_tr E) s \<and>
        outbound s = outbound (c_socket c) @ pre @ encode_frame True False CLOSE key (close_payload code reason))"

lemma close_frame_built:
  assumes "buffers_ok c" and "length reason < 2 ^ 63"
  shows "\<exists>key. c_outbound_frame (build_close_frame code reason c) =
      encode_frame True False CLOSE key (close_payload code reason) \<and>
    (key \<noteq> None \<longleftrightarrow> c_role c = role_client) \<and> (\<forall>k. key = Some k \<longrightarrow> length k = 4) \<and>
    (fits (length reason + 16) \<longrightarrow> fits (length (c_outbound_frame (build_close_frame code reason c))))"
proof -
  have "2 + length reason < 2 ^ 64" "length (bld_masking_key (c_builder c)) = 4"
    using assms by (auto simp: buffers_ok_def)
  from build_close_into_eq [OF this] obtain key where
      key: "c_outbound_frame (build_close_frame code reason c) = encode_frame True False CLOSE key (close_payload code reason)"
      "key \<noteq> None \<longleftrightarrow> c_role c = role_client" "\<forall>k. key = Some k \<longrightarrow> length k = 4"
    by (auto simp: build_close_frame_def close_payload_def outbound_mask_def split: prod.splits)
  have "length (encode_frame True False CLOSE key (close_payload code reason)) \<le> length reason + 16"
    using encode_frame_length [of key True False CLOSE "close_payload code reason"] key(3)
    by (simp add: close_payload_def bytes_of_string_def)
  then show ?thesis using key fits_le by metis
qed

lemma closed_with_failed: "closed_with c c1 code reason \<Longrightarrow> failed_with E outbound c code c1"
  unfolding closed_with_def failed_with_def by blast

lemma fail_with_close_stream:
  assumes "ready c" and "sends_only c" and "length reason < 2 ^ 15"
  shows "closed_with c (fail_with_close E code reason c) code reason"
proof -
  let ?c1 = "emit_error E True reason c"
  let ?c2 = "build_close_frame code reason (?c1\<lparr>c_is_closing := True\<rparr>)"
  have c1: "ready ?c1" "c_events ?c1 = c_events c @ (if c_on_error c then [Ev_error (Err_text reason)] else [])"
      "prefix (outbound (c_socket c)) (outbound (c_socket ?c1))" and t1: "touched c ?c1"
    using fire_keeps [OF assms(1,2)] by (simp_all add: emit_error_def)
  have "buffers_ok (?c1\<lparr>c_is_closing := True\<rparr>)" using c1(1) by (simp add: conn_ready_def buffers_ok_def)
  from close_frame_built [OF this, of reason code] fits_small [of "length reason + 16"] assms(3)
  obtain key where key: "c_outbound_frame ?c2 = encode_frame True False CLOSE key (close_payload code reason)"
      "fits (length (c_outbound_frame ?c2))"
    by auto
  obtain s where s: "write_frame E ?c2 = (no_error, ?c2\<lparr>c_socket := s\<rparr>)"
      "outbound s = outbound (c_socket ?c1) @ c_outbound_frame ?c2"
    using write_frame_stream [of ?c2] c1(1) key(2) by (auto simp: conn_ready_def)
  let ?c3 = "close_socket E (?c2\<lparr>c_socket := s\<rparr>)"
  have t2: "touched (?c1\<lparr>c_is_closing := True\<rparr>) ?c2" by simp
  have on: "c_on_close ?c3 = c_on_close c"
    using touchedD(15) [OF t1] touchedD(15) [OF t2] by (simp add: close_socket_def)
  have f: "fail_with_close E code reason c = log_event (c_on_close c) (Ev_close code reason) ?c3"
    using c1(1) s(1) on
    by (simp add: fail_with_close_def Let_def conn_ready_def fire_not_open close_socket_def)
  have "c_events (fail_with_close E code reason c) = c_events c @ failure_events c code reason"
    unfolding f using c1(2) by (simp add: log_event_def close_socket_def failure_events_def)
  moreover have "c_socket (fail_with_close E code reason c) = tr_close (e_tr E) s"
    unfolding f by (simp add: log_event_def close_socket_def)
  moreover obtain pre where "outbound (c_socket ?c1) = outbound (c_socket c) @ pre"
    using c1(3) by (auto simp: prefix_def)
  moreover have "c_is_closing (fail_with_close E code reason c)"
    unfolding f by (simp add: log_event_def close_socket_def)
  ultimately show ?thesis unfolding closed_with_def using s(2) key by auto
qed

text \<open>One round of the loop on an encoded frame.\<close>

lemma read_loop_frame:
  assumes "ready c" and "inbound (c_socket c) = encode_frame fin rsv1 opc key payload @ rest" and "named opc"
    and "rsv1 \<longrightarrow> c_permessage_deflate c \<and> (opc = TEXT \<or> opc = BINARY)"
    and "key \<noteq> None \<longleftrightarrow> c_role c = role_server" and "\<forall>k. key = Some k \<longrightarrow> length k = 4"
    and "length payload < 2 ^ 63" and "e_alloc E (length payload)" and "fits (length payload)"
  obtains c1 k where "read_loop E c = (if c_is_open (handle_frame E c1) then read_loop E (handle_frame E c1)
                                       else Some (Inr (handle_frame E c1)))"
    and "received c c1" and "ready c1" and "inbound (c_socket c1) = rest"
    and "outbound (c_socket c1) = outbound (c_socket c)"
    and "c_current_header c1 = header_of fin rsv1 opc (key \<noteq> None) (length payload) k"
    and "c_payload_buffer c1 = (if payload = [] then c_payload_buffer c else payload)"
proof -
  have c: "c_is_open c" "\<not> c_is_closing c" "buffers_ok c" using assms(1) by (auto simp: conn_ready_def)
  have h: "here c (encode_frame fin rsv1 opc key payload @ rest) (outbound (c_socket c))"
    using assms(1,2) by (simp add: here_def conn_ready_def)
  obtain c1 k where c1: "read_one_frame E c = Inr (c_is_open (handle_frame E c1), handle_frame E c1)"
      "received c c1" "here c1 rest (outbound (c_socket c))" "buffers_ok c1"
      "c_current_header c1 = header_of fin rsv1 opc (key \<noteq> None) (length payload) k"
      "c_payload_buffer c1 = (if payload = [] then c_payload_buffer c else payload)"
    using read_one_frame_encoded [OF c(1,3) h assms(3) _ assms(5) _ assms(7-9)] assms(4,6) by auto
  have loop: "read_loop E c = (if c_is_open (handle_frame E c1) then read_loop E (handle_frame E c1)
                               else Some (Inr (handle_frame E c1)))"
    using c c1(1) by (subst read_loop.simps) simp
  have rdy: "ready c1" using c c1(4) hereD(1) [OF c1(3)] receivedD [OF c1(2)] by (simp add: conn_ready_def)
  show thesis by (rule that [OF loop c1(2) rdy hereD(2,3) [OF c1(3)] c1(5,6)])
qed

end

section \<open>Frame headers\<close>

lemma if_member: "(b \<Longrightarrow> x \<in> V) \<Longrightarrow> (\<not> b \<Longrightarrow> y \<in> V) \<Longrightarrow> (if b then x else y) \<in> V"
  by simp

lemma validate_verdict:
  "validate_frame_header E c \<in> {(True, c)} \<union> {(False, fail_protocol E reason c) | reason. length reason < 50}"
  (is "_ \<in> ?V")
proof -
  have r: "(False, fail_protocol E reason c) \<in> ?V" if "length reason < 50" for reason
    using that by blast
  show ?thesis unfolding validate_frame_header_def Let_def by (intro if_member r) simp_all
qed

lemma validate_iff:
  "fst (validate_frame_header E c) \<longleftrightarrow> rsv_legal (c_permessage_deflate c) (c_current_header c) \<and>
     opcode_legal (c_current_header c) \<and> mask_legal (c_role c) (c_current_header c)"
proof -
  let ?v = "op_val (fh_op (c_current_header c))"
  have role: "c_role c = role_client \<longleftrightarrow> c_role c \<noteq> role_server" by (cases "c_role c") auto
  have v: "(?v \<le> 0x02 \<or> (?v \<ge> 0x08 \<and> ?v \<le> 0x0A)) = opcode_legal (c_current_header c)"
    unfolding opcode_legal_def u8_small_cases u8_control_cases by auto
  show ?thesis unfolding validate_frame_header_def rsv_legal_def mask_legal_def Let_def role v by auto
qed

lemma validate_rejects:
  assumes "stream_env E live inbound outbound fits" and "conn_ready live c" and "sends_only c"
    and "\<not> fst (validate_frame_header E c)"
  shows "failed_with E outbound c 1002 (snd (validate_frame_header E c))"
proof -
  obtain reason where r: "snd (validate_frame_header E c) = fail_protocol E reason c" "length reason < 50"
    using validate_verdict [of E c] assms(4) by auto
  then have "length reason < 2 ^ 15" by simp
  from stream_env.closed_with_failed [OF assms(1) stream_env.fail_with_close_stream [OF assms(1-3) this]]
  show ?thesis by (simp add: r(1) fail_protocol_def)
qed

text \<open>
  C6: Which frame headers a connection accepts.  Every header that RFC 6455 allows for this role and
  these extensions is accepted and leaves the connection unchanged.  Of the rules of the RFC the connection
  enforces those on the reserved bits, the opcode and the mask bit: a header that breaks one of them closes the
  connection with status 1002 (a close frame goes out, the socket is closed, \<open>on_error_\<close> and \<open>on_close_\<close>
  are called once each and no message is delivered), and no other header is refused, so the rules
  on control frames and on the top bit of the length are not enforced.
\<close>

theorem header_validation:
  fixes c :: "'s connection"
  assumes "stream_env E live inbound outbound fits" and "conn_ready live c" and "sends_only c"
  defines "h \<equiv> c_current_header c" and "v \<equiv> validate_frame_header E c"
  shows "(header_legal (c_role c) (c_permessage_deflate c) h \<longrightarrow> v = (True, c)) \<and>
    (if rsv_legal (c_permessage_deflate c) h \<and> opcode_legal h \<and> mask_legal (c_role c) h then v = (True, c)
     else \<not> fst v \<and> failed_with E outbound c 1002 (snd v))"
  using validate_iff [of E c] validate_rejects [OF assms(1-3)] validate_verdict [of E c]
  unfolding h_def v_def header_legal_def by auto

theorem header_validation_witness:
  "validate_frame_header mem_env (mem_conn role_client (\<lambda>_. []) []) = (True, mem_conn role_client (\<lambda>_. []) []) \<and>
   \<not> fst (validate_frame_header mem_env (mem_conn role_server (\<lambda>_. []) [])) \<and>
   failed_with mem_env (ls_stream mem_out) (mem_conn role_server (\<lambda>_. []) []) 1002
     (snd (validate_frame_header mem_env (mem_conn role_server (\<lambda>_. []) [])))"
proof -
  have h: "c_current_header (mem_conn r (\<lambda>_. []) []) = header_zero" "c_role (mem_conn r (\<lambda>_. []) []) = r"
    "sends_only (mem_conn r (\<lambda>_. []) [])" for r
    by (simp_all add: mem_conn_def connection_new_def sends_only_def)
  show ?thesis
    using header_validation [OF mem_conn.stream_env_axioms mem_conn_ready h(3), of role_server]
      header_validation [OF mem_conn.stream_env_axioms mem_conn_ready h(3), of role_client]
    by (auto simp: h rsv_legal_def opcode_legal_def mask_legal_def header_zero_def)
qed

section \<open>Messages\<close>

text \<open>The octets of a message: those received, or what they decompress to.\<close>

definition message_content :: "'s env \<Rightarrow> 's connection \<Rightarrow> bytes \<Rightarrow> bool \<Rightarrow> bytes option" where
  "message_content E c payload compressed =
     (if \<not> compressed then Some payload
      else if c_permessage_deflate c then decompress_message (e_zlib E) payload else None)"

text \<open>
  C21: What becomes of a complete message, compressed or not.  If it is compressed and the extension is not
  negotiated or the decompression fails, the connection is closed with status 1002.  Otherwise the check is
  made on the decompressed octets: a text message that is not valid UTF-8 closes the connection with
  status 1007, and the application sees the failure, not the message; every other message is delivered
  with exactly these octets, binary ones unchecked.
\<close>

theorem text_must_be_utf8:
  assumes "stream_env E live inbound outbound fits" and "conn_ready live c" and "sends_only c" and "c_on_message c"
  shows "case message_content E c payload compressed of
      None \<Rightarrow> failed_with E outbound c 1002 (snd (deliver_message E payload opc compressed c))
    | Some d \<Rightarrow>
        if opc = TEXT \<and> \<not> is_valid_utf8 d
        then failed_with E outbound c 1007 (snd (deliver_message E payload opc compressed c))
        else \<exists>c1. deliver_message E payload opc compressed c = (d, c1) \<and> conn_ready live c1 \<and>
               inbound (c_socket c1) = inbound (c_socket c) \<and> c_events c1 = c_events c @ [Ev_message d opc]"
proof (cases "message_content E c payload compressed")
  case None
  then obtain reason where r: "snd (deliver_message E payload opc compressed c) = fail_protocol E reason c" "length reason < 50"
    by (auto simp: message_content_def deliver_message_def split: if_splits)
  then have "length reason < 2 ^ 15" by simp
  from stream_env.closed_with_failed [OF assms(1) stream_env.fail_with_close_stream [OF assms(1-3) this]]
  show ?thesis using None by (simp add: r(1) fail_protocol_def)
next
  case (Some d)
  then have dl: "deliver_message E payload opc compressed c = deliver_message E d opc False c"
    by (auto simp: message_content_def deliver_message_def Let_def split: if_splits)
  show ?thesis
  proof (cases "opc = TEXT \<and> \<not> is_valid_utf8 d")
    case True
    have "length ''Invalid UTF-8 in text frame'' < 2 ^ 15" by simp
    from stream_env.closed_with_failed [OF assms(1) stream_env.fail_with_close_stream [OF assms(1-3) this], of 1007]
    show ?thesis using Some True unfolding dl by (auto simp: deliver_message_def)
  next
    case False
    then have "message_ok (opc, d)" by (auto simp: message_ok_def)
    from stream_env.deliver_plain [OF assms(1) this, of c]
      stream_env.fire_keeps [OF assms(1-3), of True True "Ev_message d opc"] False Some assms(4)
    show ?thesis unfolding dl by auto
  qed
qed

theorem text_must_be_utf8_witness:
  "failed_with mem_env (ls_stream mem_out) (mem_conn role_server (\<lambda>_. []) []) 1007
     (snd (deliver_message mem_env [0xC0, 0x80] TEXT False (mem_conn role_server (\<lambda>_. []) []))) \<and>
   failed_with mem_env (ls_stream mem_out) (mem_conn role_server (\<lambda>_. []) []) 1002
     (snd (deliver_message mem_env [72, 105] TEXT True (mem_conn role_server (\<lambda>_. []) [])))"
proof -
  have u: "\<not> is_valid_utf8 [0xC0, 0x80]" by code_simp
  have o: "sends_only (mem_conn role_server (\<lambda>_. []) [])" by (simp add: sends_only_def)
  have d: "\<not> c_permessage_deflate (mem_conn role_server (\<lambda>_. []) [])" by (simp add: mem_conn_def connection_new_def)
  show ?thesis
    using text_must_be_utf8 [OF mem_conn.stream_env_axioms mem_conn_ready o, where payload = "[0xC0, 0x80]" and compressed = False and opc = TEXT]
      text_must_be_utf8 [OF mem_conn.stream_env_axioms mem_conn_ready o, where payload = "[72, 105]" and compressed = True and opc = TEXT] u d
    by (auto simp: message_content_def)
qed

text \<open>
  C34: The payload buffer is not cleared for a frame without payload: an empty text message delivers the
  payload of the previous frame again instead of an empty message.
\<close>

theorem empty_message_delivers_stale_payload:
  assumes "stream_env E live inbound outbound fits" and "conn_ready live c" and "sends_only c" and "c_on_message c"
    and "inbound (c_socket c) = encode_frame True False TEXT key [] @ rest"
    and "key \<noteq> None \<longleftrightarrow> c_role c = role_server" and "\<forall>k. key = Some k \<longrightarrow> length k = 4" and "e_alloc E 0"
    and "\<not> c_fragmented c" and "\<not> c_message_compressed c"
    and "is_valid_utf8 (c_payload_buffer c)"
  shows "\<exists>c1. read_loop E c = read_loop E c1 \<and> conn_ready live c1 \<and>
    c_events c1 = c_events c @ [Ev_message (c_payload_buffer c) TEXT]"
proof -
  have l: "length ([] :: bytes) < 2 ^ 63" "e_alloc E (length ([] :: bytes))" "fits (length ([] :: bytes))"
    using assms(8) byte_stream.fits_small [OF stream_env.axioms [OF assms(1)], of 0] by simp_all
  obtain c1 k where c1: "read_loop E c = (if c_is_open (handle_frame E c1) then read_loop E (handle_frame E c1)
        else Some (Inr (handle_frame E c1)))" "received c c1" "conn_ready live c1"
      "inbound (c_socket c1) = rest" "outbound (c_socket c1) = outbound (c_socket c)"
      "c_current_header c1 = header_of True False TEXT (key \<noteq> None) (length ([] :: bytes)) k"
      "c_payload_buffer c1 = (if [] = ([] :: bytes) then c_payload_buffer c else [])"
    by (rule stream_env.read_loop_frame [OF assms(1,2,5) _ _ assms(6,7) l]) (auto simp: named_def)
  note r = receivedD [OF c1(2)]
  have st: "assemble (pending c1) [(TEXT, True, c_payload_buffer c)] = Some (None, [(TEXT, c_payload_buffer c)])"
    "list_all message_ok [(TEXT, c_payload_buffer c)]" "sends_only c1" "c_on_message c1" "\<not> c_message_compressed c1"
    using assms(3,4,9-11) r by (simp_all add: pending_def message_ok_def sends_only_def)
  have p: "c_payload_buffer c1 = c_payload_buffer c" using c1(7) by simp
  from stream_env.handle_data_frame [OF assms(1) st(1,2) c1(3) st(3-5) c1(6) p] show ?thesis
    using c1(1) r(5) by (auto simp: message_event_def conn_ready_def)
qed

theorem empty_message_delivers_stale_payload_witness:
  "\<exists>c1. read_loop mem_env (mem_conn role_server (\<lambda>_. []) [0x81, 0x80, 1, 2, 3, 4]\<lparr>c_payload_buffer := [72, 105]\<rparr>)
     = read_loop mem_env c1 \<and> c_events c1 = [Ev_message [72, 105] TEXT]"
proof -
  let ?c = "mem_conn role_server (\<lambda>_. []) [0x81, 0x80, 1, 2, 3, 4]\<lparr>c_payload_buffer := [72, 105]\<rparr>"
  have "conn_ready (ls_live mem_connected) ?c"
    using mem_conn_ready [of role_server "\<lambda>_. []" "[0x81, 0x80, 1, 2, 3, 4]"]
    by (simp add: conn_ready_def buffers_ok_def)
  moreover have "sends_only ?c" by (simp add: sends_only_def)
  moreover have "encode_frame True False TEXT (Some [1, 2, 3, 4]) [] = [0x81, 0x80, 1, 2, 3, 4]"
    by (simp add: encode_frame_def first_octet_def length_field_def)
  moreover have "is_valid_utf8 [72, 105]" by code_simp
  ultimately show ?thesis
    using empty_message_delivers_stale_payload [OF mem_conn.stream_env_axioms, of ?c "Some [1, 2, 3, 4]" "[]"]
    by (auto simp: mem_env_def)
qed

section \<open>Control frames\<close>

lemma close_code_octets:
  fixes code :: u16
  shows "push_bit 8 (ucast ((ucast (drop_bit 8 code)) :: u8)) OR ucast ((ucast code) :: u8) = code"
  by (intro bit_word_eqI) (auto simp: bit_simps)

lemma close_payload_Cons:
  "close_payload code reason = ucast (drop_bit 8 code) # ucast code # bytes_of_string reason"
  by (simp add: close_payload_def word_to_bytes_def upt_2)

lemma ping_frame_answered:
  assumes "stream_env E live inbound outbound fits" and "conn_ready live c"
    and "inbound (c_socket c) = encode_frame fin False PING key d @ rest"
    and "key \<noteq> None \<longleftrightarrow> c_role c = role_server" and "\<forall>k. key = Some k \<longrightarrow> length k = 4"
    and "e_alloc E (length d)" and "p = (if d = [] then c_payload_buffer c else d)"
    and "length p < 2 ^ 63" and "fits (length p + 14)"
  shows "\<exists>c1 key'. read_loop E c = read_loop E c1 \<and> conn_ready live c1 \<and> inbound (c_socket c1) = rest \<and>
    outbound (c_socket c1) = outbound (c_socket c) @ encode_frame True False PONG key' p \<and>
    (key' \<noteq> None \<longleftrightarrow> c_role c = role_client) \<and> c_events c1 = c_events c \<and> pending c1 = pending c"
proof -
  have d: "length d < 2 ^ 63" "fits (length d)"
    using assms(7,8) stream_env.payload_fits [OF assms(1,9)] byte_stream.fits_small [OF stream_env.axioms [OF assms(1)], of 0]
    by (auto split: if_splits)
  obtain c1 k where c1: "read_loop E c = (if c_is_open (handle_frame E c1) then read_loop E (handle_frame E c1)
        else Some (Inr (handle_frame E c1)))" "received c c1" "conn_ready live c1"
      "inbound (c_socket c1) = rest" "outbound (c_socket c1) = outbound (c_socket c)"
      "c_current_header c1 = header_of fin False PING (key \<noteq> None) (length d) k"
      "c_payload_buffer c1 = (if d = [] then c_payload_buffer c else d)"
    by (rule stream_env.read_loop_frame [OF assms(1-3) _ _ assms(4,5) d(1) assms(6) d(2)]) (auto simp: named_def)
  note r = receivedD [OF c1(2)]
  have len: "length p < 2 ^ 64" using assms(8) by simp
  have h: "stream_env.here live inbound outbound c1 rest (outbound (c_socket c))"
    using c1(3-5) by (simp add: stream_env.here_def [OF assms(1)] conn_ready_def)
  obtain c2 key' where c2: "locked_write E (build_frame PONG p True False c1) = (no_error, c2)" "touched c1 c2"
      "conn_ready live c2"
      "stream_env.here live inbound outbound c2 rest (outbound (c_socket c) @ encode_frame True False PONG key' p)"
      "c_events c2 = c_events c1" "key' \<noteq> None \<longleftrightarrow> c_role c1 = role_client"
    using stream_env.built_frame_sent [OF assms(1) c1(3) len h assms(9), of PONG True False] by blast
  have "handle_frame E c1 = c2"
    using c2(1) c1(3,6,7) assms(7)
    by (auto simp: handle_frame_def handle_ping_frame_def locked_write_def conn_ready_def emit_error_ec_def)
  moreover have "pending c2 = pending c" using touchedD [OF c2(2)] r by (simp add: pending_def)
  moreover have "inbound (c_socket c2) = rest"
      "outbound (c_socket c2) = outbound (c_socket c) @ encode_frame True False PONG key' p"
    using c2(4) by (simp_all add: stream_env.here_def [OF assms(1)])
  moreover have "c_is_open c2" using c2(3) by (simp add: conn_ready_def)
  ultimately show ?thesis using c1(1) c2(3,5,6) r(1,5)
    by (intro exI [of _ c2] exI [of _ key']) simp
qed

text \<open>
  C28: A ping is answered by one pong and nothing else: no callback runs, a message under assembly is
  untouched, and the reader goes on with the next frame.  The pong carries the payload of the ping, if
  that is not empty; a ping without payload is answered with the payload buffer as the previous frame left it.
\<close>

theorem ping_answered:
  assumes "stream_env E live inbound outbound fits" and "conn_ready live c"
    and "inbound (c_socket c) = encode_frame fin False PING key d @ rest"
    and "key \<noteq> None \<longleftrightarrow> c_role c = role_server" and "\<forall>k. key = Some k \<longrightarrow> length k = 4"
    and "e_alloc E (length d)" and "p = (if d = [] then c_payload_buffer c else d)"
    and "length p < 2 ^ 63" and "fits (length p + 14)"
  shows "\<exists>c1 key'. read_loop E c = read_loop E c1 \<and> conn_ready live c1 \<and> inbound (c_socket c1) = rest \<and>
    outbound (c_socket c1) = outbound (c_socket c) @ encode_frame True False PONG key' p \<and>
    (key' \<noteq> None \<longleftrightarrow> c_role c = role_client) \<and> c_events c1 = c_events c \<and> pending c1 = pending c"
  by (rule ping_frame_answered [OF assms])

theorem ping_answered_witness:
  "(\<exists>c1. read_loop mem_env (mem_conn role_client (\<lambda>_. []) [0x89, 2, 104, 105]) = read_loop mem_env c1 \<and>
     c_events c1 = [] \<and> ls_stream mem_in (c_socket c1) = []) \<and>
   (\<exists>c1. read_loop mem_env (mem_conn role_client (\<lambda>_. []) [0x89, 0]) = read_loop mem_env c1 \<and>
     c_events c1 = [] \<and> ls_stream mem_in (c_socket c1) = [])"
proof -
  have e: "encode_frame True False PING None [104, 105] = [0x89, 2, 104, 105]" "encode_frame True False PING None [] = [0x89, 0]"
    by (simp_all add: encode_frame_def first_octet_def length_field_def)
  have b: "c_payload_buffer (mem_conn role_client (\<lambda>_. []) [0x89, 0]) = []" by (simp add: mem_conn_def connection_new_def)
  show ?thesis
    using ping_answered [OF mem_conn.stream_env_axioms mem_conn_ready,
        of role_client "\<lambda>_. []" "[0x89, 2, 104, 105]" True None "[104, 105]" "[]"]
      ping_answered [OF mem_conn.stream_env_axioms mem_conn_ready,
        of role_client "\<lambda>_. []" "[0x89, 0]" True None "[]" "[]"] e b
    by (auto simp: mem_env_def)
qed

text \<open>
  The limits of RFC 6455, section 5.5, on control frames are not enforced.  A ping that is fragmented or
  longer than 125 octets has an illegal header, and yet the connection stays open, no callback reports
  it, and the answer is a pong with the whole payload, itself an illegal frame when that is longer than 125 octets.
\<close>

lemma illegal_ping_answered:
  assumes "stream_env E live inbound outbound fits" and "conn_ready live c"
    and "inbound (c_socket c) = encode_frame fin False PING key d @ rest"
    and "key \<noteq> None \<longleftrightarrow> c_role c = role_server" and "\<forall>k. key = Some k \<longrightarrow> length k = 4"
    and "e_alloc E (length d)" and "d \<noteq> []" and "length d < 2 ^ 63" and "fits (length d + 14)"
    and "\<not> fin \<or> 125 < length d"
  shows "\<not> header_legal (c_role c) (c_permessage_deflate c) (header_of fin False PING (key \<noteq> None) (length d) k) \<and>
    (\<exists>c1 key'. read_loop E c = read_loop E c1 \<and> conn_ready live c1 \<and> inbound (c_socket c1) = rest \<and>
       outbound (c_socket c1) = outbound (c_socket c) @ encode_frame True False PONG key' d \<and> c_events c1 = c_events c)"
proof -
  have "unat (of_nat (length d) :: u64) = length d" using assms(8) by (simp add: unat_of_nat)
  then have "\<not> control_legal (header_of fin False PING (key \<noteq> None) (length d) k)"
    using assms(10) by (auto simp: control_legal_def header_of_def)
  moreover have "d = (if d = [] then c_payload_buffer c else d)" using assms(7) by simp
  ultimately show ?thesis using ping_frame_answered [OF assms(1-6) _ assms(8,9)] by (auto simp: header_legal_def)
qed

lemma illegal_ping_answered_witness:
  "\<exists>c1 key. read_loop mem_env (mem_conn role_client (\<lambda>_. []) ([0x09, 126, 0, 200] @ replicate 200 7)) = read_loop mem_env c1 \<and>
     c_is_open c1 \<and> ls_stream mem_out (c_socket c1) = encode_frame True False PONG key (replicate 200 7)"
proof -
  have e: "encode_frame False False PING None (replicate 200 7) = [0x09, 126, 0, 200] @ replicate 200 7"
    by (simp add: encode_frame_def first_octet_def length_field_def be_bytes_def word_to_bytes_def upt_2)
  let ?c = "mem_conn role_client (\<lambda>_. []) ([0x09, 126, 0, 200] @ replicate 200 7)"
  have "ls_stream mem_in (c_socket ?c) = encode_frame False False PING None (replicate 200 7) @ []" by (simp add: e)
  from illegal_ping_answered [OF mem_conn.stream_env_axioms mem_conn_ready this, where k = "[]"]
  obtain c1 key where "read_loop mem_env ?c = read_loop mem_env c1" "conn_ready (ls_live mem_connected) c1"
      "ls_stream mem_out (c_socket c1) = ls_stream mem_out (c_socket ?c) @ encode_frame True False PONG key (replicate 200 7)"
    by (auto simp: mem_env_def)
  then show ?thesis by (auto simp: conn_ready_def)
qed

text \<open>
  C29: A close frame is answered by a close frame that echoes its status code (1002 when the code may not
  appear on the wire), \<open>on_close_\<close> is called once with the code and the reason, and the reader stops.
\<close>

theorem close_answered:
  assumes "stream_env E live inbound outbound fits" and "conn_ready live c"
    and "inbound (c_socket c) = encode_frame fin False CLOSE key (close_payload code reason) @ rest"
    and "key \<noteq> None \<longleftrightarrow> c_role c = role_server" and "\<forall>k. key = Some k \<longrightarrow> length k = 4"
    and "length reason < 2 ^ 62" and "e_alloc E (length reason + 2)" and "fits (length reason + 2)"
  shows "\<exists>c1 key'. read_loop E c = Some (Inr c1) \<and> \<not> c_is_open c1 \<and>
    outbound (c_socket c1) = outbound (c_socket c) @
      encode_frame True False CLOSE key' (close_payload (if is_valid_close_code code then code else 1002) []) \<and>
    c_events c1 = c_events c @
      (if c_on_close c then [Ev_close (if is_valid_close_code code then code else 1002) reason] else [])"
proof -
  define st where "st = (if is_valid_close_code code then code else 1002)"
  let ?p = "close_payload code reason"
  have p: "length ?p < 2 ^ 63" "e_alloc E (length ?p)" "fits (length ?p)" using assms(6-8) by (simp_all add: close_payload_Cons)
  obtain c1 k where c1: "read_loop E c = (if c_is_open (handle_frame E c1) then read_loop E (handle_frame E c1)
        else Some (Inr (handle_frame E c1)))" "received c c1" "conn_ready live c1"
      "inbound (c_socket c1) = rest" "outbound (c_socket c1) = outbound (c_socket c)"
      "c_current_header c1 = header_of fin False CLOSE (key \<noteq> None) (length ?p) k"
      "c_payload_buffer c1 = (if ?p = [] then c_payload_buffer c else ?p)"
    by (rule stream_env.read_loop_frame [OF assms(1-3) _ _ assms(4,5) p]) (auto simp: named_def)
  note r = receivedD [OF c1(2)]
  have buf: "c_payload_buffer c1 = ucast (drop_bit 8 code) # ucast code # bytes_of_string reason"
    using c1(7) by (simp add: close_payload_Cons)
  let ?c2 = "build_close_frame st [] (c1\<lparr>c_expecting_close := True\<rparr>)"
  have b: "buffers_ok (c1\<lparr>c_expecting_close := True\<rparr>)" "live (c_socket ?c2)"
    using c1(3) by (auto simp: conn_ready_def buffers_ok_def)
  obtain key' where key': "c_outbound_frame ?c2 = encode_frame True False CLOSE key' (close_payload st [])"
      "fits (length (c_outbound_frame ?c2))"
    using stream_env.close_frame_built [OF assms(1) b(1), of "[]" st]
      byte_stream.fits_small [OF stream_env.axioms [OF assms(1)], of 16] by auto
  obtain s where s: "write_frame E ?c2 = (no_error, ?c2\<lparr>c_socket := s\<rparr>)"
      "outbound s = outbound (c_socket ?c2) @ c_outbound_frame ?c2"
    using stream_env.write_frame_stream [OF assms(1) b(2) key'(2)] by blast
  have t: "touched (c1\<lparr>c_expecting_close := True\<rparr>) ?c2" by simp
  have h: "handle_frame E c1 = log_event (c_on_close c) (Ev_close st reason)
      (?c2\<lparr>c_socket := s, c_is_open := False\<rparr>)"
    using s(1) c1(6) buf r(11) touchedD(15) [OF t]
    by (cases "is_valid_close_code code")
       (simp_all add: handle_frame_def handle_close_frame_def close_code_octets fire_not_open Let_def st_def)
  show ?thesis unfolding st_def [symmetric] using c1(1,5) r(5) s(2) key'(1)
    by (auto simp: h log_event_def)
qed

theorem close_answered_witness:
  "\<exists>c1. read_loop mem_env (mem_conn role_client (\<lambda>_. []) [0x88, 4, 3, 232, 111, 107]) = Some (Inr c1) \<and>
     c_events c1 = [Ev_close 1000 ''ok'']"
proof -
  have b: "bytes_of_string ''ok'' = [111, 107]" by (simp add: bytes_of_string_def of_char_def)
  have e: "encode_frame True False CLOSE None (close_payload 1000 ''ok'') = [0x88, 4, 3, 232, 111, 107]"
    by (simp add: encode_frame_def first_octet_def length_field_def close_payload_Cons b drop_bit_eq_div)
  show ?thesis
    using close_answered [OF mem_conn.stream_env_axioms mem_conn_ready,
        of role_client "\<lambda>_. []" "[0x88, 4, 3, 232, 111, 107]" True None 1000 "''ok''" "[]"] e
    by (auto simp: mem_env_def is_valid_close_code_def)
qed

text \<open>
  C35: A violation of the protocol can be reported to \<open>on_close_\<close> twice.  When the connection fails,
  \<open>on_error_\<close> runs first, on a connection that is still open; if it calls \<open>close\<close>, that closes the
  connection and calls \<open>on_close_\<close> with the code given there, and \<open>fail_with_close\<close> then calls \<open>on_close_\<close> a
  second time, with the code of the failure, although no close frame with that code was sent.
\<close>

theorem close_reported_twice:
  assumes "c_is_open c" and "\<not> c_is_closing c" and "c_on_error c" and "c_on_close c" and "is_valid_close_code st"
    and "c_react c (c_events c @ [Ev_error (Err_text reason)]) = [Call_close st txt]"
  shows "c_events (fail_with_close E code reason c) =
      c_events c @ [Ev_error (Err_text reason), Ev_close st txt, Ev_close code reason] \<and>
    c_outbound_frame (fail_with_close E code reason c) =
      c_outbound_frame (build_close_frame st txt (c\<lparr>c_is_closing := True\<rparr>))"
proof -
  let ?c1 = "log_event True (Ev_error (Err_text reason)) c"
  let ?c2 = "close E True st txt ?c1"
  have e: "emit_error E True reason c = ?c2"
    using assms(3,6) by (simp add: emit_error_def fire_def log_event_def)
  have o1: "c_is_open ?c1" "\<not> c_is_closing ?c1" "c_on_close ?c1" using assms(1,2,4) by (simp_all add: log_event_def)
  have o2: "\<not> c_is_open ?c2" by (rule close_flags(1) [OF o1(1,2)])
  have f: "c_outbound_frame (build_close_frame st txt (?c1\<lparr>c_is_closing := True\<rparr>)) =
      c_outbound_frame (build_close_frame st txt (c\<lparr>c_is_closing := True\<rparr>))"
    by (simp add: build_close_frame_def log_event_def outbound_mask_def case_prod_unfold Let_def)
  have ev: "c_events ?c2 = c_events c @ [Ev_error (Err_text reason), Ev_close st txt]"
    using close_events [OF o1(1,2), of E True st "txt"] o1(3) assms(5) by (simp add: wake_events_def log_event_def)
  have fr: "c_outbound_frame ?c2 = c_outbound_frame (build_close_frame st txt (?c1\<lparr>c_is_closing := True\<rparr>))"
    using o1 assms(5) by (simp add: close_def log_event_def close_socket_def write_frame_def case_prod_unfold Let_def)
  have "c_on_close (close_socket E ?c2)" using touchedD(15) [OF close_touched [of ?c1 E True st "txt"]] o1(3)
    by (simp add: close_socket_def)
  then show ?thesis using e o2 ev fr f
    by (simp add: fail_with_close_def Let_def fire_not_open close_socket_def log_event_def)
qed

theorem close_reported_twice_witness:
  "c_events (fail_with_close mem_env 1002 ''Invalid frame opcode'' (mem_conn role_server (\<lambda>_. [Call_close 1000 []]) [])) =
     [Ev_error (Err_text ''Invalid frame opcode''), Ev_close 1000 [], Ev_close 1002 ''Invalid frame opcode'']"
proof -
  have "is_valid_close_code 1000" by code_simp
  then show ?thesis
    using close_reported_twice [of "mem_conn role_server (\<lambda>_. [Call_close 1000 []]) []" 1000 "''Invalid frame opcode''" "[]" mem_env 1002]
    by simp
qed

end
