(* ===== verification/Lifecycle.thy ===== *)
theory Lifecycle
  imports Protocol
begin

text \<open>
  The life of a connection: the reader thread ends, what the end of the stream and an oversized frame
  do, what \<open>close\<close> leaves behind, and which invariants hold between the steps of the application and
  of the reader.
\<close>

section \<open>The reader terminates\<close>

context stream_env
begin

text \<open>\<open>keeps c c'\<close>: if \<open>c'\<close> is open, so was \<open>c\<close>, and the stream still stands where it stood.\<close>

definition keeps :: "'s connection \<Rightarrow> 's connection \<Rightarrow> bool" where
  "keeps c c' \<longleftrightarrow> (c_is_open c' \<longrightarrow> c_is_open c \<and>
     (live (c_socket c) \<longrightarrow> live (c_socket c') \<and> inbound (c_socket c') = inbound (c_socket c)))"

lemma keeps_refl [simp, intro]: "keeps c c"
  by (simp add: keeps_def)

lemma keeps_trans [trans]: "keeps c c1 \<Longrightarrow> keeps c1 c2 \<Longrightarrow> keeps c c2"
  by (auto simp: keeps_def)

lemma keeps_closed [simp]: "\<not> c_is_open c' \<Longrightarrow> keeps c c'"
  by (simp add: keeps_def)

lemma keeps_same: "c_is_open c' = c_is_open c \<Longrightarrow> c_socket c' = c_socket c \<Longrightarrow> keeps c c'"
  by (simp add: keeps_def)

lemma keeps_write [simp]: "keeps c (snd (write_frame E c))"
  using write_frame_some [of c] by (cases "live (c_socket c)") (auto simp: keeps_def)

lemma keeps_locked_write [simp]: "keeps c (snd (locked_write E c))"
  by (simp add: locked_write_def)

lemma keeps_build [simp]: "keeps c (build_frame opc data fin rsv1 c)"
  by (simp add: keeps_same)

lemma keeps_locked_build [simp]: "keeps c (snd (locked_write E (build_frame opc data fin rsv1 c)))"
  by (rule keeps_trans [OF keeps_build keeps_locked_write])

lemma keeps_send_data_frame [simp]: "keeps c (snd (send_data_frame E opc data fin c))"
  by (auto simp: send_data_frame_def prepare_data_frame_def split: option.splits)

lemma keeps_run_call [simp]: "keeps c (run_call E r a c)"
proof (cases a)
  case (Call_close st reason)
  show ?thesis
  proof (cases "c_is_open c \<and> \<not> c_is_closing c")
    case True
    then show ?thesis using close_flags [of c E r st reason] Call_close by simp
  next
    case False
    then show ?thesis using Call_close by (auto simp: close_def)
  qed
qed (auto simp: send_text_def send_binary_def send_continuation_def send_ping_def)

lemma keeps_run_calls [simp]: "keeps c (run_calls E r as c)"
  by (induction as arbitrary: c) (auto intro: keeps_trans [OF keeps_run_call])

lemma keeps_fire [simp]: "keeps c (fire E r b ev c)"
proof -
  have "keeps c (log_event True ev c)" by (simp add: keeps_same log_event_def)
  then show ?thesis unfolding fire_def by (auto simp: Let_def intro: keeps_trans)
qed

lemma keeps_emit_error [simp]: "keeps c (emit_error_ec E r ec c)"
  by (simp add: emit_error_ec_def)

lemma keeps_deliver [simp]: "keeps c (snd (deliver_message E payload opc compressed c))"
  by (auto simp: deliver_message_def Let_def split: option.splits)

lemma keeps_handle_frame [simp]: "keeps c (handle_frame E c)"
proof -
  have close: "keeps c (handle_close_frame E c)"
    by (simp add: handle_close_frame_def Let_def fire_not_open log_event_def)
  have ping: "keeps c (handle_ping_frame E c)"
    by (auto simp: handle_ping_frame_def Let_def case_prod_unfold
        intro!: keeps_trans [OF keeps_build keeps_trans [OF keeps_write keeps_emit_error]])
  have cont: "keeps c (reset_fragment_state (snd (deliver_message E p opc b (c\<lparr>c_message_buffer := m\<rparr>))))"
    for p opc b m
  proof -
    have "keeps c (c\<lparr>c_message_buffer := m\<rparr>)" by (simp add: keeps_same)
    also have "keeps \<dots> (snd (deliver_message E p opc b (c\<lparr>c_message_buffer := m\<rparr>)))" by simp
    also have "keeps \<dots> (reset_fragment_state \<dots>)" by (simp add: keeps_same reset_fragment_state_def)
    finally show ?thesis .
  qed
  have whole: "keeps c (snd (deliver_message E p opc b c)\<lparr>c_payload_buffer := q\<rparr>)" for p opc b q
    by (rule keeps_trans [OF keeps_deliver [of c p opc b]]) (simp add: keeps_same)
  show ?thesis
    by (auto simp: handle_frame_def Let_def case_prod_unfold close ping cont whole keeps_same)
qed

lemma validate_keeps: "fst (validate_frame_header E c) \<Longrightarrow> snd (validate_frame_header E c) = c"
  "\<not> fst (validate_frame_header E c) \<Longrightarrow> \<not> c_is_open (snd (validate_frame_header E c))"
  using validate_verdict [of E c] by auto

text \<open>\<open>reads c c1\<close>: octets may have been taken from the stream, nothing else happened to it.\<close>

definition reads :: "'s connection \<Rightarrow> 's connection \<Rightarrow> bool" where
  "reads c c1 \<longleftrightarrow> c_is_open c1 = c_is_open c \<and> live (c_socket c1) \<and>
     length (inbound (c_socket c1)) \<le> length (inbound (c_socket c))"

lemma read_exact_cases:
  assumes "live (c_socket c)" and "0 < n"
  obtains s buf' where "read_exact E buf n c = (True, buf', no_error, c\<lparr>c_socket := s\<rparr>)" and "live s"
      and "length (inbound s) + n = length (inbound (c_socket c))"
  | buf' ec c1 where "read_exact E buf n c = (False, buf', ec, c1)" and "failed ec"
proof -
  obtain got ec s where r: "tr_read (e_tr E) (c_socket c) n = (got, ec, s)" by (cases "tr_read (e_tr E) (c_socket c) n")
  show ?thesis
  proof (cases "failed ec")
    case True
    then show ?thesis using r by (intro that(2)) (auto simp: read_exact_def)
  next
    case False
    then have "ec = no_error" "length got = n" "live s" "inbound (c_socket c) = got @ inbound s"
      using read_sound [OF assms r] by simp_all
    then show ?thesis using r by (intro that(1) [of "overwrite buf 0 got" s]) (auto simp: read_exact_def)
  qed
qed

lemma read_extended_length_cases:
  assumes "live (c_socket c)"
  obtains ec c1 where "read_extended_length E c = (True, ec, c1)" and "\<not> failed ec" and "reads c c1"
  | ec c1 where "read_extended_length E c = (False, ec, c1)" and "failed ec"
proof -
  let ?len = "fh_payload_len (c_current_header c)"
  consider "?len = 126" | "?len = 127" | "?len \<noteq> 126" "?len \<noteq> 127" by blast
  then show ?thesis
  proof cases
    case 1
    show ?thesis
      by (rule read_exact_cases [OF assms, of 2 "c_ext_payload_buffer c"])
         (use 1 in \<open>auto simp: read_extended_length_def reads_def intro: that\<close>)
  next
    case 2
    show ?thesis
      by (rule read_exact_cases [OF assms, of 8 "c_ext_payload_buffer c"])
         (use 2 in \<open>auto simp: read_extended_length_def reads_def intro: that\<close>)
  next
    case 3
    then show ?thesis using assms by (intro that(1) [of no_error c]) (auto simp: read_extended_length_def reads_def)
  qed
qed

lemma read_masking_key_cases:
  assumes "live (c_socket c)" and "\<not> failed ec0"
  obtains ec c1 where "read_masking_key E ec0 c = (True, ec, c1)" and "\<not> failed ec" and "reads c c1"
  | ec c1 where "read_masking_key E ec0 c = (False, ec, c1)" and "failed ec"
proof (cases "fh_mask (c_current_header c)")
  case True
  show ?thesis
    by (rule read_exact_cases [OF assms(1), of 4 "c_masking_key_buffer c"])
       (use True in \<open>auto simp: read_masking_key_def reads_def intro: that\<close>)
next
  case False
  then show ?thesis using assms by (intro that(1) [of ec0 c]) (auto simp: read_masking_key_def reads_def)
qed

text \<open>What is left of the stream after a step that keeps the connection open.\<close>

definition no_more_than :: "'s connection \<Rightarrow> error_code \<times> 's connection \<Rightarrow> bool" where
  "no_more_than c r \<longleftrightarrow> failed (fst r) \<or> (c_is_open (snd r) \<longrightarrow> c_is_open c \<and> live (c_socket (snd r)) \<and>
     length (inbound (c_socket (snd r))) \<le> length (inbound (c_socket c)))"

lemma no_more_than_handle:
  "reads c c1 \<Longrightarrow> keeps c1 c2 \<Longrightarrow> no_more_than c (ec, c2)"
  by (auto simp: no_more_than_def reads_def keeps_def)

lemma reads_update:
  "reads c c1 \<Longrightarrow> reads c (c1\<lparr>c_payload_buffer := b\<rparr>)"
  by (simp add: reads_def)

lemma read_payload_no_more:
  assumes "live (c_socket c)" and "read_payload E c = Inr r"
  shows "no_more_than c r"
proof (cases "fh_payload_len (c_current_header c) = 0")
  case True
  then have "r = (no_error, handle_frame E c)" using assms(2) by (simp add: read_payload_def)
  moreover have "reads c c" using assms(1) by (simp add: reads_def)
  ultimately show ?thesis by (simp add: no_more_than_handle)
next
  case False
  let ?n = "unat (fh_payload_len (c_current_header c))"
  obtain buf where buf: "vec_resize (e_alloc E) ?n (c_payload_buffer c) = Inr buf"
    using False assms(2) by (auto simp: read_payload_def split: sum.splits)
  then have "length buf = ?n" by (auto simp: vec_resize_def split: if_splits option.splits)
  then have pos: "0 < length buf" using False by (simp add: unat_gt_0)
  show ?thesis
  proof (rule read_exact_cases [OF assms(1) pos, of buf])
    fix s buf'
    assume a: "read_exact E buf (length buf) c = (True, buf', no_error, c\<lparr>c_socket := s\<rparr>)" "live s"
      "length (inbound s) + length buf = length (inbound (c_socket c))"
    then obtain b where r: "r = (no_error, handle_frame E (c\<lparr>c_socket := s, c_payload_buffer := b\<rparr>))"
      using assms(2) False buf by (auto simp: read_payload_def Let_def split: if_splits)
    have "reads c (c\<lparr>c_socket := s, c_payload_buffer := b\<rparr>)" using a by (simp add: reads_def)
    then show ?thesis unfolding r by (rule no_more_than_handle) simp
  next
    fix buf' ec c1
    assume "read_exact E buf (length buf) c = (False, buf', ec, c1)" "failed ec"
    then show ?thesis using assms(2) False buf by (auto simp: read_payload_def no_more_than_def)
  qed
qed

lemma no_more_than_trans: "reads c c1 \<Longrightarrow> no_more_than c1 r \<Longrightarrow> no_more_than c r"
  by (auto simp: no_more_than_def reads_def)

lemma reads_trans: "reads c c1 \<Longrightarrow> reads c1 c2 \<Longrightarrow> reads c c2"
  by (simp add: reads_def)

lemma parse_header_no_more:
  assumes "live (c_socket c)" and "parse_header E c = Inr r"
  shows "no_more_than c r"
proof -
  let ?h = "decode_first_octets (c_header_buffer c ! 0) (c_header_buffer c ! 1) (c_current_header c)"
  let ?c0 = "c\<lparr>c_current_header := ?h\<rparr>"
  have r0: "reads c ?c0" and l0: "live (c_socket ?c0)" using assms(1) by (auto simp: reads_def)
  show ?thesis
  proof (rule read_extended_length_cases [OF l0])
    fix ec c1
    assume e: "read_extended_length E ?c0 = (False, ec, c1)" "failed ec"
    then show ?thesis using assms(2) by (auto simp: parse_header_def no_more_than_def)
  next
    fix ec c1
    assume e: "read_extended_length E ?c0 = (True, ec, c1)" "\<not> failed ec" "reads ?c0 c1"
    then have l1: "live (c_socket c1)" and r1: "reads c c1" using reads_trans [OF r0] by (auto simp: reads_def)
    show ?thesis
    proof (rule read_masking_key_cases [OF l1 e(2)])
      fix ec' c2
      assume "read_masking_key E ec c1 = (False, ec', c2)" "failed ec'"
      then show ?thesis using assms(2) e(1) by (auto simp: parse_header_def no_more_than_def)
    next
      fix ec' c2
      assume k: "read_masking_key E ec c1 = (True, ec', c2)" "\<not> failed ec'" "reads c1 c2"
      then have l2: "live (c_socket c2)" and r2: "reads c c2" using reads_trans [OF r1] by (auto simp: reads_def)
      have p: "parse_header E c = (if fst (validate_frame_header E c2) then read_payload E c2
          else Inr (ec', snd (validate_frame_header E c2)))"
        using e(1) k(1) validate_keeps(1) [of c2] by (simp add: parse_header_def case_prod_unfold)
      show ?thesis
      proof (cases "fst (validate_frame_header E c2)")
        case True
        then show ?thesis
          using no_more_than_trans [OF r2 read_payload_no_more [OF l2]] assms(2) p by simp
      next
        case False
        then show ?thesis using assms(2) p validate_keeps(2) [OF False] by (auto simp: no_more_than_def)
      qed
    qed
  qed
qed

text \<open>Each frame that leaves the connection open has consumed at least its two fixed octets.\<close>

lemma read_one_frame_progress:
  assumes "c_is_open c" and "live (c_socket c)" and "read_one_frame E c = Inr (True, c1)"
  shows "c_is_open c1 \<and> live (c_socket c1) \<and> length (inbound (c_socket c1)) < length (inbound (c_socket c))"
proof (rule read_exact_cases [OF assms(2), of 2 "c_header_buffer c"])
  show "0 < (2 :: nat)" by simp
next
  fix s buf'
  assume h: "read_exact E (c_header_buffer c) 2 c = (True, buf', no_error, c\<lparr>c_socket := s\<rparr>)" "live s"
    "length (inbound s) + 2 = length (inbound (c_socket c))"
  let ?c0 = "c\<lparr>c_socket := s, c_header_buffer := buf'\<rparr>"
  obtain ec where p: "parse_header E ?c0 = Inr (ec, c1)" "\<not> failed ec" "c_is_open c1"
    using assms(1,3) h(1) by (auto simp: read_one_frame_def split: sum.splits if_splits)
  have "live (c_socket ?c0)" using h(2) by simp
  from parse_header_no_more [OF this p(1)] show ?thesis using p(2,3) h(3) by (auto simp: no_more_than_def)
next
  fix buf' ec c2
  assume "read_exact E (c_header_buffer c) 2 c = (False, buf', ec, c2)" "failed ec"
  then show ?thesis using assms(1,3) by (auto simp: read_one_frame_def)
qed

lemma read_loop_total:
  assumes "c_is_open c \<Longrightarrow> live (c_socket c)"
  shows "\<exists>r. read_loop E c = Some r"
  using assms
proof (induction "length (inbound (c_socket c))" arbitrary: c rule: less_induct)
  case less
  show ?case
  proof (cases "c_is_open c \<and> \<not> c_is_closing c")
    case False
    then show ?thesis by (auto simp: read_loop.simps [of E c])
  next
    case True
    show ?thesis
    proof (cases "\<exists>c1. read_one_frame E c = Inr (True, c1)")
      case False
      then show ?thesis using True
        by (auto simp: read_loop.simps [of E c] split: sum.splits prod.splits)
    next
      case frame: True
      then obtain c1 where c1: "read_one_frame E c = Inr (True, c1)" by blast
      have "length (inbound (c_socket c1)) < length (inbound (c_socket c))" "live (c_socket c1)"
        using read_one_frame_progress [OF _ less.prems c1] True by auto
      from less.hyps [OF this(1)] this(2) True c1 show ?thesis by (auto simp: read_loop.simps [of E c])
    qed
  qed
qed

end



section \<open>The end of the stream and oversized frames\<close>

lemma run_call_events: "\<not> is_close_call a \<Longrightarrow> c_events (run_call E r a c) = c_events c"
  by (cases a) (simp_all add: is_close_call_def send_text_def send_binary_def send_continuation_def)

lemma run_calls_events: "list_all (\<lambda>a. \<not> is_close_call a) as \<Longrightarrow> c_events (run_calls E r as c) = c_events c"
  by (induction as arbitrary: c) (simp_all add: run_call_events)

lemma fire_events: "sends_only c \<Longrightarrow> c_events (fire E r b ev c) = c_events c @ (if b then [ev] else [])"
  by (simp add: fire_def log_event_def run_calls_events sends_only_def)

lemma read_frame_at_end:
  assumes "stream_env E live inbound outbound fits" and "conn_ready live c" and "sends_only c"
    and "length (inbound (c_socket c)) < 2"
  shows "\<exists>c1 ec. read_one_frame E c = Inr (False, c1) \<and> \<not> c_is_open c1 \<and> failed ec \<and>
    c_events c1 = c_events c @ (if c_on_error c then [Ev_error (Err_code ec)] else [])"
proof -
  have c: "c_is_open c" "live (c_socket c)" using assms(2) by (auto simp: conn_ready_def)
  have bs: "byte_stream (e_tr E) live inbound outbound fits" using assms(1) by (rule stream_env.axioms)
  obtain got ec s where r: "tr_read (e_tr E) (c_socket c) 2 = (got, ec, s)" "failed ec"
    using byte_stream.read_eof [OF bs c(2) assms(4)] by blast
  let ?d = "c\<lparr>c_socket := s, c_header_buffer := overwrite (c_header_buffer c) 0 got\<rparr>"
  let ?c1 = "(emit_error_ec E True ec ?d)\<lparr>c_is_open := False\<rparr>"
  have "read_one_frame E c = Inr (False, ?c1)"
    using c(1) r by (simp add: read_one_frame_def read_exact_def)
  moreover have "sends_only ?d" using assms(3) by (simp add: sends_only_def)
  ultimately show ?thesis using r(2) fire_events [of ?d]
    by (intro exI [of _ ?c1] exI [of _ ec]) (simp add: emit_error_ec_def)
qed

lemma stream_end_result:
  assumes "stream_env E live inbound outbound fits" and "conn_ready live c" and "sends_only c"
    and "length (inbound (c_socket c)) < 2"
  shows "\<exists>c1 ec. read_loop E c = Some (Inr c1) \<and> \<not> c_is_open c1 \<and> failed ec \<and>
    c_events c1 = c_events c @ (if c_on_error c then [Ev_error (Err_code ec)] else [])"
  using read_frame_at_end [OF assms] assms(2)
  by (auto simp: conn_ready_def read_loop.simps [of E c])

text \<open>
  C40: When the peer's stream ends between frames, without a close frame, the reader stops and the
  connection is no longer open; the application hears of it through \<open>on_error_\<close> only: \<open>on_close_\<close> is
  not called.
\<close>

theorem stream_end_reports_error_only:
  assumes "stream_env E live inbound outbound fits" and "conn_ready live c" and "sends_only c"
    and "length (inbound (c_socket c)) < 2"
  shows "\<exists>c1 ec. read_loop E c = Some (Inr c1) \<and> \<not> c_is_open c1 \<and> failed ec \<and>
    c_events c1 = c_events c @ (if c_on_error c then [Ev_error (Err_code ec)] else [])"
  by (rule stream_end_result [OF assms])

theorem stream_end_reports_error_only_witness:
  "\<exists>c1 ec. read_loop mem_env (mem_conn role_server (\<lambda>_. []) [0x81]) = Some (Inr c1) \<and> \<not> c_is_open c1 \<and>
     c_events c1 = [Ev_error (Err_code ec)]"
  using stream_end_reports_error_only [OF mem_conn.stream_env_axioms mem_conn_ready,
      of role_server "\<lambda>_. []" "[0x81]"]
  by (auto simp: sends_only_def)

text \<open>
  C33: The 64-bit payload length is used unchecked to size the payload buffer: a header that announces
  \<open>2 ^ 63\<close> octets or more makes \<open>resize\<close> throw on the reader thread, where nothing catches it, so
  ten octets (and a key) from the peer end the process.
\<close>

theorem oversized_frame_throws:
  assumes "stream_env E live inbound outbound fits" and "conn_ready live c"
    and "2 ^ 63 \<le> n" and "n < 2 ^ 64" and "length (c_payload_buffer c) < 2 ^ 63"
    and "m \<longleftrightarrow> c_role c = role_server" and "m \<longrightarrow> length k = 4"
    and "inbound (c_socket c) = (first_octet True False BINARY # length_field m n) @ (if m then k else []) @ rest"
  shows "read_loop E c = Some (Inl length_error)"
proof -
  have c: "c_is_open c" "\<not> c_is_closing c" "buffers_ok c" using assms(2) by (auto simp: conn_ready_def)
  have h: "stream_env.here live inbound outbound c
      ((first_octet True False BINARY # length_field m n) @ (if m then k else []) @ rest) (outbound (c_socket c))"
    using assms(2,8) by (simp add: stream_env.here_def [OF assms(1)] conn_ready_def)
  obtain c1 where c1: "read_one_frame E c = stream_env.frame_result E (read_payload E c1)"
      "c_payload_buffer c1 = c_payload_buffer c" "\<exists>k. c_current_header c1 = header_of True False BINARY m n k"
    using stream_env.read_header_encoded [OF assms(1) c(1,3) h _ _ assms(6) _ assms(4)] assms(7)
    by (auto simp: named_def)
  have u: "unat (of_nat n :: u64) = n" using assms(4) by (simp add: unat_of_nat)
  then have nz: "(of_nat n :: u64) \<noteq> 0" using assms(3) by (metis not_less_iff_gr_or_eq unat_0 zero_less_power
      zero_less_numeral order_less_le_trans)
  have "vec_resize (e_alloc E) n (c_payload_buffer c) = Inl length_error"
    using assms(3,5) by (simp add: vec_resize_def vec_reserve_def)
  then have "read_payload E c1 = Inl length_error" using c1(2,3) u nz by (auto simp: read_payload_def)
  then have "read_one_frame E c = Inl length_error"
    using c1(1) by (simp add: stream_env.frame_result_def [OF assms(1)])
  then show ?thesis using c by (simp add: read_loop.simps [of E c])
qed

theorem oversized_frame_throws_witness:
  "read_loop mem_env (mem_conn role_client (\<lambda>_. []) ([0x82, 127] @ be_bytes 8 (2 ^ 63))) = Some (Inl length_error)"
  by (rule oversized_frame_throws [OF mem_conn.stream_env_axioms mem_conn_ready, where n = "2 ^ 63" and m = False and
        k = "[]" and rest = "[]"])
     (simp_all add: first_octet_def length_field_def)

section \<open>Closing\<close>

lemma is_valid_close_code_iff:
  "is_valid_close_code code \<longleftrightarrow>
     unat code \<in> {1000..1003} \<or> unat code \<in> {1007..1011} \<or> unat code \<in> {3000..4999}"
  by (auto simp: is_valid_close_code_def word_le_nat_alt word_less_nat_alt)

text \<open>
  C15: \<open>close\<close> sends one close frame, with status 1000 in place of a code that may not appear on the wire
  (only 1000--1003, 1007--1011 and 3000--4999 may), closes the socket, joins the reader when called from
  another thread and calls \<open>on_close_\<close> once, as the last callback.  Before it, if the reader thread was waiting in
  a read, that read fails because the socket is closed, and the reader reports the error to \<open>on_error_\<close>; no
  other callback is made.  After that no call of the API and no read has any effect.
\<close>

theorem close_is_final:
  fixes E :: "'s env" and c :: "'s connection" and code :: u16 and in_reader :: bool
  assumes "stream_env E live inbound outbound fits" and "conn_ready live c" and "length reason < 2 ^ 63"
    and "fits (length reason + 16)"
  defines "st \<equiv> if unat code \<in> {1000..1003} \<or> unat code \<in> {1007..1011} \<or> unat code \<in> {3000..4999}
                then code else 1000"
  defines "c1 \<equiv> close E in_reader code reason c"
  shows "\<not> c_is_open c1 \<and>
    c_events c1 = c_events c @
      (if c_reader_thread c \<and> \<not> in_reader \<and> c_on_error c
       then case e_wake E (c_events c) of
              Some ec \<Rightarrow> if failed ec then [Ev_error (Err_code ec)] else [] | None \<Rightarrow> []
       else []) @
      (if c_on_close c then [Ev_close st reason] else []) \<and>
    (\<exists>s key. c_socket c1 = tr_close (e_tr E) s \<and>
       outbound s = outbound (c_socket c) @ encode_frame True False CLOSE key (close_payload st reason)) \<and>
    (\<not> in_reader \<longrightarrow> \<not> c_reader_thread c1) \<and>
    run_calls E r as c1 = c1 \<and> read_one_frame E c1 = Inr (False, c1) \<and> read_loop E c1 = Some (Inr c1)"
proof -
  have c: "c_is_open c" "\<not> c_is_closing c" "live (c_socket c)" "buffers_ok c"
    using assms(2) by (auto simp: conn_ready_def)
  have st: "(if \<not> is_valid_close_code code then 1000 else code) = st"
    by (simp add: st_def is_valid_close_code_iff)
  let ?c0 = "c\<lparr>c_is_closing := True\<rparr>"
  let ?c2 = "build_close_frame st reason ?c0"
  have b: "buffers_ok ?c0" "live (c_socket ?c2)" using c by (simp_all add: buffers_ok_def)
  obtain key where key: "c_outbound_frame ?c2 = encode_frame True False CLOSE key (close_payload st reason)"
      "fits (length (c_outbound_frame ?c2))"
    using stream_env.close_frame_built [OF assms(1) b(1) assms(3)] assms(4) by blast
  obtain s where s: "write_frame E ?c2 = (no_error, ?c2\<lparr>c_socket := s\<rparr>)"
      "outbound s = outbound (c_socket ?c2) @ c_outbound_frame ?c2"
    using stream_env.write_frame_stream [OF assms(1) b(2) key(2)] by blast
  let ?cs = "close_socket E (?c2\<lparr>c_socket := s\<rparr>)"
  let ?c3 = "join_reader_if_needed E in_reader True ?cs"
  have t: "touched ?c0 ?c2" by simp
  have on: "c_on_close ?c3 = c_on_close c" using touchedD(15) [OF t] by (simp add: close_socket_def)
  have c1: "c1 = log_event (c_on_close c) (Ev_close st reason) ?c3"
    using c(1,2) s(1) on unfolding c1_def close_def Let_def st by simp
  have closed: "\<not> c_is_open c1" by (simp add: c1 log_event_def close_socket_def)
  have "c_events c1 = c_events c @ wake_events E in_reader c @ (if c_on_close c then [Ev_close st reason] else [])"
    using close_events [OF c(1,2), of E in_reader code reason] st unfolding c1_def by (auto split: if_splits)
  moreover have "c_socket c1 = tr_close (e_tr E) s" "\<not> in_reader \<longrightarrow> \<not> c_reader_thread c1"
    by (simp_all add: c1 log_event_def close_socket_def)
  ultimately show ?thesis using closed s(2) key(1) unfolding wake_events_def
    by (auto simp: run_calls_not_open read_one_frame_def read_loop.simps [of E c1])
qed

theorem close_is_final_witness:
  "c_events (close mem_env False 1006 ''bye'' (mem_conn role_client (\<lambda>_. []) [] \<lparr>c_reader_thread := True\<rparr>)) =
     [Ev_error (Err_code connection_reset), Ev_close 1000 ''bye''] \<and>
   c_events (close mem_env True 1006 ''bye'' (mem_conn role_client (\<lambda>_. []) [] \<lparr>c_reader_thread := True\<rparr>)) =
     [Ev_close 1000 ''bye'']"
proof -
  let ?c = "mem_conn role_client (\<lambda>_. []) [] \<lparr>c_reader_thread := True\<rparr>"
  have r: "conn_ready (ls_live mem_connected) ?c"
    using mem_conn_ready [of role_client "\<lambda>_. []" "[]"] by (simp add: conn_ready_def buffers_ok_def)
  have w: "e_wake mem_env evs = Some connection_reset" for evs by (simp add: mem_env_def)
  have f: "failed connection_reset" by code_simp
  show ?thesis
    using close_is_final [OF mem_conn.stream_env_axioms r, where reason = "''bye''" and code = 1006 and in_reader = False]
      close_is_final [OF mem_conn.stream_env_axioms r, where reason = "''bye''" and code = 1006 and in_reader = True] w f
    by (simp cong: conj_cong)
qed

end
