(* ===== verification/Steps.thy ===== *)
theory Steps
  imports Lifecycle
begin

text \<open>
  The connection as a transition system: the application's calls and the reader's frames interleave on
  one state.  Between steps an invariant holds; inside \<open>send_data_frame\<close>, before the lock is taken, it
  does not protect the shared frame buffer.
\<close>

section \<open>Definitions\<close>

text \<open>
  The calls an application may make at any time during a session: all but those that open a connection
  and the one that switches compression, which belong to the opening handshake.
\<close>

definition in_session :: "conn_request \<Rightarrow> bool" where
  "in_session rq \<longleftrightarrow>
     (case rq of
        Rq_connect _ _ \<Rightarrow> False | Rq_connect_ep _ \<Rightarrow> False | Rq_adopt _ \<Rightarrow> False | Rq_activate \<Rightarrow> False
      | Rq_set_permessage_deflate _ \<Rightarrow> False
      | _ \<Rightarrow> True)"

text \<open>The calls of a callback are requests, too.\<close>

primrec request_of :: "api_call \<Rightarrow> conn_request" where
  "request_of (Call_send_text txt fin) = Rq_send_text txt fin"
| "request_of (Call_send_binary data fin) = Rq_send_binary data fin"
| "request_of (Call_send_continuation data fin) = Rq_send_continuation data fin"
| "request_of (Call_send_ping data) = Rq_send_ping data"
| "request_of (Call_close status reason) = Rq_close status reason"

lemma api_run_call: "snd (connection_api E r (request_of a) c) = run_call E r a c" "in_session (request_of a)"
  by (cases a; simp add: returns_code_def in_session_def)+

text \<open>
  One step of a running session: a call from an application thread, or one round of the reader's loop.
\<close>

inductive conn_step :: "'s env \<Rightarrow> 's connection \<Rightarrow> 's connection \<Rightarrow> bool" for E :: "'s env" where
  step_call: "in_session rq \<Longrightarrow> conn_step E c (snd (connection_api E False rq c))"
| step_read: "c_is_open c \<Longrightarrow> \<not> c_is_closing c \<Longrightarrow> read_one_frame E c = Inr (again, c1) \<Longrightarrow> conn_step E c c1"

definition session :: "'s env \<Rightarrow> 's connection \<Rightarrow> 's connection \<Rightarrow> bool" where
  "session E = (conn_step E)\<^sup>*\<^sup>*"

definition fragments_ok :: "'s connection \<Rightarrow> bool" where
  "fragments_ok c \<longleftrightarrow>
     (if c_fragmented c then c_message_opcode c = TEXT \<or> c_message_opcode c = BINARY
      else c_message_buffer c = [] \<and> \<not> c_message_compressed c) \<and>
     (c_message_compressed c \<longrightarrow> c_permessage_deflate c)"

definition flags_ok :: "'s connection \<Rightarrow> bool" where
  "flags_ok c \<longleftrightarrow> (c_is_open c \<longrightarrow> \<not> c_is_closing c) \<and> (c_reader_thread c = c_reader_running c)"

definition conn_inv :: "('s \<Rightarrow> bool) \<Rightarrow> 's connection \<Rightarrow> bool" where
  "conn_inv live c \<longleftrightarrow> (c_is_open c \<longrightarrow> live (c_socket c)) \<and> buffers_ok c \<and> flags_ok c \<and> fragments_ok c"

text \<open>The threads inside \<open>send_data_frame\<close>: still to prepare the frame, before the lock, returned.\<close>

datatype send_phase = To_send opcode bytes bool | Prepared | Returned error_code

inductive send_step ::
  "'s env \<Rightarrow> 's connection \<times> send_phase list \<Rightarrow> 's connection \<times> send_phase list \<Rightarrow> bool" for E :: "'s env" where
  send_prepare: "i < length ts \<Longrightarrow> ts ! i = To_send opc d fin \<Longrightarrow> prepare_data_frame E opc d fin c = Inr c1 \<Longrightarrow>
    send_step E (c, ts) (c1, ts[i := Prepared])"
| send_refuse: "i < length ts \<Longrightarrow> ts ! i = To_send opc d fin \<Longrightarrow> prepare_data_frame E opc d fin c = Inl ec \<Longrightarrow>
    send_step E (c, ts) (c, ts[i := Returned ec])"
| send_write: "i < length ts \<Longrightarrow> ts ! i = Prepared \<Longrightarrow> locked_write E c = (ec, c1) \<Longrightarrow>
    send_step E (c, ts) (c1, ts[i := Returned ec])"

inductive_cases conn_stepE: "conn_step E c c1"

text \<open>A request that is no call of the kind callbacks make changes settings only.\<close>

definition setting_only :: "conn_request \<Rightarrow> 's connection \<Rightarrow> 's connection \<Rightarrow> bool" where
  "setting_only rq c c1 \<longleftrightarrow>
     c_is_open c1 = c_is_open c \<and> c_socket c1 = c_socket c \<and> buffers_ok c1 = buffers_ok c \<and>
     (flags_ok c \<longrightarrow> flags_ok c1) \<and> fragments_ok c1 = fragments_ok c \<and> c_events c1 = c_events c \<and>
     ((\<forall>r. rq \<noteq> Rq_set_role r) \<longrightarrow> c_role c1 = c_role c)"

lemma setting_or_call:
  assumes "in_session rq"
  shows "(\<exists>a. rq = request_of a) \<or> setting_only rq c (snd (connection_api E r rq c))"
proof (cases rq)
  case (Rq_close st t)
  then have "rq = request_of (Call_close st t)" by simp
  then show ?thesis by blast
next
  case (Rq_send_text t f)
  then have "rq = request_of (Call_send_text t f)" by simp
  then show ?thesis by blast
next
  case (Rq_send_binary d f)
  then have "rq = request_of (Call_send_binary d f)" by simp
  then show ?thesis by blast
next
  case (Rq_send_continuation d f)
  then have "rq = request_of (Call_send_continuation d f)" by simp
  then show ?thesis by blast
next
  case (Rq_send_ping d)
  then have "rq = request_of (Call_send_ping d)" by simp
  then show ?thesis by blast
qed (use assms in \<open>auto simp: in_session_def setting_only_def set_role_def set_on_open_def set_on_message_def
  set_on_close_def set_on_error_def start_reading_def start_reader_thread_def buffers_ok_def flags_ok_def fragments_ok_def\<close>)

section \<open>The flags\<close>

lemma flags_closed: "\<not> c_is_open c \<Longrightarrow> flags_ok c \<longleftrightarrow> c_reader_thread c = c_reader_running c"
  by (simp add: flags_ok_def)

lemma flags_run_call: "flags_ok c \<Longrightarrow> flags_ok (run_call E r a c)"
proof (cases a)
  case (Call_close st reason)
  assume "flags_ok c"
  then show ?thesis using Call_close
    by (auto simp: close_def flags_ok_def log_event_def close_socket_def Let_def)
qed (simp_all add: send_text_def send_binary_def send_continuation_def flags_ok_def)

lemma flags_run_calls: "flags_ok c \<Longrightarrow> flags_ok (run_calls E r as c)"
  by (induction as arbitrary: c) (simp_all add: flags_run_call)

lemma flags_fire: "flags_ok c \<Longrightarrow> flags_ok (fire E r b ev c)"
  by (auto simp: fire_def Let_def log_event_def intro!: flags_run_calls) (simp add: flags_ok_def)

lemma flags_emit_error: "flags_ok c \<Longrightarrow> flags_ok (emit_error E r msg c)" "flags_ok c \<Longrightarrow> flags_ok (emit_error_ec E r ec c)"
  by (simp_all add: emit_error_def emit_error_ec_def flags_fire)

lemma flags_fail: "flags_ok c \<Longrightarrow> flags_ok (fail_with_close E code reason c)"
proof -
  assume "flags_ok c"
  then have "flags_ok (emit_error E True reason c)" by (rule flags_emit_error)
  then show ?thesis
    by (simp add: flags_closed) (simp add: flags_ok_def fail_with_close_def Let_def fire_not_open log_event_def close_socket_def)
qed

lemma flags_deliver: "flags_ok c \<Longrightarrow> flags_ok (snd (deliver_message E payload opc compressed c))"
  by (auto simp: deliver_message_def Let_def fail_protocol_def flags_fail flags_fire split: option.splits)

lemma flags_handle_frame:
  assumes "flags_ok c"
  shows "flags_ok (handle_frame E c)"
proof -
  have close: "flags_ok (handle_close_frame E c)"
    using assms by (simp add: handle_close_frame_def Let_def fire_not_open log_event_def flags_ok_def)
  have ping: "flags_ok (handle_ping_frame E c)"
    using assms by (auto simp: handle_ping_frame_def Let_def case_prod_unfold intro!: flags_emit_error)
       (simp add: flags_ok_def)
  have cont: "flags_ok (reset_fragment_state (snd (deliver_message E p opc b (c\<lparr>c_message_buffer := m\<rparr>))))"
    for p opc b m
    using flags_deliver [of "c\<lparr>c_message_buffer := m\<rparr>" E p opc b] assms
    by (simp add: reset_fragment_state_def flags_ok_def)
  have whole: "flags_ok (snd (deliver_message E p opc b c)\<lparr>c_payload_buffer := q\<rparr>)" for p opc b q
    using flags_deliver [OF assms, of E p opc b] by (simp add: flags_ok_def)
  show ?thesis using assms
    by (auto simp: handle_frame_def Let_def case_prod_unfold close ping cont whole fail_protocol_def flags_fail)
       (simp_all add: flags_ok_def)
qed

section \<open>Fragments and buffers\<close>

lemma touched_fragments: "touched c c1 \<Longrightarrow> fragments_ok c1 = fragments_ok c"
  by (simp add: fragments_ok_def touchedD)

lemma received_fragments: "received c c1 \<Longrightarrow> fragments_ok c1 = fragments_ok c"
  by (simp add: fragments_ok_def receivedD)

lemma received_flags: "received c c1 \<Longrightarrow> flags_ok c1 = flags_ok c"
  by (simp add: flags_ok_def receivedD)

lemma touched_bufs: "touched c c1 \<Longrightarrow> buffers_ok c1 = buffers_ok c"
  by (simp add: buffers_ok_def touchedD)

lemma payload_update_ok [simp]:
  "fragments_ok (c\<lparr>c_payload_buffer := q\<rparr>) = fragments_ok c" "buffers_ok (c\<lparr>c_payload_buffer := q\<rparr>) = buffers_ok c"
  by (simp_all add: fragments_ok_def buffers_ok_def)

lemma deliver_touched: "touched c (snd (deliver_message E payload opc compressed c))"
  by (auto simp: deliver_message_def Let_def fail_protocol_def split: option.splits)

lemma handle_close_touched: "touched (c\<lparr>c_expecting_close := True\<rparr>) (handle_close_frame E c)"
proof -
  let ?c1 = "c\<lparr>c_expecting_close := True\<rparr>"
  have "touched ?c1 ((snd (write_frame E (build_close_frame st [] ?c1)))\<lparr>c_is_open := False\<rparr>)" for st
  proof -
    have "touched ?c1 (build_close_frame st [] ?c1)" by simp
    also have "touched \<dots> (snd (write_frame E \<dots>))" by simp
    also have "touched \<dots> ((snd (write_frame E (build_close_frame st [] ?c1)))\<lparr>c_is_open := False\<rparr>)"
      by (simp add: touched_def)
    finally show ?thesis .
  qed
  then show ?thesis unfolding handle_close_frame_def Let_def by (rule touched_trans) (rule fire_touched)
qed

lemma handle_close_keeps:
  "fragments_ok (handle_close_frame E c) = fragments_ok c" "buffers_ok (handle_close_frame E c) = buffers_ok c"
  using touched_fragments [OF handle_close_touched [of c E]] touched_bufs [OF handle_close_touched [of c E]]
  by (simp_all add: fragments_ok_def buffers_ok_def)

lemma handle_ping_touched: "touched c (handle_ping_frame E c)"
  by (auto simp: handle_ping_frame_def Let_def case_prod_unfold
      intro: touched_trans [OF touched_trans [OF build_frame_fields(7) write_frame_fields(6)] emit_error_touched(2)])

lemma handle_frame_data:
  assumes "fragments_ok c" and "buffers_ok c"
    and "fh_rsv1 (c_current_header c) \<longrightarrow> c_permessage_deflate c"
  shows "fragments_ok (handle_frame E c) \<and> buffers_ok (handle_frame E c)"
proof -
  let ?r = "c\<lparr>c_message_buffer := c_message_buffer c @ c_payload_buffer c\<rparr>"
  have cont: "fragments_ok (reset_fragment_state (snd (deliver_message E p opc b ?r))) \<and>
      buffers_ok (reset_fragment_state (snd (deliver_message E p opc b ?r)))" for p opc b
  proof -
    have "buffers_ok ?r" using assms(2) by (simp add: buffers_ok_def)
    then show ?thesis using touched_bufs [OF deliver_touched [of ?r E p opc b]]
      by (simp add: reset_fragment_state_def fragments_ok_def buffers_ok_def)
  qed
  have whole: "fragments_ok (snd (deliver_message E p opc b c)) \<and> buffers_ok (snd (deliver_message E p opc b c))"
    for p opc b
    using touched_bufs [OF deliver_touched [of c E p opc b]]
      touched_fragments [OF deliver_touched [of c E p opc b]] assms(1,2) by simp
  have fail: "fragments_ok (fail_protocol E reason c) \<and> buffers_ok (fail_protocol E reason c)" for reason
    using touched_bufs [OF fail_protocol_closed(2) [of c E reason]]
      touched_fragments [OF fail_protocol_closed(2) [of c E reason]] assms(1,2) by simp
  have ping: "fragments_ok (handle_ping_frame E c) \<and> buffers_ok (handle_ping_frame E c)"
    using touched_bufs [OF handle_ping_touched] touched_fragments [OF handle_ping_touched] assms(1,2) by auto
  have more: "c_fragmented c \<Longrightarrow> fragments_ok ?r \<and> buffers_ok ?r"
    using assms(1,2) by (simp add: fragments_ok_def buffers_ok_def)
  have first: "opc = TEXT \<or> opc = BINARY \<Longrightarrow>
      fragments_ok (c\<lparr>c_fragmented := True, c_message_opcode := opc, c_message_buffer := p,
          c_message_compressed := fh_rsv1 (c_current_header c)\<rparr>) \<and>
      buffers_ok (c\<lparr>c_fragmented := True, c_message_opcode := opc, c_message_buffer := p,
          c_message_compressed := fh_rsv1 (c_current_header c)\<rparr>)" for opc p
    using assms by (simp add: fragments_ok_def buffers_ok_def)
  show ?thesis using assms(1,2)
    by (simp add: handle_frame_def Let_def case_prod_unfold handle_close_keeps ping cont whole fail more first)
qed

context stream_env
begin

lemma read_exact_shape:
  assumes "live (c_socket c)" and "0 < n" and "n \<le> length buf"
    and "read_exact E buf n c = (ok, buf', ec, c1)"
  shows "\<exists>s. length buf' = length buf \<and> c1 = c\<lparr>c_socket := s\<rparr>"
proof -
  obtain got ec2 s where r: "tr_read (e_tr E) (c_socket c) n = (got, ec2, s)" by (cases "tr_read (e_tr E) (c_socket c) n")
  then have "length got \<le> n" "buf' = overwrite buf 0 got" "c1 = c\<lparr>c_socket := s\<rparr>"
    using read_sound [OF assms(1,2) r] assms(4) by (auto simp: read_exact_def)
  then show ?thesis using assms(3) by (intro exI [of _ s]) simp
qed

text \<open>\<open>sized c c1\<close>: a reading step that keeps the shape of the buffers.\<close>

definition sized :: "'s connection \<Rightarrow> 's connection \<Rightarrow> bool" where
  "sized c c1 \<longleftrightarrow> received c c1 \<and> (buffers_ok c \<longrightarrow> buffers_ok c1)"

lemma sized_trans: "sized c c1 \<Longrightarrow> sized c1 c2 \<Longrightarrow> sized c c2"
  by (auto simp: sized_def intro: received_trans)

lemma read_extended_length_sized:
  assumes "live (c_socket c)" and "buffers_ok c"
  shows "sized c (snd (snd (read_extended_length E c)))"
proof -
  have ext: "length (c_ext_payload_buffer c) = 8" using assms(2) by (simp add: buffers_ok_def)
  obtain ok2 b2 e2 c2 where r2: "read_exact E (c_ext_payload_buffer c) 2 c = (ok2, b2, e2, c2)"
    by (cases "read_exact E (c_ext_payload_buffer c) 2 c") auto
  obtain ok8 b8 e8 c8 where r8: "read_exact E (c_ext_payload_buffer c) 8 c = (ok8, b8, e8, c8)"
    by (cases "read_exact E (c_ext_payload_buffer c) 8 c") auto
  obtain s2 s8 where "length b2 = 8" "length b8 = 8" "c2 = c\<lparr>c_socket := s2\<rparr>" "c8 = c\<lparr>c_socket := s8\<rparr>"
    using read_exact_shape [OF assms(1) _ _ r2] read_exact_shape [OF assms(1) _ _ r8] ext by auto
  then show ?thesis using assms(2)
    by (simp add: read_extended_length_def r2 r8 sized_def received_def buffers_ok_def Let_def)
qed

lemma read_masking_key_sized:
  assumes "live (c_socket c)" and "buffers_ok c"
  shows "sized c (snd (snd (read_masking_key E ec c)))"
proof -
  have ext: "length (c_masking_key_buffer c) = 4" using assms(2) by (simp add: buffers_ok_def)
  obtain ok b e c1 where r: "read_exact E (c_masking_key_buffer c) 4 c = (ok, b, e, c1)"
    by (cases "read_exact E (c_masking_key_buffer c) 4 c") auto
  obtain s where "length b = 4" "c1 = c\<lparr>c_socket := s\<rparr>"
    using read_exact_shape [OF assms(1) _ _ r] ext by auto
  then show ?thesis using assms(2)
    by (simp add: read_masking_key_def r sized_def received_def buffers_ok_def Let_def)
qed

text \<open>What a reading step may leave behind: everything but the liveness of the socket.\<close>

definition inner_ok :: "'s connection \<Rightarrow> bool" where
  "inner_ok c \<longleftrightarrow> buffers_ok c \<and> flags_ok c \<and> fragments_ok c"

lemma sized_inner: "sized c c1 \<Longrightarrow> inner_ok c \<Longrightarrow> inner_ok c1"
  by (auto simp: sized_def inner_ok_def received_flags received_fragments)

lemma handle_frame_inner:
  assumes "inner_ok c" and "fh_rsv1 (c_current_header c) \<longrightarrow> c_permessage_deflate c"
  shows "inner_ok (handle_frame E c)"
  using assms handle_frame_data [of c] flags_handle_frame by (auto simp: inner_ok_def)

lemma touched_inner: "touched c c1 \<Longrightarrow> flags_ok c1 \<Longrightarrow> inner_ok c \<Longrightarrow> inner_ok c1"
  by (simp add: inner_ok_def touched_bufs touched_fragments)

lemma read_payload_inner:
  assumes "live (c_socket c)" and "inner_ok c" and "fh_rsv1 (c_current_header c) \<longrightarrow> c_permessage_deflate c"
    and "read_payload E c = Inr (ec, c1)"
  shows "inner_ok c1"
proof (cases "fh_payload_len (c_current_header c) = 0")
  case True
  then show ?thesis using assms(4) handle_frame_inner [OF assms(2,3)] by (auto simp: read_payload_def)
next
  case False
  then obtain buf where buf: "vec_resize (e_alloc E) (unat (fh_payload_len (c_current_header c))) (c_payload_buffer c) = Inr buf"
    using assms(4) by (auto simp: read_payload_def split: sum.splits)
  then have "length buf = unat (fh_payload_len (c_current_header c))"
    by (auto simp: vec_resize_def split: if_splits option.splits)
  then have pos: "0 < length buf" using False by (simp add: unat_gt_0)
  obtain ok b e c2 where r: "read_exact E buf (length buf) c = (ok, b, e, c2)"
    by (cases "read_exact E buf (length buf) c") auto
  obtain s where c2: "c2 = c\<lparr>c_socket := s\<rparr>" using read_exact_shape [OF assms(1) pos le_refl r] by blast
  have upd: "inner_ok (c\<lparr>c_socket := s, c_payload_buffer := q\<rparr>)" for q
    using assms(2) by (simp add: inner_ok_def buffers_ok_def flags_ok_def fragments_ok_def)
  have "inner_ok (handle_frame E (c\<lparr>c_socket := s, c_payload_buffer := q\<rparr>))" for q
    using assms(3) by (intro handle_frame_inner upd) simp
  then show ?thesis using assms(4) False buf r upd by (auto simp: read_payload_def c2 Let_def split: if_splits)
qed

lemma validate_inner: "inner_ok c \<Longrightarrow> inner_ok (snd (validate_frame_header E c))"
proof -
  assume i: "inner_ok c"
  have "inner_ok (fail_protocol E reason c)" for reason
    using i flags_fail [of c E 1002 reason] touched_inner [of c "fail_protocol E reason c"]
    by (simp add: fail_protocol_def inner_ok_def)
  then show ?thesis using validate_verdict [of E c] i by auto
qed

lemma parse_header_inner:
  assumes "live (c_socket c)" and "inner_ok c" and "parse_header E c = Inr (ec, c1)"
  shows "inner_ok c1"
proof -
  let ?h = "decode_first_octets (c_header_buffer c ! 0) (c_header_buffer c ! 1) (c_current_header c)"
  let ?c0 = "c\<lparr>c_current_header := ?h\<rparr>"
  have i0: "inner_ok ?c0" using assms(2) by (simp add: inner_ok_def buffers_ok_def flags_ok_def fragments_ok_def)
  have l0: "live (c_socket ?c0)" using assms(1) by simp
  have ia: "inner_ok (snd (snd (read_extended_length E ?c0)))"
    using sized_inner [OF read_extended_length_sized [OF l0]] i0 by (simp add: inner_ok_def)
  show ?thesis
  proof (rule read_extended_length_cases [OF l0])
    fix ec0 ca
    assume "read_extended_length E ?c0 = (False, ec0, ca)"
    then show ?thesis using assms(3) ia by (simp add: parse_header_def)
  next
    fix ec0 ca
    assume a: "read_extended_length E ?c0 = (True, ec0, ca)" "\<not> failed ec0" "reads ?c0 ca"
    then have la: "live (c_socket ca)" and ica: "inner_ok ca" using ia by (auto simp: reads_def)
    have ib: "inner_ok (snd (snd (read_masking_key E ec0 ca)))"
      using sized_inner [OF read_masking_key_sized [OF la] ica] ica by (simp add: inner_ok_def)
    show ?thesis
    proof (rule read_masking_key_cases [OF la a(2)])
      fix ecb cb
      assume "read_masking_key E ec0 ca = (False, ecb, cb)"
      then show ?thesis using assms(3) a(1) ib by (simp add: parse_header_def)
    next
      fix ecb cb
      assume b: "read_masking_key E ec0 ca = (True, ecb, cb)" "reads ca cb"
      then have lb: "live (c_socket cb)" and icb: "inner_ok cb" using ib by (auto simp: reads_def)
      have p: "parse_header E c = (if fst (validate_frame_header E cb) then read_payload E cb
          else Inr (ecb, snd (validate_frame_header E cb)))"
        using a(1) b(1) validate_keeps(1) [of cb] by (simp add: parse_header_def case_prod_unfold)
      have rsv: "fst (validate_frame_header E cb) \<Longrightarrow> fh_rsv1 (c_current_header cb) \<longrightarrow> c_permessage_deflate cb"
        using validate_iff [of E cb] by (simp add: rsv_legal_def)
      show ?thesis
        using assms(3) p read_payload_inner [OF lb icb] rsv validate_inner [OF icb]
        by (cases "fst (validate_frame_header E cb)") auto
    qed
  qed
qed

lemma read_one_frame_inner:
  assumes "c_is_open c" and "live (c_socket c)" and "inner_ok c" and "read_one_frame E c = Inr (again, c1)"
  shows "inner_ok c1"
proof -
  have hdr: "length (c_header_buffer c) = 2" using assms(3) by (simp add: inner_ok_def buffers_ok_def)
  obtain ok b e c2 where r: "read_exact E (c_header_buffer c) 2 c = (ok, b, e, c2)"
    by (cases "read_exact E (c_header_buffer c) 2 c") auto
  obtain s where c2: "c2 = c\<lparr>c_socket := s\<rparr>" and b: "length b = 2"
    using read_exact_shape [OF assms(2) _ _ r] hdr by auto
  let ?c0 = "c\<lparr>c_socket := s, c_header_buffer := b\<rparr>"
  have i0: "inner_ok ?c0"
    using assms(3) b by (simp add: inner_ok_def buffers_ok_def flags_ok_def fragments_ok_def)
  have err: "inner_ok ((emit_error_ec E True ec d)\<lparr>c_is_open := False\<rparr>)" if "inner_ok d" for ec d
  proof -
    have "inner_ok (emit_error_ec E True ec d)"
      by (rule touched_inner [OF emit_error_touched(2) flags_emit_error(2)])
         (use that in \<open>simp_all add: inner_ok_def\<close>)
    then show ?thesis by (simp add: inner_ok_def buffers_ok_def flags_ok_def fragments_ok_def)
  qed
  show ?thesis
  proof (cases ok)
    case False
    then show ?thesis using assms(1,4) r c2 err [OF i0] by (auto simp: read_one_frame_def)
  next
    case True
    have "live (c_socket c2)"
      by (rule read_exact_cases [OF assms(2), of 2 "c_header_buffer c"]) (use True r in auto)
    then have l0: "live (c_socket ?c0)" using c2 by simp
    from True obtain ec d where p: "parse_header E ?c0 = Inr (ec, d)"
        "c1 = d \<or> c1 = (emit_error_ec E True ec d)\<lparr>c_is_open := False\<rparr>"
      using assms(1,4) r c2 by (auto simp: read_one_frame_def split: sum.splits if_splits)
    from parse_header_inner [OF l0 i0 p(1)] p(2) err show ?thesis by auto
  qed
qed

lemma run_call_inv:
  assumes "conn_inv live c"
  shows "conn_inv live (run_call E r a c)"
proof -
  have "keeps c (run_call E r a c)" "touched c (run_call E r a c)" "flags_ok (run_call E r a c)"
    using assms flags_run_call [of c E r a] by (simp_all add: conn_inv_def)
  then show ?thesis using assms touched_bufs touched_fragments unfolding conn_inv_def keeps_def by blast
qed

lemma api_inv:
  assumes "conn_inv live c" and "in_session rq"
  shows "conn_inv live (snd (connection_api E r rq c))"
  using setting_or_call [OF assms(2), of c E r]
proof
  assume "\<exists>a. rq = request_of a"
  then show ?thesis using api_run_call(1) [of E r _ c] run_call_inv [OF assms(1), of r] by auto
next
  assume "setting_only rq c (snd (connection_api E r rq c))"
  then show ?thesis using assms(1) by (simp add: setting_only_def conn_inv_def)
qed

lemma conn_step_inv:
  assumes "conn_inv live c" and "conn_step E c c1"
  shows "conn_inv live c1"
  using assms(2)
proof (rule conn_stepE)
  fix rq
  assume rq: "in_session rq" and c1: "c1 = snd (connection_api E False rq c)"
  show ?thesis using api_inv [OF assms(1) rq] c1 by simp
next
  fix again
  assume r: "c_is_open c" "read_one_frame E c = Inr (again, c1)"
  have "inner_ok c" "live (c_socket c)" using assms(1) r(1) by (simp_all add: conn_inv_def inner_ok_def)
  from read_one_frame_inner [OF r(1) this(2,1) r(2)] have i: "inner_ok c1" .
  have "again = c_is_open c1"
    using r by (auto simp: read_one_frame_def Let_def split: prod.splits sum.splits if_splits)
  then have "c_is_open c1 \<longrightarrow> live (c_socket c1)"
    using read_one_frame_progress [OF r(1) \<open>live (c_socket c)\<close>] r(2) by auto
  then show ?thesis using i by (simp add: conn_inv_def inner_ok_def)
qed

end

section \<open>Text callbacks\<close>

definition event_ok :: "event \<Rightarrow> bool" where
  "event_ok ev \<longleftrightarrow> (case ev of Ev_message d opc \<Rightarrow> opc = TEXT \<longrightarrow> is_valid_utf8 d | _ \<Rightarrow> True)"

definition texts_valid :: "'s connection \<Rightarrow> bool" where
  "texts_valid c \<longleftrightarrow> list_all event_ok (c_events c)"

lemma texts_update [simp]:
  "texts_valid (c\<lparr>c_is_open := b\<rparr>) = texts_valid c" "texts_valid (c\<lparr>c_is_closing := b\<rparr>) = texts_valid c"
  "texts_valid (c\<lparr>c_payload_buffer := p\<rparr>) = texts_valid c" "texts_valid (c\<lparr>c_message_buffer := p\<rparr>) = texts_valid c"
  "texts_valid (c\<lparr>c_socket := s\<rparr>) = texts_valid c" "texts_valid (c\<lparr>c_header_buffer := p\<rparr>) = texts_valid c"
  "texts_valid (c\<lparr>c_current_header := h\<rparr>) = texts_valid c" "texts_valid (c\<lparr>c_ext_payload_buffer := p\<rparr>) = texts_valid c"
  "texts_valid (c\<lparr>c_masking_key_buffer := p\<rparr>) = texts_valid c" "texts_valid (c\<lparr>c_expecting_close := b\<rparr>) = texts_valid c"
  "texts_valid (close_socket E c) = texts_valid c" "texts_valid (reset_fragment_state c) = texts_valid c"
  "texts_valid (build_frame opc d fin rsv c) = texts_valid c" "texts_valid (build_close_frame st reason c) = texts_valid c"
  "texts_valid (snd (write_frame E c)) = texts_valid c"
  by (simp_all add: texts_valid_def close_socket_def reset_fragment_state_def)

lemma texts_log: "texts_valid c \<Longrightarrow> event_ok ev \<Longrightarrow> texts_valid (log_event b ev c)"
  by (simp add: texts_valid_def log_event_def)

lemma wake_events_ok: "list_all event_ok (wake_events E r c)"
  by (simp add: wake_events_def event_ok_def split: option.splits)

lemma texts_run_call: "texts_valid c \<Longrightarrow> texts_valid (run_call E r a c)"
proof (cases a)
  case (Call_close st reason)
  assume c: "texts_valid c"
  have "texts_valid (join_reader_if_needed E r True k)" if "texts_valid k" for k
    using that wake_events_ok by (simp add: texts_valid_def)
  then show ?thesis using c Call_close by (auto simp: close_def Let_def event_ok_def intro!: texts_log)
qed (simp_all add: texts_valid_def send_text_def send_binary_def send_continuation_def)

lemma texts_run_calls: "texts_valid c \<Longrightarrow> texts_valid (run_calls E r as c)"
  by (induction as arbitrary: c) (simp_all add: texts_run_call)

lemma texts_fire: "texts_valid c \<Longrightarrow> event_ok ev \<Longrightarrow> texts_valid (fire E r b ev c)"
  by (simp add: fire_def Let_def texts_run_calls texts_log)

lemma texts_emit_error: "texts_valid c \<Longrightarrow> texts_valid (emit_error E r msg c)" "texts_valid c \<Longrightarrow> texts_valid (emit_error_ec E r ec c)"
  by (simp_all add: emit_error_def emit_error_ec_def texts_fire event_ok_def)

lemma texts_fail: "texts_valid c \<Longrightarrow> texts_valid (fail_with_close E code reason c)" "texts_valid c \<Longrightarrow> texts_valid (fail_protocol E reason c)"
  by (auto simp: fail_protocol_def fail_with_close_def Let_def event_ok_def texts_emit_error intro!: texts_fire)

lemma texts_deliver: "texts_valid c \<Longrightarrow> texts_valid (snd (deliver_message E payload opc compressed c))"
  by (auto simp: deliver_message_def Let_def texts_fail event_ok_def intro!: texts_fire split: option.splits)

lemma texts_handle_frame:
  assumes "texts_valid c"
  shows "texts_valid (handle_frame E c)"
proof -
  have close: "texts_valid (handle_close_frame E c)"
    using assms by (auto simp: handle_close_frame_def Let_def event_ok_def intro!: texts_fire)
  have ping: "texts_valid (handle_ping_frame E c)"
    using assms by (auto simp: handle_ping_frame_def Let_def case_prod_unfold intro!: texts_emit_error)
  have deliver: "texts_valid (snd (deliver_message E p opc b (c\<lparr>c_message_buffer := m\<rparr>)))"
    "texts_valid (snd (deliver_message E p opc b c))" for p opc b m
    using assms by (simp_all add: texts_deliver)
  have start: "texts_valid (c\<lparr>c_fragmented := True, c_message_opcode := opc, c_message_buffer := p, c_message_compressed := z\<rparr>)"
    for opc p z using assms by (simp add: texts_valid_def)
  show ?thesis using assms
    by (auto simp: handle_frame_def Let_def case_prod_unfold close ping deliver start texts_fail)
qed

lemma texts_validate: "texts_valid c \<Longrightarrow> texts_valid (snd (validate_frame_header E c))"
  using validate_verdict [of E c] texts_fail by fastforce

lemma texts_read_exact: "read_exact E buf n c = (ok, buf', ec, c1) \<Longrightarrow> texts_valid c1 = texts_valid c"
  by (auto simp: read_exact_def split: prod.splits)

lemma texts_read_payload: "texts_valid c \<Longrightarrow> read_payload E c = Inr (ec, c1) \<Longrightarrow> texts_valid c1"
  by (auto simp: read_payload_def Let_def texts_read_exact texts_handle_frame split: sum.splits prod.splits if_splits)

lemma texts_parse_header:
  assumes "texts_valid c" and "parse_header E c = Inr (ec, c1)"
  shows "texts_valid c1"
proof -
  have ext: "texts_valid (snd (snd (read_extended_length E k))) = texts_valid k" for k
    by (auto simp: read_extended_length_def Let_def texts_read_exact split: prod.splits)
  have key: "texts_valid (snd (snd (read_masking_key E e k))) = texts_valid k" for e k
    by (auto simp: read_masking_key_def Let_def texts_read_exact split: prod.splits)
  let ?h = "decode_first_octets (c_header_buffer c ! 0) (c_header_buffer c ! 1) (c_current_header c)"
  let ?a = "read_extended_length E (c\<lparr>c_current_header := ?h\<rparr>)"
  let ?b = "read_masking_key E (fst (snd ?a)) (snd (snd ?a))"
  have a: "texts_valid (snd (snd ?a))" and b: "texts_valid (snd (snd ?b))" using assms(1) by (simp_all add: ext key)
  show ?thesis using assms(2) a b texts_validate [OF b, of E] texts_read_payload
    by (auto simp: parse_header_def Let_def case_prod_unfold split: if_splits)
qed

lemma texts_read_one_frame:
  assumes "texts_valid c" and "read_one_frame E c = Inr (again, c1)"
  shows "texts_valid c1"
proof (cases "c_is_open c")
  case False
  then show ?thesis using assms by (simp add: read_one_frame_def)
next
  case True
  obtain ok b e c2 where r: "read_exact E (c_header_buffer c) 2 c = (ok, b, e, c2)"
    by (cases "read_exact E (c_header_buffer c) 2 c") auto
  have t: "texts_valid (c2\<lparr>c_header_buffer := b\<rparr>)" using texts_read_exact [OF r] assms(1) by simp
  show ?thesis using assms(2) True r t texts_parse_header [OF t]
    by (auto simp: read_one_frame_def Let_def intro!: texts_emit_error(2) split: sum.splits prod.splits if_splits)
qed

lemma texts_step:
  assumes "texts_valid c" and "conn_step E c c1"
  shows "texts_valid c1"
  using assms(2)
proof (rule conn_stepE)
  fix rq
  assume rq: "in_session rq" and c1: "c1 = snd (connection_api E False rq c)"
  from setting_or_call [OF rq, of c E False] show ?thesis
  proof
    assume "\<exists>a. rq = request_of a"
    then show ?thesis using c1 api_run_call(1) [of E False _ c] texts_run_call [OF assms(1), of E False] by auto
  next
    assume "setting_only rq c (snd (connection_api E False rq c))"
    then show ?thesis using c1 assms(1) by (simp add: setting_only_def texts_valid_def)
  qed
qed (use texts_read_one_frame [OF assms(1)] in blast)

section \<open>Properties\<close>

text \<open>
  C7: An invariant of every session.  However the application's calls of the public class and the reader's
  frames interleave
  and whatever the peer sends, an open connection is never in its closing phase, a reader thread object
  exists exactly while the reader counts as running (so none is overwritten while joinable), the buffers
  keep their sizes, a message under assembly is text or binary, none is left over when no message is
  under assembly, and a compressed one occurs only with the extension negotiated.
\<close>

theorem session_invariant:
  assumes "stream_env E live inbound outbound fits" and "conn_inv live c" and "session E c c1"
  shows "conn_inv live c1"
  using assms(3) unfolding session_def
proof (induction rule: rtranclp_induct)
  case base
  show ?case by (rule assms(2))
next
  case (step c1 c2)
  show ?case by (rule stream_env.conn_step_inv [OF assms(1) step.IH step.hyps(2)])
qed

theorem session_invariant_witness:
  "conn_inv (ls_live mem_connected)
     (run_call mem_env False (Call_close 1000 ''bye'') (mem_conn role_server (\<lambda>_. []) []))"
proof (rule session_invariant [OF mem_conn.stream_env_axioms])
  show "conn_inv (ls_live mem_connected) (mem_conn role_server (\<lambda>_. []) [])"
    by (simp add: conn_inv_def mem_sock_live)
       (simp add: flags_ok_def fragments_ok_def mem_conn_def connection_new_def)
  show "session mem_env (mem_conn role_server (\<lambda>_. []) [])
      (run_call mem_env False (Call_close 1000 ''bye'') (mem_conn role_server (\<lambda>_. []) []))"
    unfolding session_def api_run_call(1) [symmetric] by (intro r_into_rtranclp step_call api_run_call(2))
qed

text \<open>
  C22: In every session, however the application's calls and the reader's frames interleave and whatever the
  peer sends, whole or in fragments, compressed or not, the message callback is never called with a
  text that is not valid UTF-8.
\<close>

theorem text_callbacks_are_utf8:
  assumes "session E c c1" and "\<forall>d. Ev_message d TEXT \<in> set (c_events c) \<longrightarrow> is_valid_utf8 d"
    and "Ev_message d TEXT \<in> set (c_events c1)"
  shows "is_valid_utf8 d"
proof -
  have "texts_valid c"
    using assms(2) by (auto simp: texts_valid_def list_all_iff event_ok_def split: event.split)
  with assms(1) have "texts_valid c1" unfolding session_def
    by (induction rule: rtranclp_induct) (auto intro: texts_step)
  then show ?thesis using assms(3) by (auto simp: texts_valid_def list_all_iff event_ok_def)
qed

text \<open>A text frame that carries the octets of the word \<open>Hi\<close>, read by a server.\<close>

theorem text_callbacks_are_utf8_witness:
  "\<exists>c1. session mem_env (mem_conn role_client (\<lambda>_. []) [0x81, 2, 72, 105]) c1 \<and>
     Ev_message [72, 105] TEXT \<in> set (c_events c1) \<and> is_valid_utf8 [72, 105]"
proof -
  let ?c = "mem_conn role_client (\<lambda>_. []) [0x81, 2, 72, 105]"
  have e: "encode_frame True False TEXT None [72, 105] = [0x81, 2, 72, 105]"
    by (simp add: encode_frame_def first_octet_def length_field_def)
  have v: "list_all message_ok [(TEXT, [72, 105])]" by code_simp
  have h: "mem_conn.here ?c (encode_frame True False TEXT None [72, 105] @ []) []"
    by (simp add: mem_conn.here_def e mem_sock_live)
  obtain c0 k where c0: "read_one_frame mem_env ?c = Inr (c_is_open (handle_frame mem_env c0), handle_frame mem_env c0)"
      "received ?c c0" "mem_conn.here c0 [] []" "buffers_ok c0" "c_current_header c0 = header_of True False TEXT False (length ([72, 105] :: bytes)) k"
      "c_payload_buffer c0 = [72, 105]"
    using mem_conn.read_one_frame_encoded [OF _ _ h] by (auto simp: named_def mem_env_def)
  note r = receivedD [OF c0(2)]
  have "assemble (pending c0) [(TEXT, True, [72, 105])] = Some (None, [(TEXT, [72, 105])])" "mem_conn.ready c0"
      "sends_only c0" "c_on_message c0" "\<not> c_message_compressed c0"
    using r c0(4) mem_conn.hereD(1) [OF c0(3)] by (simp_all add: pending_def conn_ready_def sends_only_def)
  from mem_conn.handle_data_frame [OF this(1) v this(2-5) c0(5,6)]
  obtain again c1 where c1: "read_one_frame mem_env ?c = Inr (again, c1)" "c_events c1 = [Ev_message [72, 105] TEXT]"
    using c0(1) r(5) by (auto simp: message_event_def)
  then have "conn_step mem_env ?c c1" by (intro step_read) simp_all
  then have s: "session mem_env ?c c1" by (simp add: session_def)
  moreover have "is_valid_utf8 [72, 105]" by (rule text_callbacks_are_utf8 [OF s]) (simp_all add: c1)
  ultimately show ?thesis using c1(2) by auto
qed

text \<open>
  C32: The frame buffer \<open>outbound_frame_\<close> is filled before \<open>write_mutex_\<close> is taken.  Two threads that
  send at the same time can interleave so that both calls return success, the first message never
  appears on the wire and the second one appears twice.
\<close>

theorem concurrent_senders_lose_message:
  assumes "stream_env E live inbound outbound fits" and "conn_ready live c" and "\<not> c_permessage_deflate c"
    and "length b < 2 ^ 64" and "fits (length b + 14)"
  shows "\<exists>c1 key. (send_step E)\<^sup>*\<^sup>* (c, [To_send TEXT a True, To_send TEXT b True])
      (c1, [Returned no_error, Returned no_error]) \<and>
    outbound (c_socket c1) = outbound (c_socket c) @ encode_frame True False TEXT key b
                                                  @ encode_frame True False TEXT key b"
proof -
  let ?ca = "build_frame TEXT a True False c"
  let ?cb = "build_frame TEXT b True False ?ca"
  have tb: "touched c ?cb" by (rule touched_trans [OF build_frame_fields(7) build_frame_fields(7)])
  have ra: "conn_ready live ?ca" and pa: "\<not> c_permessage_deflate ?ca"
    using assms(2,3) touchedD [OF build_frame_fields(7), of TEXT a True False c]
    by (simp_all add: conn_ready_def buffers_ok_def)
  have "stream_env.here live inbound outbound ?ca (inbound (c_socket c)) (outbound (c_socket c))"
    using assms(2) by (simp add: stream_env.here_def [OF assms(1)] conn_ready_def)
  from stream_env.built_frame_sent [OF assms(1) ra assms(4) this assms(5), of TEXT True False]
  obtain c3 key where c3: "locked_write E ?cb = (no_error, c3)" "conn_ready live c3"
      "outbound (c_socket c3) = outbound (c_socket c) @ encode_frame True False TEXT key b"
      and frame: "c_outbound_frame c3 = encode_frame True False TEXT key b" "fits (length (c_outbound_frame c3))"
    by (auto simp: stream_env.here_def [OF assms(1)])
  obtain s2 where "write_frame E c3 = (no_error, c3\<lparr>c_socket := s2\<rparr>)"
      "outbound s2 = outbound (c_socket c3) @ c_outbound_frame c3"
    using stream_env.write_frame_stream [OF assms(1) _ frame(2)] c3(2) by (auto simp: conn_ready_def)
  then have c4: "locked_write E c3 = (no_error, c3\<lparr>c_socket := s2\<rparr>)" "outbound s2 = outbound (c_socket c) @
      encode_frame True False TEXT key b @ encode_frame True False TEXT key b"
    using c3(2,3) frame(1) by (simp_all add: locked_write_def conn_ready_def)
  let ?T = "\<lambda>d. To_send TEXT d True"
  have "prepare_data_frame E TEXT a True c = Inr ?ca" "prepare_data_frame E TEXT b True ?ca = Inr ?cb"
    using assms(2,3) pa by (simp_all add: prepare_data_frame_def conn_ready_def)
  then have "send_step E (c, [?T a, ?T b]) (?ca, [Prepared, ?T b])"
    "send_step E (?ca, [Prepared, ?T b]) (?cb, [Prepared, Prepared])"
    "send_step E (?cb, [Prepared, Prepared]) (c3, [Returned no_error, Prepared])"
    "send_step E (c3, [Returned no_error, Prepared]) (c3\<lparr>c_socket := s2\<rparr>, [Returned no_error, Returned no_error])"
    using send_prepare [of 0 "[?T a, ?T b]"] send_prepare [of 1 "[Prepared, ?T b]"]
      send_write [of 0 "[Prepared, Prepared]"] send_write [of 1 "[Returned no_error, Prepared]"] c3(1) c4(1)
    by simp_all
  then have "(send_step E)\<^sup>*\<^sup>* (c, [?T a, ?T b]) (c3\<lparr>c_socket := s2\<rparr>, [Returned no_error, Returned no_error])"
    by (meson converse_rtranclp_into_rtranclp rtranclp.rtrancl_refl)
  then show ?thesis using c4(2) by (intro exI [of _ "c3\<lparr>c_socket := s2\<rparr>"] exI [of _ key]) simp
qed

theorem concurrent_senders_lose_message_witness:
  "\<exists>c1 key. (send_step mem_env)\<^sup>*\<^sup>*
       (mem_conn role_server (\<lambda>_. []) [], [To_send TEXT [97] True, To_send TEXT [98] True])
       (c1, [Returned no_error, Returned no_error]) \<and>
     ls_stream mem_out (c_socket c1) = encode_frame True False TEXT key [98] @ encode_frame True False TEXT key [98]"
  using concurrent_senders_lose_message [OF mem_conn.stream_env_axioms mem_conn_ready,
      of role_server "\<lambda>_. []" "[]" "[98]" "[97]"] by simp

section \<open>Reconnecting\<close>

lemma run_call_closing:
  assumes "c_is_closing c"
  shows "c_is_closing (run_call E r a c) \<and> c_is_open (run_call E r a c) = c_is_open c \<and>
    c_permessage_deflate (run_call E r a c) = c_permessage_deflate c"
  using assms touchedD(12) [OF run_call_touched [of c E r a]]
  by (cases a) (auto simp: send_text_def send_binary_def send_continuation_def close_def)

lemma run_calls_closing:
  assumes "c_is_closing c"
  shows "c_is_closing (run_calls E r as c) \<and> c_is_open (run_calls E r as c) = c_is_open c \<and>
    c_permessage_deflate (run_calls E r as c) = c_permessage_deflate c"
  using assms
proof (induction as arbitrary: c)
  case (Cons a as)
  then show ?case using run_call_closing [of c E r a] by simp
qed simp

lemma send_closing:
  assumes "c_is_open c" and "c_is_closing c"
  shows "failed (fst (send_data_frame E opc d fin c))" "failed (fst (send_ping E p c))"
  using assms
  by (auto simp: send_data_frame_def prepare_data_frame_def locked_write_def send_ping_def split: option.splits)

text \<open>
  A connection cannot be used again after \<open>close\<close>: \<open>is_closing_\<close> is never cleared.  \<open>connect\<close> then
  reports success and \<open>is_open\<close> holds, but every send fails and the reader returns at once.
\<close>

lemma reconnect_after_close_is_dead:
  assumes "c_is_open c" and "\<not> c_is_closing c" and "c1 = close E False code reason c"
    and "tr_connect (e_tr E) (c_socket c1) host port = (ec, s)" and "\<not> failed ec"
    and "connect E host port c1 = (ec2, c2)"
  shows "\<not> failed ec2 \<and> c_is_open c2 \<and> failed (fst (send_data_frame E opc d fin c2)) \<and>
    failed (fst (send_ping E p c2)) \<and> read_loop E c2 = Some (Inr c2)"
proof -
  have c1: "\<not> c_is_open c1" "c_is_closing c1" using close_flags [OF assms(1,2)] assms(3) by simp_all
  let ?o = "c1\<lparr>c_socket := s, c_is_open := True\<rparr>"
  let ?f = "fire E False (c_on_open ?o) Ev_open ?o"
  have con: "ec2 = no_error" "c2 = start_reader_thread ?f"
    using assms(4-6) c1(1) by (simp_all add: connect_def open_and_start_reader_def Let_def)
  have "c_is_closing (log_event True Ev_open ?o)" using c1(2) by (simp add: log_event_def)
  from run_calls_closing [OF this] have f: "c_is_closing ?f \<and> c_is_open ?f"
    using c1(2) by (simp add: fire_def log_event_def Let_def)
  then have c2: "c_is_open c2" "c_is_closing c2" unfolding con(2) by (simp_all add: start_reader_thread_def)
  then have "read_loop E c2 = Some (Inr c2)" by (simp add: read_loop.simps [of E c2])
  then show ?thesis using c2 con(1) send_closing [OF c2] by simp
qed

lemma reconnect_after_close_is_dead_witness:
  "failed (fst (send_ping mem_env [] (snd (connect mem_env ''h'' ''80''
     (close mem_env False 1000 [] (mem_conn role_client (\<lambda>_. []) []))))))"
proof -
  let ?c = "mem_conn role_client (\<lambda>_. []) []"
  let ?c1 = "close mem_env False 1000 [] ?c"
  obtain ec s where t: "tr_connect (e_tr mem_env) (c_socket ?c1) ''h'' ''80'' = (ec, s)"
    by (cases "tr_connect (e_tr mem_env) (c_socket ?c1) ''h'' ''80''")
  have "ec = no_error" using t mem_connect_ok [of "c_socket ?c1" "''h''" "''80''"] by simp
  moreover obtain ec2 c2 where "connect mem_env ''h'' ''80'' ?c1 = (ec2, c2)"
    by (cases "connect mem_env ''h'' ''80'' ?c1")
  ultimately show ?thesis
    using reconnect_after_close_is_dead [OF _ _ refl t, of ec2 c2 TEXT "[]" True "[]"] by simp
qed

end
