(* ===== verification/Handshake.thy ===== *)
theory Handshake
  imports Prelude "HOL-Library.Sublist"
begin

text \<open>
  The HTTP opening handshake (\<open>src/handshake.cpp\<close>).  SHA-1, the base64 filter of OpenSSL and the random
  device are the parameter \<open>crypto\<close>.  Requests and responses are shown to be parsed back by
  \<open>parse_http_headers\<close>, and to end at their only empty line.
\<close>

section \<open>Model\<close>

record crypto =
  cr_sha1 :: "bytes \<Rightarrow> bytes"
  cr_base64 :: "bytes \<Rightarrow> string"

definition cr :: char where "cr = CHR 0x0D"
definition lf :: char where "lf = CHR 0x0A"

abbreviation crlf :: string where "crlf \<equiv> [cr, lf]"

definition base64_encode :: "crypto \<Rightarrow> bytes \<Rightarrow> string" where
  "base64_encode C data = cr_base64 C data"

text \<open>\<open>std::tolower\<close> in the C locale.\<close>

definition lower_char :: "char \<Rightarrow> char" where
  "lower_char ch =
     (let n = (of_char ch :: nat) in if 65 \<le> n \<and> n \<le> 90 then char_of (n + 32) else ch)"

definition to_lower :: "string \<Rightarrow> string" where
  "to_lower s = map lower_char s"

definition trim_crlf :: "string \<Rightarrow> string" where
  "trim_crlf s = rev (dropWhile (\<lambda>ch. ch = cr \<or> ch = lf) (rev s))"

text \<open>\<open>rd() & 0xFF\<close>, sixteen times; \<open>rd\<close> is the sequence of values of the device.\<close>

definition generate_key :: "crypto \<Rightarrow> (nat \<Rightarrow> u32) \<Rightarrow> string" where
  "generate_key C rd = base64_encode C (map (\<lambda>i. ucast (rd i AND 0xFF)) [0..<16])"

definition magic :: string where
  "magic = ''258EAFA5-E914-47DA-95CA-C5AB0DC85B11''"

definition compute_accept :: "crypto \<Rightarrow> string \<Rightarrow> string" where
  "compute_accept C key = base64_encode C (cr_sha1 C (bytes_of_string (key @ magic)))"

definition build_client_request :: "string \<Rightarrow> string \<Rightarrow> string \<Rightarrow> string \<Rightarrow> string \<Rightarrow> string" where
  "build_client_request host port path key extensions =
     ''GET '' @ path @ '' HTTP/1.1'' @ crlf @
     ''Host: '' @ host @ (if port \<noteq> [] \<and> port \<noteq> ''80'' \<and> port \<noteq> ''443'' then '':'' @ port else []) @ crlf @
     ''Upgrade: websocket'' @ crlf @
     ''Connection: Upgrade'' @ crlf @
     ''Sec-WebSocket-Key: '' @ key @ crlf @
     ''Sec-WebSocket-Version: 13'' @ crlf @
     (if extensions \<noteq> [] then ''Sec-WebSocket-Extensions: '' @ extensions @ crlf else []) @
     crlf"

text \<open>\<open>std::getline\<close> on a string stream: \<open>None\<close> when nothing is left.\<close>

definition get_line :: "string \<Rightarrow> (string \<times> string) option" where
  "get_line s = (if s = [] then None else Some (takeWhile (\<lambda>ch. ch \<noteq> lf) s, drop 1 (dropWhile (\<lambda>ch. ch \<noteq> lf) s)))"

lemma get_line_shorter: "get_line s = Some (line, rest) \<Longrightarrow> length rest < length s"
proof -
  assume g: "get_line s = Some (line, rest)"
  then have "s \<noteq> []" "length rest = length (dropWhile (\<lambda>ch. ch \<noteq> lf) s) - 1"
    by (auto simp: get_line_def split: if_splits)
  then show ?thesis using length_dropWhile_le [of "\<lambda>ch. ch \<noteq> lf" s] by (cases s) auto
qed

text \<open>\<open>if (!line.empty() && line.back() == '\r') line.pop_back()\<close>\<close>

definition chop_cr :: "string \<Rightarrow> string" where
  "chop_cr line = (if line \<noteq> [] \<and> last line = cr then butlast line else line)"

type_synonym headers = "string \<Rightarrow> string option"

text \<open>One header line: name and value around the first colon.\<close>

definition add_header :: "string \<Rightarrow> headers \<Rightarrow> headers" where
  "add_header line headers =
     (if CHR '':'' \<notin> set line then headers
      else let name = trim_crlf (takeWhile (\<lambda>ch. ch \<noteq> CHR '':'') line);
               val = trim_crlf (drop 1 (dropWhile (\<lambda>ch. ch \<noteq> CHR '':'') line));
               val = dropWhile (\<lambda>ch. ch = CHR '' '') val
           in headers(to_lower name \<mapsto> val))"

function header_loop :: "string \<Rightarrow> headers \<Rightarrow> headers" where
  "header_loop stream headers =
     (case get_line stream of
        None \<Rightarrow> headers
      | Some (line, rest) \<Rightarrow>
          if line = [cr] \<or> line = [] then headers
          else header_loop rest (add_header (chop_cr line) headers))"
  by pat_completeness auto
termination
  by (relation "measure (\<lambda>(stream, headers). length stream)") (auto dest: get_line_shorter)

declare header_loop.simps [simp del]

definition parse_http_headers :: "string \<Rightarrow> headers \<Rightarrow> (string \<times> headers) option" where
  "parse_http_headers raw headers =
     (case get_line raw of
        None \<Rightarrow> None
      | Some (request_line, rest) \<Rightarrow> Some (chop_cr request_line, header_loop rest headers))"

definition build_server_response :: "string \<Rightarrow> string \<Rightarrow> string" where
  "build_server_response accept_key extensions =
     ''HTTP/1.1 101 Switching Protocols'' @ crlf @
     ''Upgrade: websocket'' @ crlf @
     ''Connection: Upgrade'' @ crlf @
     ''Sec-WebSocket-Accept: '' @ accept_key @ crlf @
     (if extensions \<noteq> [] then ''Sec-WebSocket-Extensions: '' @ extensions @ crlf else []) @
     crlf"

definition validate_client_request :: "headers \<Rightarrow> bool" where
  "validate_client_request headers =
     (case (headers ''upgrade'', headers ''connection'', headers ''sec-websocket-version'',
            headers ''sec-websocket-key'') of
        (Some upgrade, Some connection, Some version, Some key) \<Rightarrow>
          if to_lower upgrade \<noteq> ''websocket'' then False
          else if \<not> contains ''upgrade'' (to_lower connection) then False
          else if version \<noteq> ''13'' then False
          else True
      | _ \<Rightarrow> False)"

section \<open>Lines\<close>

text \<open>Text that can stand in a line.\<close>

definition line_text :: "string \<Rightarrow> bool" where
  "line_text s \<longleftrightarrow> cr \<notin> set s \<and> lf \<notin> set s"

lemma cr_neq_lf [simp]: "cr \<noteq> lf" "lf \<noteq> cr"
  by (simp_all add: cr_def lf_def)

lemma get_line_text:
  assumes "line_text l"
  shows "get_line (l @ crlf @ rest) = Some (l @ [cr], rest)"
proof -
  have "takeWhile (\<lambda>ch. ch \<noteq> lf) (l @ crlf @ rest) = l @ [cr]"
    using assms by (subst takeWhile_append2) (auto simp: line_text_def)
  moreover have "dropWhile (\<lambda>ch. ch \<noteq> lf) (l @ crlf @ rest) = lf # rest"
    using assms by (subst dropWhile_append2) (auto simp: line_text_def)
  ultimately show ?thesis by (simp add: get_line_def)
qed

lemma chop_cr_text [simp]: "chop_cr (l @ [cr]) = l"
  by (simp add: chop_cr_def)

lemma trim_text: "line_text s \<Longrightarrow> trim_crlf s = s"
proof (cases "rev s")
  case (Cons x xs)
  assume "line_text s"
  then have "x \<noteq> cr" "x \<noteq> lf" using Cons by (metis line_text_def list.set_intros(1) set_rev)+
  then show ?thesis using Cons by (simp add: trim_crlf_def)
qed (simp add: trim_crlf_def)

lemma line_text_append [simp]: "line_text (a @ b) \<longleftrightarrow> line_text a \<and> line_text b"
  by (auto simp: line_text_def)

lemma line_text_Cons [simp]: "line_text (x # b) \<longleftrightarrow> x \<noteq> cr \<and> x \<noteq> lf \<and> line_text b"
  by (auto simp: line_text_def)

lemma line_text_Nil [simp]: "line_text []"
  by (simp add: line_text_def)

text \<open>Printable characters other than the two line ends.\<close>

lemma char_neq_crlf [simp]: "CHR '':'' \<noteq> cr" "CHR '':'' \<noteq> lf" "CHR '' '' \<noteq> cr" "CHR '' '' \<noteq> lf"
  by (simp_all add: cr_def lf_def)

text \<open>\<open>name: value\<close> with a value that neither starts with a blank nor breaks the line.\<close>

definition header_value :: "string \<Rightarrow> bool" where
  "header_value v \<longleftrightarrow> line_text v \<and> (v = [] \<or> hd v \<noteq> CHR '' '')"

lemma header_line:
  assumes "line_text name" and "CHR '':'' \<notin> set name" and "header_value v"
  shows "header_loop (name @ '': '' @ v @ crlf @ rest) h = header_loop rest (h(to_lower name \<mapsto> v))"
proof -
  let ?l = "name @ '': '' @ v"
  have l: "line_text ?l" using assms(1,3) by (simp add: header_value_def)
  have split: "takeWhile (\<lambda>ch. ch \<noteq> CHR '':'') ?l = name" "dropWhile (\<lambda>ch. ch \<noteq> CHR '':'') ?l = '': '' @ v"
    using assms(2) by (subst takeWhile_append2 dropWhile_append2; auto)+
  have v: "dropWhile (\<lambda>ch. ch = CHR '' '') ('' '' @ v) = v"
    using assms(3) by (cases v) (auto simp: header_value_def)
  have "line_text ('' '' @ v)" using assms(3) by (simp add: header_value_def)
  then have "add_header ?l h = h(to_lower name \<mapsto> v)"
    using split v trim_text [OF assms(1)] trim_text [of "'' '' @ v"] by (simp add: add_header_def)
  moreover have "get_line (name @ '': '' @ v @ crlf @ rest) = Some (?l @ [cr], rest)"
    using get_line_text [OF l, of rest] by simp
  ultimately show ?thesis
    by (simp add: header_loop.simps [of "name @ '': '' @ v @ crlf @ rest"] del: append_assoc append.simps)
qed

lemma header_end: "header_loop (crlf @ rest) h = h"
  using get_line_text [of "[]" rest] by (simp add: header_loop.simps [of "cr # lf # rest"])

section \<open>Message heads\<close>

text \<open>A start line and header fields, as both builders write them.\<close>

definition field_line :: "string \<times> string \<Rightarrow> string" where
  "field_line f = fst f @ '': '' @ snd f"

definition http_head :: "string \<Rightarrow> (string \<times> string) list \<Rightarrow> string" where
  "http_head start fs = start @ crlf @ concat (map (\<lambda>f. field_line f @ crlf) fs) @ crlf"

definition field_ok :: "string \<times> string \<Rightarrow> bool" where
  "field_ok f \<longleftrightarrow> line_text (fst f) \<and> CHR '':'' \<notin> set (fst f) \<and> header_value (snd f)"

definition fields_map :: "(string \<times> string) list \<Rightarrow> headers" where
  "fields_map fs = foldl (\<lambda>h f. h(to_lower (fst f) \<mapsto> snd f)) Map.empty fs"

lemma header_loop_fields:
  "list_all field_ok fs \<Longrightarrow>
   header_loop (concat (map (\<lambda>f. field_line f @ crlf) fs) @ crlf @ rest) h
     = foldl (\<lambda>h f. h(to_lower (fst f) \<mapsto> snd f)) h fs"
proof (induction fs arbitrary: h)
  case Nil
  then show ?case using header_end [of rest h] by simp
next
  case (Cons f fs)
  have "header_loop (fst f @ '': '' @ snd f @ crlf @ (concat (map (\<lambda>f. field_line f @ crlf) fs) @ crlf @ rest)) h
      = header_loop (concat (map (\<lambda>f. field_line f @ crlf) fs) @ crlf @ rest) (h(to_lower (fst f) \<mapsto> snd f))"
    using Cons.prems by (intro header_line) (auto simp: field_ok_def)
  then show ?case using Cons by (simp add: field_line_def)
qed

lemma parse_http_head:
  assumes "line_text start" and "list_all field_ok fs"
  shows "parse_http_headers (http_head start fs) Map.empty = Some (start, fields_map fs)"
  using get_line_text [OF assms(1)] header_loop_fields [OF assms(2), of "[]"]
  by (simp add: parse_http_headers_def http_head_def fields_map_def)

text \<open>The only empty line of a head is its last: \<open>read_until\<close> stops nowhere before it.\<close>

lemma crlfcrlf_at_end:
  assumes "list_all (\<lambda>l. l \<noteq> [] \<and> line_text l) ls"
    and "concat (map (\<lambda>l. l @ crlf) ls) @ crlf = v @ crlf @ crlf @ x"
  shows "x = []"
  using assms
proof (induction ls arbitrary: v)
  case Nil
  then have "length (v @ crlf @ crlf @ x) = 2" by (metis concat.simps(1) append_Nil list.map(1) length_Cons
        list.size(3) numeral_2_eq_2)
  then show ?case by simp
next
  case (Cons l ls)
  let ?w = "concat (map (\<lambda>l. l @ crlf) ls) @ crlf"
  have eq: "l @ crlf @ ?w = v @ crlf @ crlf @ x" using Cons.prems(2) by simp
  have l: "l \<noteq> []" "line_text l" using Cons.prems(1) by simp_all
  consider (inside) u where "l = v @ u" "u \<noteq> []" | (before) u where "v = l @ u"
    using eq by (metis append_eq_append_conv2 append_Nil2)
  then show ?case
  proof cases
    case inside
    then have "u @ crlf @ ?w = crlf @ crlf @ x" using eq by simp
    then have "hd u = cr" using inside(2) by (cases u) auto
    then show ?thesis using l(2) inside by (cases u) auto
  next
    case before
    then have eq2: "crlf @ ?w = u @ crlf @ crlf @ x" using eq by simp
    consider "u = []" | "u = [cr]" | u' where "u = crlf @ u'"
      using eq2 by (cases u rule: list.exhaust; cases "tl u") auto
    then show ?thesis
    proof cases
      case 1
      then have w: "?w = crlf @ x" using eq2 by simp
      show ?thesis
      proof (cases ls)
        case Nil
        then show ?thesis using w by simp
      next
        case (Cons l' ls')
        then obtain z zs where "l' = z # zs" "z \<noteq> cr" using Cons.prems(1) by (cases l') auto
        then show ?thesis using w Cons by simp
      qed
    next
      case 2
      then show ?thesis using eq2 by simp
    next
      case 3
      then have "?w = u' @ crlf @ crlf @ x" using eq2 by simp
      then show ?thesis using Cons.IH Cons.prems(1) by simp
    qed
  qed
qed

lemma http_head_first_end:
  assumes "line_text start" and "start \<noteq> []" and "list_all field_ok fs" and "j < length (http_head start fs)"
  shows "\<not> suffix (crlf @ crlf) (take j (http_head start fs))"
proof
  assume "suffix (crlf @ crlf) (take j (http_head start fs))"
  then obtain v where v: "take j (http_head start fs) = v @ crlf @ crlf" by (auto simp: suffix_def)
  let ?ls = "start # map field_line fs"
  have "concat (map (\<lambda>l. l @ crlf) ?ls) @ crlf = http_head start fs" by (simp add: http_head_def comp_def)
  also have "\<dots> = v @ crlf @ crlf @ drop j (http_head start fs)"
    using v by (metis append.assoc append_take_drop_id)
  finally have "drop j (http_head start fs) = []"
  proof (rule crlfcrlf_at_end [rotated])
    show "list_all (\<lambda>l. l \<noteq> [] \<and> line_text l) ?ls"
      using assms(1-3) by (auto simp: list_all_iff field_ok_def field_line_def header_value_def)
  qed
  then show False using assms(4) by simp
qed

lemma http_head_suffix: "suffix (crlf @ crlf) (http_head start fs)"
proof (cases fs rule: rev_cases)
  case Nil
  then show ?thesis by (simp add: http_head_def suffix_def)
next
  case (snoc fs' f)
  then have "http_head start fs = (start @ crlf @ concat (map (\<lambda>f. field_line f @ crlf) fs') @ field_line f) @ crlf @ crlf"
    by (simp add: http_head_def)
  then show ?thesis unfolding suffix_def by blast
qed

section \<open>Requests and responses\<close>

definition host_value :: "string \<Rightarrow> string \<Rightarrow> string" where
  "host_value host port = host @ (if port \<noteq> [] \<and> port \<noteq> ''80'' \<and> port \<noteq> ''443'' then '':'' @ port else [])"

definition extension_fields :: "string \<Rightarrow> (string \<times> string) list" where
  "extension_fields extensions = (if extensions \<noteq> [] then [(''Sec-WebSocket-Extensions'', extensions)] else [])"

definition request_fields :: "string \<Rightarrow> string \<Rightarrow> string \<Rightarrow> string \<Rightarrow> (string \<times> string) list" where
  "request_fields host port key extensions =
     [(''Host'', host_value host port), (''Upgrade'', ''websocket''), (''Connection'', ''Upgrade''),
      (''Sec-WebSocket-Key'', key), (''Sec-WebSocket-Version'', ''13'')] @ extension_fields extensions"

definition response_fields :: "string \<Rightarrow> string \<Rightarrow> (string \<times> string) list" where
  "response_fields accept_key extensions =
     [(''Upgrade'', ''websocket''), (''Connection'', ''Upgrade''), (''Sec-WebSocket-Accept'', accept_key)]
     @ extension_fields extensions"

definition request_line :: "string \<Rightarrow> string" where
  "request_line path = ''GET '' @ path @ '' HTTP/1.1''"

lemma build_client_request_head:
  "build_client_request host port path key extensions =
     http_head (request_line path) (request_fields host port key extensions)"
  by (simp add: build_client_request_def http_head_def request_line_def request_fields_def extension_fields_def
      field_line_def host_value_def)

lemma build_server_response_head:
  "build_server_response accept_key extensions =
     http_head ''HTTP/1.1 101 Switching Protocols'' (response_fields accept_key extensions)"
  by (simp add: build_server_response_def http_head_def response_fields_def extension_fields_def field_line_def)

lemma lower_names:
  "to_lower ''Host'' = ''host''" "to_lower ''Upgrade'' = ''upgrade''" "to_lower ''Connection'' = ''connection''"
  "to_lower ''Sec-WebSocket-Key'' = ''sec-websocket-key''"
  "to_lower ''Sec-WebSocket-Version'' = ''sec-websocket-version''"
  "to_lower ''Sec-WebSocket-Accept'' = ''sec-websocket-accept''"
  "to_lower ''Sec-WebSocket-Extensions'' = ''sec-websocket-extensions''"
  "to_lower ''websocket'' = ''websocket''"
  by code_simp+

lemma fixed_fields_ok:
  "header_value v \<Longrightarrow> field_ok (''Host'', v)" "field_ok (''Upgrade'', ''websocket'')"
  "field_ok (''Connection'', ''Upgrade'')" "header_value v \<Longrightarrow> field_ok (''Sec-WebSocket-Key'', v)"
  "field_ok (''Sec-WebSocket-Version'', ''13'')" "header_value v \<Longrightarrow> field_ok (''Sec-WebSocket-Accept'', v)"
  "header_value v \<Longrightarrow> field_ok (''Sec-WebSocket-Extensions'', v)"
  by (simp_all add: field_ok_def line_text_def header_value_def cr_def lf_def)

lemma request_fields_ok:
  "header_value (host_value host port) \<Longrightarrow> header_value key \<Longrightarrow> header_value extensions \<Longrightarrow>
   list_all field_ok (request_fields host port key extensions)"
  by (simp add: request_fields_def extension_fields_def fixed_fields_ok)

lemma response_fields_ok:
  "header_value accept_key \<Longrightarrow> header_value extensions \<Longrightarrow> list_all field_ok (response_fields accept_key extensions)"
  by (simp add: response_fields_def extension_fields_def fixed_fields_ok)

lemma start_lines_ok:
  "line_text path \<Longrightarrow> line_text (request_line path)" "request_line path \<noteq> []"
  "line_text ''HTTP/1.1 101 Switching Protocols''"
  by (simp_all add: request_line_def cr_def lf_def)

lemma fields_map_request:
  "fields_map (request_fields host port key extensions) ''upgrade'' = Some ''websocket''"
  "fields_map (request_fields host port key extensions) ''connection'' = Some ''Upgrade''"
  "fields_map (request_fields host port key extensions) ''sec-websocket-version'' = Some ''13''"
  "fields_map (request_fields host port key extensions) ''sec-websocket-key'' = Some key"
  "fields_map (request_fields host port key extensions) ''host'' = Some (host_value host port)"
  "fields_map (request_fields host port key extensions) ''sec-websocket-extensions'' =
     (if extensions = [] then None else Some extensions)"
  by (simp_all add: fields_map_def request_fields_def extension_fields_def lower_names)

lemma fields_map_response:
  "fields_map (response_fields accept_key extensions) ''sec-websocket-accept'' = Some accept_key"
  "fields_map (response_fields accept_key extensions) ''sec-websocket-extensions'' =
     (if extensions = [] then None else Some extensions)"
  by (simp_all add: fields_map_def response_fields_def extension_fields_def lower_names)

lemma validate_request_fields:
  "validate_client_request (fields_map (request_fields host port key extensions))"
proof -
  have "contains ''upgrade'' (to_lower ''Upgrade'')" by code_simp
  then show ?thesis by (simp add: validate_client_request_def fields_map_request lower_names)
qed

section \<open>Properties\<close>

text \<open>
  The server's parser recovers what the client's request says: for any path, host, key and extension
  offer that do not break lines, the request is accepted by \<open>validate_client_request\<close>, and key,
  extensions and host are found under their lower-case names with exactly the client's values.
\<close>

lemma request_roundtrip:
  assumes "line_text path" and "header_value (host_value host port)" and "header_value key"
    and "header_value extensions"
  shows "\<exists>h. parse_http_headers (build_client_request host port path key extensions) Map.empty
        = Some (''GET '' @ path @ '' HTTP/1.1'', h) \<and>
    validate_client_request h \<and> h ''sec-websocket-key'' = Some key \<and> h ''host'' = Some (host_value host port) \<and>
    h ''sec-websocket-extensions'' = (if extensions = [] then None else Some extensions)"
  using parse_http_head [OF start_lines_ok(1) [OF assms(1)] request_fields_ok [OF assms(2-4)]]
  by (simp add: build_client_request_head request_line_def validate_request_fields fields_map_request)

lemma request_roundtrip_witness:
  "\<exists>h. parse_http_headers (build_client_request ''example.org'' ''8080'' ''/chat'' ''dGhlIHNhbXBsZSBub25jZQ=='' []) Map.empty
        = Some (''GET /chat HTTP/1.1'', h) \<and> validate_client_request h \<and> h ''host'' = Some ''example.org:8080''"
  using request_roundtrip [of "''/chat''" "''example.org''" "''8080''" "''dGhlIHNhbXBsZSBub25jZQ==''" "[]"]
  by (simp add: header_value_def line_text_def host_value_def cr_def lf_def) blast

text \<open>
  The client recovers what the server's response says: the status line holds the 101 the client looks
  for, and the accept value and the extensions are found with exactly the server's values.
\<close>

lemma response_roundtrip:
  assumes "header_value accept_key" and "header_value extensions"
  shows "\<exists>status h. parse_http_headers (build_server_response accept_key extensions) Map.empty = Some (status, h) \<and>
    contains ''101'' status \<and> h ''sec-websocket-accept'' = Some accept_key \<and>
    h ''sec-websocket-extensions'' = (if extensions = [] then None else Some extensions)"
proof -
  have "contains ''101'' ''HTTP/1.1 101 Switching Protocols''" by simp
  then show ?thesis
    using parse_http_head [OF start_lines_ok(3) response_fields_ok [OF assms]]
    by (simp add: build_server_response_head fields_map_response)
qed

lemma response_roundtrip_witness:
  "\<exists>status h. parse_http_headers (build_server_response ''s3pPLMBiTxaQ9kYGzzhZRbK+xOo='' []) Map.empty = Some (status, h) \<and>
     h ''sec-websocket-accept'' = Some ''s3pPLMBiTxaQ9kYGzzhZRbK+xOo='' "
  using response_roundtrip [of "''s3pPLMBiTxaQ9kYGzzhZRbK+xOo=''" "[]"]
  by (simp add: header_value_def line_text_def cr_def lf_def) blast

end
