(* ===== verification/Handshake_Stream.thy ===== *)
theory Handshake_Stream
  imports Handshake Transport
begin

text \<open>
  Message heads on a stream: a transport whose \<open>read_until\<close> stops at the delimiter reads exactly the head
  and leaves what follows it.  Client and server both rest on this.
\<close>

lemma bytes_of_string_of_bytes [simp]: "bytes_of_string (string_of_bytes bs) = bs"
proof -
  have "(of_char (char_of (unat b) :: char) :: u8) = b" for b :: u8
  proof -
    have "unat b < 256" using unsigned_less [of b] by simp
    then have "of_char (char_of (unat b) :: char) = unat b" by (simp add: of_char_of)
    then have "unat (of_char (char_of (unat b) :: char) :: u8) = unat b" by (simp add: unat_of_char)
    then show ?thesis by (simp only: unsigned_word_eqI)
  qed
  then show ?thesis by (simp add: bytes_of_string_def string_of_bytes_def comp_def)
qed

lemma suffix_bytes_of_string: "suffix (bytes_of_string d) (bytes_of_string s) \<longleftrightarrow> suffix d s"
proof
  assume "suffix (bytes_of_string d) (bytes_of_string s)"
  then obtain v where "bytes_of_string s = v @ bytes_of_string d" by (auto simp: suffix_def)
  then have "s = string_of_bytes v @ d" by (metis string_of_bytes_append string_of_bytes_of_string)
  then show "suffix d s" by (simp add: suffix_def)
qed (auto simp: suffix_def)

lemma take_bytes_of_string: "take j (bytes_of_string s) = bytes_of_string (take j s)"
  by (simp add: bytes_of_string_def take_map)

context exact_stream
begin

lemma read_http_head:
  assumes "live s" and "inbound s = bytes_of_string (http_head start fs) @ rest"
    and "line_text start" and "start \<noteq> []" and "list_all field_ok fs"
  shows "\<exists>s'. tr_read_until t s [] (bytes_of_string (crlf @ crlf))
      = Some (bytes_of_string (http_head start fs), no_error, s') \<and> live s' \<and> inbound s' = rest \<and>
      outbound s' = outbound s"
proof -
  let ?h = "http_head start fs" and ?d = "bytes_of_string (crlf @ crlf)"
  have d: "?d \<noteq> []" by (simp add: bytes_of_string_def)
  have k: "0 < length ?h" by (simp add: http_head_def)
  have t: "take j (inbound s) = bytes_of_string (take j ?h)" if "j \<le> length ?h" for j
    using assms(2) that by (simp add: take_bytes_of_string)
  have "suffix ?d ([] @ take (length ?h) (inbound s))"
    using http_head_suffix t [of "length ?h"] by (simp only: suffix_bytes_of_string append_Nil take_all order_refl)
  moreover have "\<forall>j. 0 < j \<longrightarrow> j < length ?h \<longrightarrow> \<not> suffix ?d ([] @ take j (inbound s))"
    using http_head_first_end [OF assms(3-5)] t by (auto simp only: suffix_bytes_of_string append_Nil dest: less_imp_le)
  ultimately obtain s' where
      "tr_read_until t s [] ?d = Some ([] @ take (length ?h) (inbound s), no_error, s')"
      "live s'" "inbound s' = drop (length ?h) (inbound s)" "outbound s' = outbound s"
    using read_until_found [OF assms(1) d k] assms(2) by (metis length_append length_bytes_of_string le_add1)
  then show ?thesis using assms(2) by simp
qed

end

end
