(* ===== verification/Openssl_Context.thy ===== *)
theory Openssl_Context
  imports Transport
begin

text \<open>
  TLS contexts of the POSIX transport (\<open>class openssl_context\<close>, \<open>src/net/openssl_context.cpp\<close>).  OpenSSL
  is the parameter \<open>openssl\<close>, with its own state \<open>'o\<close>; a non-null \<open>SSL_CTX *\<close> is a number.  The object
  is its one member \<open>ctx_\<close>.
\<close>

section \<open>Model\<close>

datatype ctx_role = ctx_client | ctx_server

record 'o openssl =
  o_method :: "ctx_role \<Rightarrow> bool"
  o_ctx_new :: "'o \<Rightarrow> ctx_role \<Rightarrow> nat option \<times> 'o"
  o_set_min_proto :: "'o \<Rightarrow> nat \<Rightarrow> nat \<Rightarrow> 'o"
  o_ctx_free :: "'o \<Rightarrow> nat \<Rightarrow> 'o"
  o_set_verify :: "'o \<Rightarrow> nat \<Rightarrow> int \<Rightarrow> 'o"
  o_load_verify :: "'o \<Rightarrow> nat \<Rightarrow> string \<Rightarrow> int \<times> 'o"
  o_use_chain :: "'o \<Rightarrow> nat \<Rightarrow> string \<Rightarrow> int \<times> 'o"
  o_use_key :: "'o \<Rightarrow> nat \<Rightarrow> string \<Rightarrow> int \<times> 'o"

type_synonym openssl_context = "nat option"

text \<open>The constants of OpenSSL.\<close>

definition TLS1_2_VERSION :: nat where "TLS1_2_VERSION = 0x0303"
definition SSL_VERIFY_NONE :: int where "SSL_VERIFY_NONE = 0"
definition SSL_VERIFY_PEER :: int where "SSL_VERIFY_PEER = 1"
definition SSL_VERIFY_FAIL_IF_NO_PEER_CERT :: int where "SSL_VERIFY_FAIL_IF_NO_PEER_CERT = 2"

definition openssl_context_new :: "'o openssl \<Rightarrow> ctx_role \<Rightarrow> 'o \<Rightarrow> openssl_context \<times> 'o" where
  "openssl_context_new X r x =
     (if \<not> o_method X r then (None, x)
      else let (ctx, x) = o_ctx_new X x r in
           case ctx of None \<Rightarrow> (None, x) | Some c \<Rightarrow> (Some c, o_set_min_proto X x c TLS1_2_VERSION))"

definition openssl_context_destroy :: "'o openssl \<Rightarrow> openssl_context \<Rightarrow> 'o \<Rightarrow> openssl_context \<times> 'o" where
  "openssl_context_destroy X ctx x = (case ctx of None \<Rightarrow> (None, x) | Some c \<Rightarrow> (None, o_ctx_free X x c))"

definition ctx_valid :: "openssl_context \<Rightarrow> bool" where
  "ctx_valid ctx \<longleftrightarrow> ctx \<noteq> None"

text \<open>
  \<open>make\<close>: the error code and the pointer \<open>out\<close>, which names the object by its \<open>ctx_\<close>; a null pointer and
  an object without a context are never both possible in a result.
\<close>

definition make_ssl_context :: "'o openssl \<Rightarrow> ctx_role \<Rightarrow> 'o \<Rightarrow> error_code \<times> ssl_ctx \<times> 'o" where
  "make_ssl_context X r x =
     (let (out, x) = openssl_context_new X r x in
      if \<not> ctx_valid out then let (out, x) = openssl_context_destroy X out x in (make_error_code ssl_init_failed, None, x)
      else (no_error, out, x))"

definition set_verify_none :: "'o openssl \<Rightarrow> openssl_context \<Rightarrow> 'o \<Rightarrow> 'o" where
  "set_verify_none X ctx x = (case ctx of None \<Rightarrow> x | Some c \<Rightarrow> o_set_verify X x c SSL_VERIFY_NONE)"

definition load_verify_file :: "'o openssl \<Rightarrow> openssl_context \<Rightarrow> string \<Rightarrow> 'o \<Rightarrow> bool \<times> 'o" where
  "load_verify_file X ctx path x =
     (case ctx of None \<Rightarrow> (False, x) | Some c \<Rightarrow> let (rc, x) = o_load_verify X x c path in (rc = 1, x))"

definition set_verify_peer :: "'o openssl \<Rightarrow> openssl_context \<Rightarrow> bool \<Rightarrow> 'o \<Rightarrow> 'o" where
  "set_verify_peer X ctx fail_if_no_peer_cert x =
     (case ctx of
        None \<Rightarrow> x
      | Some c \<Rightarrow>
          let mode = SSL_VERIFY_PEER;
              mode = (if fail_if_no_peer_cert then or mode SSL_VERIFY_FAIL_IF_NO_PEER_CERT else mode)
          in o_set_verify X x c mode)"

definition use_certificate_chain_file :: "'o openssl \<Rightarrow> openssl_context \<Rightarrow> string \<Rightarrow> 'o \<Rightarrow> bool \<times> 'o" where
  "use_certificate_chain_file X ctx path x =
     (case ctx of None \<Rightarrow> (False, x) | Some c \<Rightarrow> let (rc, x) = o_use_chain X x c path in (rc = 1, x))"

definition use_private_key_file :: "'o openssl \<Rightarrow> openssl_context \<Rightarrow> string \<Rightarrow> 'o \<Rightarrow> bool \<times> 'o" where
  "use_private_key_file X ctx path x =
     (case ctx of None \<Rightarrow> (False, x) | Some c \<Rightarrow> let (rc, x) = o_use_key X x c path in (rc = 1, x))"

section \<open>Facts\<close>

text \<open>\<open>make\<close> succeeds exactly when it returns a context.\<close>

lemma make_ssl_context_result:
  "make_ssl_context X r x = (ec, ctx, x1) \<Longrightarrow>
     (ec = no_error \<and> ctx \<noteq> None) \<or> (ec = make_error_code ssl_init_failed \<and> ctx = None)"
  by (auto simp: make_ssl_context_def ctx_valid_def case_prod_unfold Let_def split: if_splits)

end
