(* ===== verification/Client.thy ===== *)
theory Client
  imports Steps Handshake_Stream Openssl_Context
begin

text \<open>
  The client (\<open>class client::impl\<close>, \<open>src/client.cpp\<close>): URL parsing, the opening handshake and the calls
  it forwards to its connection.  The state is one record with a field per data member.  The environment
  adds to that of the connection the cryptographic functions and OpenSSL; \<open>rd\<close> is the sequence of
  values of the random device.  \<open>run\<close> and \<open>stop\<close> drive the event loop, which carries no work of the
  client, and have no effect on this state.
\<close>

section \<open>Model\<close>

record ('s, 'o) cl_env =
  ce_env :: "'s env"
  ce_crypto :: crypto
  ce_openssl :: "'o openssl"

record ('s, 'o) client =
  cl_connection :: "'s connection"
  cl_is_open :: bool
  cl_is_closing :: bool
  cl_request_deflate :: bool
  cl_ssl_context :: ssl_ctx
  cl_openssl :: 'o

record url_info =
  url_scheme :: string
  url_host :: string
  url_port :: string
  url_path :: string
  url_secure :: bool

definition client_new :: "'s \<Rightarrow> rng \<Rightarrow> (event list \<Rightarrow> api_call list) \<Rightarrow> 'o \<Rightarrow> ('s, 'o) client" where
  "client_new s gen react x =
     \<lparr>cl_connection = set_role role_client (connection_new s gen react), cl_is_open = False,
      cl_is_closing = False, cl_request_deflate = False, cl_ssl_context = None, cl_openssl = x\<rparr>"

text \<open>\<open>work.find(pat)\<close>: the position of the first occurrence.\<close>

fun find_str :: "string \<Rightarrow> string \<Rightarrow> nat option" where
  "find_str pat [] = (if pat = [] then Some 0 else None)"
| "find_str pat (x # xs) = (if prefix pat (x # xs) then Some 0 else map_option Suc (find_str pat xs))"

definition parse_url :: "string \<Rightarrow> url_info" where
  "parse_url url =
     (let info = \<lparr>url_scheme = ''ws'', url_host = [], url_port = [], url_path = ''/'', url_secure = False\<rparr>;
          work = url;
          (info, work) = (case find_str ''://'' work of
              None \<Rightarrow> (info, work)
            | Some pos \<Rightarrow> (info\<lparr>url_scheme := take pos work, url_secure := (take pos work = ''wss'')\<rparr>, drop (pos + 3) work));
          (info, work) = (case find_str ''/'' work of
              None \<Rightarrow> (info, work)
            | Some pos \<Rightarrow> (info\<lparr>url_path := drop pos work\<rparr>, take pos work))
      in case find_str '':'' work of
           None \<Rightarrow> info\<lparr>url_host := work, url_port := (if url_secure info then ''443'' else ''80'')\<rparr>
         | Some pos \<Rightarrow> info\<lparr>url_host := take pos work, url_port := drop (pos + 1) work\<rparr>)"

definition ensure_ssl_context :: "('s, 'o) cl_env \<Rightarrow> ('s, 'o) client \<Rightarrow> error_code \<times> ('s, 'o) client" where
  "ensure_ssl_context E c =
     (if cl_ssl_context c \<noteq> None then (no_error, c)
      else let (ec, ctx, x) = make_ssl_context (ce_openssl E) ctx_client (cl_openssl c) in
           (ec, c\<lparr>cl_ssl_context := ctx, cl_openssl := x\<rparr>))"

text \<open>An operation of \<open>connection_.socket()\<close> that returns an error code.\<close>

definition on_socket :: "('s \<Rightarrow> error_code \<times> 's) \<Rightarrow> ('s, 'o) client \<Rightarrow> error_code \<times> ('s, 'o) client" where
  "on_socket f c =
     (let (ec, s) = f (c_socket (cl_connection c)) in
      (ec, c\<lparr>cl_connection := (cl_connection c)\<lparr>c_socket := s\<rparr>\<rparr>))"

text \<open>\<open>ec = f(); if (ec) return ec; g()\<close>\<close>

definition and_then ::
  "error_code \<times> 'c \<Rightarrow> ('c \<Rightarrow> error_code \<times> 'c) \<Rightarrow> error_code \<times> 'c" where
  "and_then r g = (let (ec, c) = r in if failed ec then (ec, c) else g c)"

definition open_transport :: "('s, 'o) cl_env \<Rightarrow> url_info \<Rightarrow> ('s, 'o) client \<Rightarrow> error_code \<times> ('s, 'o) client" where
  "open_transport E info c =
     (let t = e_tr (ce_env E) in
      if url_secure info
      then and_then (ensure_ssl_context E c) (\<lambda>c.
           and_then (on_socket (\<lambda>s. tr_connect t s (url_host info) (url_port info)) c) (\<lambda>c.
           and_then (on_socket (\<lambda>s. tr_enable_ssl t s (cl_ssl_context c)) c) (\<lambda>c.
           and_then (on_socket (\<lambda>s. tr_set_ssl_hostname t s (url_host info)) c) (\<lambda>c.
           on_socket (\<lambda>s. tr_ssl_handshake t s True) c))))
      else on_socket (\<lambda>s. tr_connect t s (url_host info) (url_port info)) c)"

text \<open>\<open>perform_handshake\<close>; \<open>None\<close> when \<open>read_until\<close> never returns.\<close>

definition client_handshake ::
  "('s, 'o) cl_env \<Rightarrow> (nat \<Rightarrow> u32) \<Rightarrow> url_info \<Rightarrow> ('s, 'o) client \<Rightarrow> (error_code \<times> ('s, 'o) client) option" where
  "client_handshake E rd info c =
     (let t = e_tr (ce_env E);
          key = generate_key (ce_crypto E) rd;
          extensions = (if cl_request_deflate c then permessage_deflate_offer else []);
          request = build_client_request (url_host info) (url_port info) (url_path info) key extensions;
          (ec, c) = on_socket (\<lambda>s. snd (tr_write t s (bytes_of_string request))) c
      in if failed ec then Some (ec, c)
         else case tr_read_until t (c_socket (cl_connection c)) [] (bytes_of_string (crlf @ crlf)) of
                None \<Rightarrow> None
              | Some (response, ec, s) \<Rightarrow>
                  let c = c\<lparr>cl_connection := (cl_connection c)\<lparr>c_socket := s\<rparr>\<rparr> in
                  if failed ec then Some (ec, c)
                  else case parse_http_headers (string_of_bytes response) Map.empty of
                         None \<Rightarrow> Some (make_error_code handshake_failed, c)
                       | Some (status_line, headers) \<Rightarrow>
                           if \<not> contains ''101'' status_line then Some (make_error_code handshake_failed, c)
                           else let negotiated = cl_request_deflate c \<and>
                                      (case headers ''sec-websocket-extensions'' of
                                         None \<Rightarrow> False
                                       | Some ext \<Rightarrow> header_offers_permessage_deflate ext);
                                    c = (if negotiated
                                         then c\<lparr>cl_connection := set_permessage_deflate True (cl_connection c)\<rparr>
                                         else c)
                                in Some (no_error, c))"

definition client_close :: "('s, 'o) cl_env \<Rightarrow> bool \<Rightarrow> u16 \<Rightarrow> string \<Rightarrow> ('s, 'o) client \<Rightarrow> ('s, 'o) client" where
  "client_close E in_reader status_code reason c =
     (if \<not> cl_is_open c \<or> cl_is_closing c then c
      else let c = c\<lparr>cl_is_closing := True\<rparr>;
               c = c\<lparr>cl_connection := close (ce_env E) in_reader status_code reason (cl_connection c)\<rparr>
           in c\<lparr>cl_is_open := False\<rparr>)"

text \<open>A call that the client forwards to its connection and whose error code it returns.\<close>

definition forward ::
  "('s connection \<Rightarrow> error_code \<times> 's connection) \<Rightarrow> ('s, 'o) client \<Rightarrow> error_code \<times> ('s, 'o) client" where
  "forward f c = (let (ec, k) = f (cl_connection c) in (ec, c\<lparr>cl_connection := k\<rparr>))"

definition client_send_text :: "('s, 'o) cl_env \<Rightarrow> string \<Rightarrow> bool \<Rightarrow> ('s, 'o) client \<Rightarrow> error_code \<times> ('s, 'o) client" where
  "client_send_text E text fin c = forward (send_text (ce_env E) text fin) c"

definition client_send_binary :: "('s, 'o) cl_env \<Rightarrow> bytes \<Rightarrow> bool \<Rightarrow> ('s, 'o) client \<Rightarrow> error_code \<times> ('s, 'o) client" where
  "client_send_binary E data fin c = forward (send_binary (ce_env E) data fin) c"

definition client_send_continuation ::
  "('s, 'o) cl_env \<Rightarrow> string \<Rightarrow> bool \<Rightarrow> ('s, 'o) client \<Rightarrow> error_code \<times> ('s, 'o) client" where
  "client_send_continuation E data fin c = forward (send_continuation (ce_env E) (bytes_of_string data) fin) c"

definition client_set_on_open :: "bool \<Rightarrow> ('s, 'o) client \<Rightarrow> ('s, 'o) client" where
  "client_set_on_open cb c = c\<lparr>cl_connection := set_on_open cb (cl_connection c)\<rparr>"

definition client_set_on_message :: "bool \<Rightarrow> ('s, 'o) client \<Rightarrow> ('s, 'o) client" where
  "client_set_on_message cb c = c\<lparr>cl_connection := set_on_message cb (cl_connection c)\<rparr>"

definition client_set_on_close :: "bool \<Rightarrow> ('s, 'o) client \<Rightarrow> ('s, 'o) client" where
  "client_set_on_close cb c = c\<lparr>cl_connection := set_on_close cb (cl_connection c)\<rparr>"

definition client_set_on_error :: "bool \<Rightarrow> ('s, 'o) client \<Rightarrow> ('s, 'o) client" where
  "client_set_on_error cb c = c\<lparr>cl_connection := set_on_error cb (cl_connection c)\<rparr>"

definition client_is_open :: "('s, 'o) client \<Rightarrow> bool" where
  "client_is_open c = cl_is_open c"

definition client_is_ssl :: "('s, 'o) cl_env \<Rightarrow> ('s, 'o) client \<Rightarrow> bool" where
  "client_is_ssl E c = tr_is_ssl (e_tr (ce_env E)) (c_socket (cl_connection c))"

text \<open>The event loop of the POSIX build: \<open>io_context::run\<close> and \<open>stop\<close> have empty bodies.\<close>

definition io_context_run :: "'c \<Rightarrow> 'c" where
  "io_context_run c = c"

definition io_context_stop :: "'c \<Rightarrow> 'c" where
  "io_context_stop c = c"

definition client_run :: "('s, 'o) client \<Rightarrow> ('s, 'o) client" where
  "client_run c = io_context_run c"

definition client_stop :: "('s, 'o) client \<Rightarrow> ('s, 'o) client" where
  "client_stop c = io_context_stop c"

lemma client_run_returns [simp]: "client_run c = c" "client_stop c = c"
  by (simp_all add: client_run_def client_stop_def io_context_run_def io_context_stop_def)

definition client_set_ssl_context :: "ssl_ctx \<Rightarrow> ('s, 'o) client \<Rightarrow> ('s, 'o) client" where
  "client_set_ssl_context ctx c = c\<lparr>cl_ssl_context := ctx\<rparr>"

definition enable_permessage_deflate :: "bool \<Rightarrow> ('s, 'o) client \<Rightarrow> ('s, 'o) client" where
  "enable_permessage_deflate enable c = c\<lparr>cl_request_deflate := enable\<rparr>"

text \<open>
  The callbacks of a client reach the connection only through the client: a \<open>close\<close> they make is
  \<open>client::close\<close>, and the class has no \<open>send_ping\<close>.
\<close>

primrec client_call :: "('s, 'o) cl_env \<Rightarrow> bool \<Rightarrow> api_call \<Rightarrow> ('s, 'o) client \<Rightarrow> ('s, 'o) client" where
  "client_call E r (Call_send_text text fin) c = snd (client_send_text E text fin c)"
| "client_call E r (Call_send_binary data fin) c = snd (client_send_binary E data fin c)"
| "client_call E r (Call_send_continuation data fin) c =
     snd (client_send_continuation E (string_of_bytes data) fin c)"
| "client_call E r (Call_send_ping data) c = c"
| "client_call E r (Call_close status reason) c = client_close E r status reason c"

fun client_calls :: "('s, 'o) cl_env \<Rightarrow> bool \<Rightarrow> api_call list \<Rightarrow> ('s, 'o) client \<Rightarrow> ('s, 'o) client" where
  "client_calls E r [] c = c"
| "client_calls E r (a # as) c = client_calls E r as (client_call E r a c)"

text \<open>
  \<open>connection_.activate()\<close> as the client calls it: the connection is opened, \<open>on_open_\<close> runs, and the
  reader is started.
\<close>

definition client_activate :: "('s, 'o) cl_env \<Rightarrow> ('s, 'o) client \<Rightarrow> ('s, 'o) client" where
  "client_activate E c =
     (let k = (cl_connection c)\<lparr>c_is_open := True\<rparr>;
          k1 = log_event (c_on_open k) Ev_open k;
          c = c\<lparr>cl_connection := k1\<rparr>;
          c = (if c_on_open k then client_calls E False (c_react k1 (c_events k1)) c else c)
      in c\<lparr>cl_connection := start_reader_thread (cl_connection c)\<rparr>)"

definition client_connect ::
  "('s, 'o) cl_env \<Rightarrow> (nat \<Rightarrow> u32) \<Rightarrow> string \<Rightarrow> ('s, 'o) client \<Rightarrow> (error_code \<times> ('s, 'o) client) option" where
  "client_connect E rd url c =
     (let info = parse_url url;
          (ec, c) = open_transport E info c
      in if failed ec then Some (ec, c)
         else case client_handshake E rd info c of
                None \<Rightarrow> None
              | Some (ec, c) \<Rightarrow>
                  if failed ec then Some (ec, c)
                  else let c = client_activate E c in Some (no_error, c\<lparr>cl_is_open := True\<rparr>))"

section \<open>URLs\<close>

lemma find_str_char: "x \<notin> set a \<Longrightarrow> find_str [x] (a @ x # b) = Some (length a)"
  by (induction a) auto

lemma find_str_char_none: "x \<notin> set a \<Longrightarrow> find_str [x] a = None"
  by (induction a) auto

lemma find_str_separator: "CHR '':'' \<notin> set a \<Longrightarrow> find_str ''://'' (a @ ''://'' @ b) = Some (length a)"
  by (induction a) auto

text \<open>\<open>[:port]\<close>\<close>

definition port_part :: "string option \<Rightarrow> string" where
  "port_part p = (case p of None \<Rightarrow> [] | Some q \<Rightarrow> '':'' @ q)"

lemma find_path:
  assumes "CHR ''/'' \<notin> set w" and "pth = [] \<or> hd pth = CHR ''/''"
  shows "find_str ''/'' (w @ pth) = (if pth = [] then None else Some (length w))"
  using assms by (cases pth) (auto simp: find_str_char find_str_char_none)

lemma find_port:
  assumes "CHR '':'' \<notin> set h"
  shows "find_str '':'' (h @ port_part p) = (if p = None then None else Some (length h))"
  using assms by (cases p) (simp_all add: port_part_def find_str_char find_str_char_none)

text \<open>
  C26: \<open>parse_url\<close> takes a URL apart into the parts it was put together from: scheme, host, port and path,
  with port 80 or 443 (for \<open>wss\<close>) and path \<open>/\<close> where the URL has none.
\<close>

theorem parse_url_roundtrip:
  assumes "CHR '':'' \<notin> set sch" and "CHR '':'' \<notin> set h" and "CHR ''/'' \<notin> set h"
    and "CHR ''/'' \<notin> set (port_part p)" and "pth = [] \<or> hd pth = CHR ''/''"
  shows "parse_url (sch @ ''://'' @ h @ port_part p @ pth) =
    \<lparr>url_scheme = sch, url_host = h,
     url_port = (case p of Some q \<Rightarrow> q | None \<Rightarrow> if sch = ''wss'' then ''443'' else ''80''),
     url_path = (if pth = [] then ''/'' else pth), url_secure = (sch = ''wss'')\<rparr>"
proof -
  have sep: "find_str ''://'' (sch @ ''://'' @ h @ port_part p @ pth) = Some (length sch)"
    by (rule find_str_separator [OF assms(1)])
  have pt: "find_str ''/'' ((h @ port_part p) @ pth) = (if pth = [] then None else Some (length (h @ port_part p)))"
    using assms(3-5) by (intro find_path) auto
  note fp = find_port [OF assms(2), of p]
  show ?thesis
    unfolding parse_url_def Let_def sep option.case prod.case
    using pt fp by (cases p; cases "pth = []") (simp_all add: port_part_def)
qed

theorem parse_url_roundtrip_witness:
  "parse_url ''wss://example.org/chat'' =
     \<lparr>url_scheme = ''wss'', url_host = ''example.org'', url_port = ''443'', url_path = ''/chat'', url_secure = True\<rparr>"
  using parse_url_roundtrip [of "''wss''" "''example.org''" None "''/chat''"] by (simp add: port_part_def)

section \<open>The callbacks of a client that is not yet open\<close>

text \<open>Calls of a callback that have an effect while \<open>is_open_\<close> of the client is false.\<close>

definition client_send_call :: "api_call \<Rightarrow> bool" where
  "client_send_call a \<longleftrightarrow> (case a of Call_close _ _ \<Rightarrow> False | Call_send_ping _ \<Rightarrow> False | _ \<Rightarrow> True)"

lemma client_call_not_open:
  "\<not> cl_is_open c \<Longrightarrow>
   client_call E r a c =
     (if client_send_call a then c\<lparr>cl_connection := run_call (ce_env E) r a (cl_connection c)\<rparr> else c)"
  by (cases a) (simp_all add: client_send_call_def client_send_text_def client_send_binary_def
      client_send_continuation_def forward_def client_close_def case_prod_unfold Let_def)

lemma client_calls_not_open:
  "\<not> cl_is_open c \<Longrightarrow>
   client_calls E r as c = c\<lparr>cl_connection := run_calls (ce_env E) r (filter client_send_call as) (cl_connection c)\<rparr>"
  by (induction as arbitrary: c) (simp_all add: client_call_not_open)

lemma send_calls_only: "list_all (\<lambda>a. \<not> is_close_call a) (filter client_send_call as)"
  by (auto simp: list_all_iff client_send_call_def is_close_call_def split: api_call.splits)

section \<open>Connecting\<close>

text \<open>The extension a response grants.\<close>

definition grants_deflate :: "headers \<Rightarrow> bool" where
  "grants_deflate h \<longleftrightarrow>
     (case h ''sec-websocket-extensions'' of None \<Rightarrow> False | Some ext \<Rightarrow> header_offers_permessage_deflate ext)"

definition client_request :: "('s, 'o) cl_env \<Rightarrow> (nat \<Rightarrow> u32) \<Rightarrow> url_info \<Rightarrow> ('s, 'o) client \<Rightarrow> string" where
  "client_request E rd info c =
     build_client_request (url_host info) (url_port info) (url_path info) (generate_key (ce_crypto E) rd)
       (if cl_request_deflate c then permessage_deflate_offer else [])"

lemma open_plain:
  "\<not> url_secure info \<Longrightarrow> tr_connect (e_tr (ce_env E)) (c_socket (cl_connection c)) (url_host info) (url_port info) = (ec, s) \<Longrightarrow>
   open_transport E info c = (ec, c\<lparr>cl_connection := (cl_connection c)\<lparr>c_socket := s\<rparr>\<rparr>)"
  by (simp add: open_transport_def on_socket_def)

lemma deflate_or:
  "(if b then k\<lparr>c_socket := s, c_permessage_deflate := True\<rparr> else k\<lparr>c_socket := s\<rparr>)
     = k\<lparr>c_socket := s, c_permessage_deflate := c_permessage_deflate k \<or> b\<rparr>"
  by (cases k) simp

locale client_stream = exact_stream "e_tr (ce_env E)" live inbound outbound fits
  for E :: "('s, 'o) cl_env" and live :: "'s \<Rightarrow> bool" and inbound outbound :: "'s \<Rightarrow> bytes"
    and fits :: "nat \<Rightarrow> bool"

sublocale client_stream \<subseteq> conn: stream_env "ce_env E" live inbound outbound fits
  by (rule stream_env.intro) (rule byte_stream_axioms)

context client_stream
begin

lemma client_handshake_head:
  assumes "live (c_socket (cl_connection c))"
    and "inbound (c_socket (cl_connection c)) = bytes_of_string (http_head status fs) @ rest"
    and "line_text status" and "status \<noteq> []" and "list_all field_ok fs"
    and "fits (length (client_request E rd info c))"
  shows "\<exists>s. live s \<and> inbound s = rest \<and>
    outbound s = outbound (c_socket (cl_connection c)) @ bytes_of_string (client_request E rd info c) \<and>
    client_handshake E rd info c =
      (if contains ''101'' status
       then Some (no_error, c\<lparr>cl_connection := (cl_connection c)\<lparr>c_socket := s,
              c_permessage_deflate := c_permessage_deflate (cl_connection c) \<or>
                cl_request_deflate c \<and> grants_deflate (fields_map fs)\<rparr>\<rparr>)
       else Some (make_error_code handshake_failed, c\<lparr>cl_connection := (cl_connection c)\<lparr>c_socket := s\<rparr>\<rparr>))"
proof -
  let ?k = "cl_connection c" and ?r = "bytes_of_string (client_request E rd info c)"
  obtain s1 where w: "tr_write (e_tr (ce_env E)) (c_socket ?k) ?r = (length ?r, no_error, s1)" "live s1"
      "outbound s1 = outbound (c_socket ?k) @ ?r" "inbound s1 = inbound (c_socket ?k)"
    using write_all [OF assms(1), of ?r] assms(6) by auto
  have "inbound s1 = bytes_of_string (http_head status fs) @ rest" using w(4) assms(2) by simp
  from read_http_head [OF w(2) this assms(3-5)]
  obtain s where u: "tr_read_until (e_tr (ce_env E)) s1 [] (bytes_of_string (crlf @ crlf))
      = Some (bytes_of_string (http_head status fs), no_error, s)" "live s" "inbound s = rest" "outbound s = outbound s1"
    by blast
  let ?c1 = "c\<lparr>cl_connection := ?k\<lparr>c_socket := s1\<rparr>\<rparr>"
  have sk: "on_socket (\<lambda>s. snd (tr_write (e_tr (ce_env E)) s ?r)) c = (no_error, ?c1)"
    using w(1) by (simp add: on_socket_def)
  have "client_handshake E rd info c =
      (if contains ''101'' status
       then Some (no_error, c\<lparr>cl_connection := ?k\<lparr>c_socket := s,
              c_permessage_deflate := c_permessage_deflate ?k \<or>
                cl_request_deflate c \<and> grants_deflate (fields_map fs)\<rparr>\<rparr>)
       else Some (make_error_code handshake_failed, c\<lparr>cl_connection := ?k\<lparr>c_socket := s\<rparr>\<rparr>))"
    using sk u(1) parse_http_head [OF assms(3,5)]
    by (simp add: client_handshake_def client_request_def grants_deflate_def [symmetric] deflate_or [symmetric]
        set_permessage_deflate_def Let_def del: bytes_of_string_append)
  then show ?thesis using w u by (intro exI [of _ s]) simp
qed

text \<open>
  \<open>on_open_\<close> of a client that is not yet open may send; whatever else it calls is without effect.
\<close>

lemma client_activate_ready:
  assumes "\<not> cl_is_open c" and "live (c_socket (cl_connection c))" and "buffers_ok (cl_connection c)"
    and "\<not> c_is_closing (cl_connection c)"
  shows "\<exists>k. client_activate E c = c\<lparr>cl_connection := k\<rparr> \<and> conn_ready live k \<and> touched (cl_connection c) k \<and>
    inbound (c_socket k) = inbound (c_socket (cl_connection c)) \<and>
    prefix (outbound (c_socket (cl_connection c))) (outbound (c_socket k)) \<and>
    (\<not> c_on_open (cl_connection c) \<longrightarrow> outbound (c_socket k) = outbound (c_socket (cl_connection c))) \<and>
    c_events k = c_events (cl_connection c) @ (if c_on_open (cl_connection c) then [Ev_open] else [])"
proof -
  let ?k = "cl_connection c"
  let ?k1 = "log_event (c_on_open ?k) Ev_open (?k\<lparr>c_is_open := True\<rparr>)"
  let ?as = "if c_on_open ?k then filter client_send_call (c_react ?k1 (c_events ?k1)) else []"
  let ?k2 = "run_calls (ce_env E) False ?as ?k1"
  have k1: "conn_ready live ?k1" "c_socket ?k1 = c_socket ?k" "touched ?k ?k1"
      "c_events ?k1 = c_events ?k @ (if c_on_open ?k then [Ev_open] else [])"
    using assms(2-4) by (auto simp: conn_ready_def log_event_def buffers_ok_def touched_def)
  have "list_all (\<lambda>a. \<not> is_close_call a) ?as" by (simp add: send_calls_only)
  note k2 = conn.run_calls_keep [OF k1(1) this, of False]
  have act: "client_activate E c = c\<lparr>cl_connection := start_reader_thread ?k2\<rparr>"
    using assms(1) by (simp add: client_activate_def client_calls_not_open Let_def)
  have st: "conn_ready live (start_reader_thread k) = conn_ready live k" "touched k (start_reader_thread k)"
      "c_socket (start_reader_thread k) = c_socket k" "c_events (start_reader_thread k) = c_events k" for k :: "'s connection"
    by (auto simp: start_reader_thread_def conn_ready_def buffers_ok_def touched_def)
  have "touched ?k (start_reader_thread ?k2)"
    by (rule touched_trans [OF touched_trans [OF k1(3) run_calls_touched] st(2)])
  moreover have "\<not> c_on_open ?k \<longrightarrow> c_socket (start_reader_thread ?k2) = c_socket ?k"
    using st(3) by (simp add: log_event_def)
  ultimately show ?thesis using act k1 k2 st(1,3,4) by (intro exI [of _ "start_reader_thread ?k2"]) simp
qed

end

section \<open>A client over the in-memory system\<close>

definition mem_crypto :: crypto where
  "mem_crypto = \<lparr>cr_sha1 = (\<lambda>bs. bs), cr_base64 = (\<lambda>bs. ''a2V5'')\<rparr>"

definition no_openssl :: "unit openssl" where
  "no_openssl =
     \<lparr>o_method = (\<lambda>r. False), o_ctx_new = (\<lambda>x r. (None, x)), o_set_min_proto = (\<lambda>x c v. x), o_ctx_free = (\<lambda>x c. x),
      o_set_verify = (\<lambda>x c m. x), o_load_verify = (\<lambda>x c p. (0, x)), o_use_chain = (\<lambda>x c p. (0, x)),
      o_use_key = (\<lambda>x c p. (0, x))\<rparr>"

definition mem_cl_env :: "(mem_world ls, unit) cl_env" where
  "mem_cl_env = \<lparr>ce_env = mem_env, ce_crypto = mem_crypto, ce_openssl = no_openssl\<rparr>"

interpretation mem_client: client_stream mem_cl_env "ls_live mem_connected" "ls_stream mem_in" "ls_stream mem_out" "\<lambda>_. True"
  by (rule client_stream.intro) (simp add: mem_cl_env_def mem_env_def mem.linux.exact_stream_axioms)

text \<open>A new client in a world where the peer will send \<open>bs\<close>.\<close>

definition mem_client :: "(event list \<Rightarrow> api_call list) \<Rightarrow> bytes \<Rightarrow> (mem_world ls, unit) client" where
  "mem_client react bs =
     client_set_on_open True
       (client_new (linux_socket_new, \<lparr>mw_in = bs, mw_out = [], mw_chunk = 4\<rparr>) (\<lambda>n. of_nat n) react ())"

lemma mem_client_connects:
  "tr_connect (e_tr (ce_env mem_cl_env)) (c_socket (cl_connection (mem_client react bs))) h p = (no_error, mem_sock bs 4)"
  by (simp add: mem_cl_env_def mem_env_def linux_transport_def ls_connect_def connect_host_def mem_os_def Let_def
      mem_client_def client_set_on_open_def client_new_def set_on_open_def set_role_def connection_new_def
      mem_sock_def linux_socket_new_def ls_is_open_def ls_close_def)

section \<open>Properties of connecting\<close>

text \<open>Once the transport is open, under TLS or not, the rest of \<open>connect\<close> takes the same course.\<close>

lemma connect_opened:
  fixes c d :: "('s, 'o) client"
  assumes "client_stream E live inbound outbound fits" and "parse_url url = info"
    and "open_transport E info c = (no_error, d)"
    and "\<not> cl_is_open d" and "\<not> c_is_closing (cl_connection d)" and "buffers_ok (cl_connection d)"
    and "live (c_socket (cl_connection d))"
    and "inbound (c_socket (cl_connection d)) = bytes_of_string (http_head status fs) @ rest"
    and "line_text status" and "contains ''101'' status" and "list_all field_ok fs"
    and "fits (length (client_request E rd info d))"
  shows "\<exists>c1. client_connect E rd url c = Some (no_error, c1) \<and> client_is_open c1 \<and>
    conn_ready live (cl_connection c1) \<and> inbound (c_socket (cl_connection c1)) = rest \<and>
    prefix (outbound (c_socket (cl_connection d)) @ bytes_of_string (client_request E rd info d))
      (outbound (c_socket (cl_connection c1))) \<and>
    (\<not> c_on_open (cl_connection d) \<longrightarrow> outbound (c_socket (cl_connection c1)) =
       outbound (c_socket (cl_connection d)) @ bytes_of_string (client_request E rd info d)) \<and>
    (c_permessage_deflate (cl_connection c1) \<longleftrightarrow>
       c_permessage_deflate (cl_connection d) \<or> cl_request_deflate d \<and> grants_deflate (fields_map fs)) \<and>
    touched ((cl_connection d)\<lparr>c_permessage_deflate := c_permessage_deflate (cl_connection c1)\<rparr>) (cl_connection c1) \<and>
    cl_is_closing c1 = cl_is_closing d \<and>
    c_events (cl_connection c1) = c_events (cl_connection d) @ (if c_on_open (cl_connection d) then [Ev_open] else [])"
proof -
  have ne: "status \<noteq> []" using assms(10) by auto
  from client_stream.client_handshake_head [OF assms(1,7,8,9) ne assms(11,12)]
  obtain s1 where s1: "live s1" "inbound s1 = rest"
      "outbound s1 = outbound (c_socket (cl_connection d)) @ bytes_of_string (client_request E rd info d)"
      "client_handshake E rd info d = Some (no_error, d\<lparr>cl_connection := (cl_connection d)\<lparr>c_socket := s1,
         c_permessage_deflate := c_permessage_deflate (cl_connection d) \<or>
           cl_request_deflate d \<and> grants_deflate (fields_map fs)\<rparr>\<rparr>)" (is "_ = Some (_, ?c2)")
    using assms(10) by auto
  have "\<not> cl_is_open ?c2" "live (c_socket (cl_connection ?c2))" "buffers_ok (cl_connection ?c2)"
      "\<not> c_is_closing (cl_connection ?c2)"
    using assms(4-6) s1(1) by (simp_all add: buffers_ok_def)
  from client_stream.client_activate_ready [OF assms(1) this] obtain k where
    k: "client_activate E ?c2 = ?c2\<lparr>cl_connection := k\<rparr>" "conn_ready live k" "touched (cl_connection ?c2) k"
      "inbound (c_socket k) = rest" "prefix (outbound s1) (outbound (c_socket k))"
      "\<not> c_on_open (cl_connection d) \<longrightarrow> outbound (c_socket k) = outbound s1"
      "c_events k = c_events (cl_connection d) @ (if c_on_open (cl_connection d) then [Ev_open] else [])"
    using s1(2) by auto
  have "client_connect E rd url c = Some (no_error, ?c2\<lparr>cl_connection := k, cl_is_open := True\<rparr>)"
    using assms(2,3) s1(4) k(1) by (simp add: client_connect_def Let_def)
  moreover have "touched ((cl_connection d)\<lparr>c_permessage_deflate := c_permessage_deflate k\<rparr>) k"
    using k(3) by (cases "cl_connection d"; cases k) (simp add: touched_def)
  ultimately show ?thesis using k(2,4-7) s1(3) touchedD(12) [OF k(3)] by (simp add: client_is_open_def)
qed

lemma connect_ready:
  fixes c :: "('s, 'o) client"
  assumes "client_stream E live inbound outbound fits" and "\<not> cl_is_open c" and "\<not> c_is_closing (cl_connection c)"
    and "buffers_ok (cl_connection c)" and "parse_url url = info" and "\<not> url_secure info"
    and "tr_connect (e_tr (ce_env E)) (c_socket (cl_connection c)) (url_host info) (url_port info) = (no_error, s)"
    and "live s" and "inbound s = bytes_of_string (http_head status fs) @ rest"
    and "line_text status" and "contains ''101'' status" and "list_all field_ok fs"
    and "fits (length (client_request E rd info c))"
  shows "\<exists>c1. client_connect E rd url c = Some (no_error, c1) \<and> client_is_open c1 \<and>
    conn_ready live (cl_connection c1) \<and> inbound (c_socket (cl_connection c1)) = rest \<and>
    prefix (outbound s @ bytes_of_string (client_request E rd info c)) (outbound (c_socket (cl_connection c1))) \<and>
    (c_permessage_deflate (cl_connection c1) \<longleftrightarrow>
       c_permessage_deflate (cl_connection c) \<or> cl_request_deflate c \<and> grants_deflate (fields_map fs)) \<and>
    c_events (cl_connection c1) = c_events (cl_connection c) @ (if c_on_open (cl_connection c) then [Ev_open] else [])"
proof -
  let ?d = "c\<lparr>cl_connection := (cl_connection c)\<lparr>c_socket := s\<rparr>\<rparr>"
  have "\<not> cl_is_open ?d" "\<not> c_is_closing (cl_connection ?d)" "buffers_ok (cl_connection ?d)"
      "live (c_socket (cl_connection ?d))"
      "inbound (c_socket (cl_connection ?d)) = bytes_of_string (http_head status fs) @ rest"
    using assms(2-4,8,9) by (simp_all add: buffers_ok_def)
  moreover have rq: "client_request E rd info ?d = client_request E rd info c" by (simp add: client_request_def)
  ultimately show ?thesis
    using connect_opened [OF assms(1,5) open_plain [OF assms(6,7)] _ _ _ _ _ assms(10-12), of rest rd] assms(13) by auto
qed

lemma connect_refused:
  fixes c :: "('s, 'o) client"
  assumes "client_stream E live inbound outbound fits" and "parse_url url = info" and "\<not> url_secure info"
    and "tr_connect (e_tr (ce_env E)) (c_socket (cl_connection c)) (url_host info) (url_port info) = (no_error, s)"
    and "live s" and "inbound s = bytes_of_string (http_head status fs) @ rest"
    and "line_text status" and "status \<noteq> []" and "\<not> contains ''101'' status" and "list_all field_ok fs"
    and "fits (length (client_request E rd info c))"
  shows "\<exists>s1. client_connect E rd url c =
      Some (make_error_code handshake_failed, c\<lparr>cl_connection := (cl_connection c)\<lparr>c_socket := s1\<rparr>\<rparr>) \<and>
    live s1 \<and> inbound s1 = rest"
proof -
  let ?c0 = "c\<lparr>cl_connection := (cl_connection c)\<lparr>c_socket := s\<rparr>\<rparr>"
  have "live (c_socket (cl_connection ?c0))" "inbound (c_socket (cl_connection ?c0)) = bytes_of_string (http_head status fs) @ rest"
    using assms(5,6) by simp_all
  moreover have "fits (length (client_request E rd info ?c0))" using assms(11) by (simp add: client_request_def)
  ultimately
  obtain s1 where "live s1" "inbound s1 = rest" "client_handshake E rd info ?c0 =
      Some (make_error_code handshake_failed, c\<lparr>cl_connection := (cl_connection c)\<lparr>c_socket := s1\<rparr>\<rparr>)"
    using client_stream.client_handshake_head [OF assms(1) _ _ assms(7,8,10), of ?c0 rest rd info] assms(9) by auto
  then show ?thesis using open_plain [OF assms(3,4)] assms(2)
    by (intro exI [of _ s1]) (simp add: client_connect_def Let_def)
qed

text \<open>
  C18: Connecting to a \<open>ws\<close> URL.  The client sends its request; when the peer answers with a head whose
  status line contains \<open>101\<close>, \<open>connect\<close> succeeds: the client is open, the connection is ready on exactly
  the octets behind the head, permessage-deflate is on only if it was requested and granted, and \<open>on_open_\<close>
  has been called once.  Whatever \<open>on_open_\<close> calls, the connection is not closed: a \<open>close\<close> made there has
  no effect.  The header fields of the answer play no other part; in particular \<open>Sec-WebSocket-Accept\<close> is
  neither required nor compared.  Any other answer makes \<open>connect\<close> return \<open>handshake_failed\<close>; the client
  stays as it was, no callback is called and no reader is started.
\<close>

theorem client_connect_outcome:
  fixes c :: "('s, 'o) client"
  assumes "client_stream E live inbound outbound fits" and "\<not> cl_is_open c" and "\<not> c_is_closing (cl_connection c)"
    and "buffers_ok (cl_connection c)" and "parse_url url = info" and "\<not> url_secure info"
    and "tr_connect (e_tr (ce_env E)) (c_socket (cl_connection c)) (url_host info) (url_port info) = (no_error, s)"
    and "live s" and "inbound s = bytes_of_string (http_head status fs) @ rest"
    and "line_text status" and "status \<noteq> []" and "list_all field_ok fs"
    and "fits (length (client_request E rd info c))"
  shows "if contains ''101'' status
    then \<exists>c1. client_connect E rd url c = Some (no_error, c1) \<and> client_is_open c1 \<and>
      conn_ready live (cl_connection c1) \<and> inbound (c_socket (cl_connection c1)) = rest \<and>
      prefix (outbound s @ bytes_of_string (client_request E rd info c)) (outbound (c_socket (cl_connection c1))) \<and>
      (c_permessage_deflate (cl_connection c1) \<longleftrightarrow>
         c_permessage_deflate (cl_connection c) \<or> cl_request_deflate c \<and> grants_deflate (fields_map fs)) \<and>
      c_events (cl_connection c1) = c_events (cl_connection c) @ (if c_on_open (cl_connection c) then [Ev_open] else [])
    else \<exists>s1. client_connect E rd url c =
        Some (make_error_code handshake_failed, c\<lparr>cl_connection := (cl_connection c)\<lparr>c_socket := s1\<rparr>\<rparr>) \<and>
      live s1 \<and> inbound s1 = rest"
  using connect_ready [OF assms(1-10) _ assms(12,13)] connect_refused [OF assms(1,5-11) _ assms(12,13)] by simp

theorem client_connect_outcome_witness:
  "(\<exists>c1. client_connect mem_cl_env (\<lambda>n. 0) ''ws://h''
      (mem_client (\<lambda>_. [Call_close 1000 ''bye'']) (bytes_of_string (http_head ''HTTP/1.1 101 OK'' []) @ [0x89, 0]))
      = Some (no_error, c1) \<and> client_is_open c1 \<and> c_events (cl_connection c1) = [Ev_open]) \<and>
   (\<exists>c1. client_connect mem_cl_env (\<lambda>n. 0) ''ws://h''
      (mem_client (\<lambda>_. []) (bytes_of_string (http_head ''HTTP/1.1 404 Not Found'' []) @ []))
      = Some (make_error_code handshake_failed, c1) \<and> \<not> client_is_open c1)"
proof -
  have u: "parse_url ''ws://h'' =
      \<lparr>url_scheme = ''ws'', url_host = ''h'', url_port = ''80'', url_path = ''/'', url_secure = False\<rparr>"
    by code_simp
  have f: "\<not> cl_is_open (mem_client react bs)" "\<not> c_is_closing (cl_connection (mem_client react bs))"
      "buffers_ok (cl_connection (mem_client react bs))"
      "c_events (cl_connection (mem_client react bs)) = []" "c_on_open (cl_connection (mem_client react bs))" for react bs
    by (simp_all add: mem_client_def client_set_on_open_def client_new_def set_on_open_def set_role_def
        connection_new_def buffers_ok_def builder_new_def)
  have st: "line_text ''HTTP/1.1 101 OK''" "contains ''101'' ''HTTP/1.1 101 OK''"
      "line_text ''HTTP/1.1 404 Not Found''" "\<not> contains ''101'' ''HTTP/1.1 404 Not Found''"
    by (simp_all add: cr_def lf_def)
  let ?a = "mem_client (\<lambda>_. [Call_close 1000 ''bye'']) (bytes_of_string (http_head ''HTTP/1.1 101 OK'' []) @ [0x89, 0])"
  let ?b = "mem_client (\<lambda>_. []) (bytes_of_string (http_head ''HTTP/1.1 404 Not Found'' []) @ [])"
  have "\<exists>c1. client_connect mem_cl_env (\<lambda>n. 0) ''ws://h'' ?a = Some (no_error, c1) \<and> client_is_open c1 \<and>
      c_events (cl_connection c1) = [Ev_open]"
    using client_connect_outcome [where c = ?a, OF mem_client.client_stream_axioms f(1-3) u _ mem_client_connects,
        of "''HTTP/1.1 101 OK''" "[]" "[0x89, 0]" "\<lambda>n. 0"] st(1,2) f(4,5) by (auto simp: mem_sock_live)
  moreover have "\<exists>c1. client_connect mem_cl_env (\<lambda>n. 0) ''ws://h'' ?b = Some (make_error_code handshake_failed, c1) \<and>
      \<not> client_is_open c1"
    using client_connect_outcome [where c = ?b, OF mem_client.client_stream_axioms f(1-3) u _ mem_client_connects,
        of "''HTTP/1.1 404 Not Found''" "[]" "[]" "\<lambda>n. 0"] st(3,4) f(1) by (auto simp: mem_sock_live client_is_open_def)
  ultimately show ?thesis ..
qed

section \<open>After the peer has gone\<close>

lemma send_not_open:
  "\<not> c_is_open k \<Longrightarrow> send_data_frame E opc d fin k = (make_error_code not_open, k)"
  by (simp add: send_data_frame_def prepare_data_frame_def)

text \<open>
  \<open>is_open\<close> of the client is a flag of its own that only \<open>connect\<close> and \<open>close\<close> change.  After the
  peer's stream has ended the client still answers that it is open, while every send returns \<open>not_open\<close>;
  a \<open>close\<close> then sends nothing and calls no callback.
\<close>

lemma client_open_flag_stale:
  fixes c :: "('s, 'o) client"
  assumes "client_stream E live inbound outbound fits" and "cl_is_open c" and "\<not> cl_is_closing c"
    and "conn_ready live (cl_connection c)" and "sends_only (cl_connection c)"
    and "length (inbound (c_socket (cl_connection c))) < 2"
  shows "\<exists>k. read_loop (ce_env E) (cl_connection c) = Some (Inr k) \<and> client_is_open (c\<lparr>cl_connection := k\<rparr>) \<and>
    fst (client_send_text E text fin (c\<lparr>cl_connection := k\<rparr>)) = make_error_code not_open \<and>
    fst (client_send_binary E data fin (c\<lparr>cl_connection := k\<rparr>)) = make_error_code not_open \<and>
    client_close E in_reader code reason (c\<lparr>cl_connection := k\<rparr>)
      = c\<lparr>cl_connection := k, cl_is_closing := True, cl_is_open := False\<rparr>"
proof -
  have "byte_stream (e_tr (ce_env E)) live inbound outbound fits"
    using assms(1) by (simp add: client_stream_def exact_stream_def)
  then have "stream_env (ce_env E) live inbound outbound fits" by (rule stream_env.intro)
  from stream_end_result [OF this assms(4-6)] obtain k where
    k: "read_loop (ce_env E) (cl_connection c) = Some (Inr k)" "\<not> c_is_open k" by blast
  then show ?thesis using assms(2,3)
    by (intro exI [of _ k]) (simp add: client_is_open_def client_send_text_def client_send_binary_def forward_def
        send_text_def send_binary_def send_not_open client_close_def close_def)
qed

lemma client_open_flag_stale_witness:
  "\<exists>k. read_loop mem_env (mem_conn role_client (\<lambda>_. []) []) = Some (Inr k) \<and>
     client_is_open ((client_new (mem_sock [] 4) (\<lambda>n. 0) (\<lambda>_. []) ())\<lparr>cl_is_open := True, cl_connection := k\<rparr>)"
proof -
  let ?c = "(client_new (mem_sock [] 4) (\<lambda>n. 0) (\<lambda>_. []) ())\<lparr>cl_is_open := True, cl_connection := mem_conn role_client (\<lambda>_. []) []\<rparr>"
  have "cl_is_open ?c" "\<not> cl_is_closing ?c" "conn_ready (ls_live mem_connected) (cl_connection ?c)"
      "sends_only (cl_connection ?c)" "length (ls_stream mem_in (c_socket (cl_connection ?c))) < 2"
    by (simp_all add: client_new_def sends_only_def)
  from client_open_flag_stale [OF mem_client.client_stream_axioms this]
  show ?thesis by (simp add: mem_cl_env_def) blast
qed

end
