(* ===== verification/Server.thy ===== *)
theory Server
  imports Client
begin

text \<open>
  The server (\<open>class server::impl\<close> and \<open>class linux_acceptor\<close>, \<open>src/server.cpp\<close>, the POSIX transport).
  A connection object is named by its index in \<open>sv_objects\<close>, which stands for the pointer; each has its own
  socket state, so that what happens on one descriptor does not depend on the others.  The callbacks the
  server installs on a connection are recorded with it, because \<open>on_connection_\<close> may replace them.
\<close>

section \<open>The listening socket\<close>

text \<open>The system calls of the listener: return value, \<open>errno\<close> and the system's new state.\<close>

record 'a acc_os =
  ao_socket :: "'a \<Rightarrow> int \<times> int \<times> 'a"
  ao_setsockopt :: "'a \<Rightarrow> int \<Rightarrow> int \<times> int \<times> 'a"
  ao_inet_pton :: "string \<Rightarrow> u32 option"
  ao_bind :: "'a \<Rightarrow> int \<Rightarrow> u32 \<Rightarrow> u16 \<Rightarrow> int \<times> int \<times> 'a"
  ao_listen :: "'a \<Rightarrow> int \<Rightarrow> int \<times> int \<times> 'a"
  ao_accept :: "'a \<Rightarrow> int \<Rightarrow> int \<times> int \<times> 'a"
  ao_poll :: "'a \<Rightarrow> int \<Rightarrow> int \<times> u16 \<times> 'a"
  ao_close :: "'a \<Rightarrow> int \<Rightarrow> 'a"

text \<open>An acceptor is its member \<open>fd_\<close>; it is passed with the state of the system.\<close>

type_synonym 'a acceptor = "int \<times> 'a"

definition acceptor_close :: "'a acc_os \<Rightarrow> 'a acceptor \<Rightarrow> 'a acceptor" where
  "acceptor_close A q = (let (fd, a) = q in if fd \<ge> 0 then (-1, ao_close A a fd) else q)"

definition acceptor_is_open :: "'a acceptor \<Rightarrow> bool" where
  "acceptor_is_open q \<longleftrightarrow> fst q \<ge> 0"

definition INADDR_ANY :: u32 where "INADDR_ANY = 0"

definition listen_on :: "'a acc_os \<Rightarrow> string \<Rightarrow> u16 \<Rightarrow> 'a acceptor \<Rightarrow> error_code \<times> 'a acceptor" where
  "listen_on A host port q =
     (let (fd0, a) = acceptor_close A q;
          (fd, errno, a) = ao_socket A a
      in if fd < 0 then (system_error errno, fd, a)
         else let (rc, errno, a) = ao_setsockopt A a fd in
              if rc \<noteq> 0 then (system_error errno, acceptor_close A (fd, a))
              else case (if host = ''0.0.0.0'' \<or> host = [] then Some INADDR_ANY else ao_inet_pton A host) of
                     None \<Rightarrow> (make_error_code invalid_address, acceptor_close A (fd, a))
                   | Some addr \<Rightarrow>
                       let (rc, errno, a) = ao_bind A a fd addr port in
                       if rc \<noteq> 0 then (system_error errno, acceptor_close A (fd, a))
                       else let (rc, errno, a) = ao_listen A a fd in
                            if rc \<noteq> 0 then (system_error errno, acceptor_close A (fd, a))
                            else (no_error, fd, a))"

definition accept_one :: "'a acc_os \<Rightarrow> 'a acceptor \<Rightarrow> error_code \<times> int \<times> 'a acceptor" where
  "accept_one A q =
     (let (fd, a) = q; (client_fd, errno, a) = ao_accept A a fd in
      (if client_fd < 0 then system_error errno else no_error, client_fd, fd, a))"

section \<open>State\<close>

text \<open>A connection and, for each of its callbacks, whether it is still the one the server installed.\<close>

record 's conn_object =
  co_conn :: "'s connection"
  co_own_message :: bool
  co_own_close :: bool
  co_own_error :: bool

text \<open>Calls of the server's callbacks, with the connection they are given.\<close>

datatype server_event =
    Sv_connection nat
  | Sv_message nat bytes opcode
  | Sv_close nat u16 string
  | Sv_error nat error_text

text \<open>What \<open>on_connection_\<close> may do with the connection it is given: install its own callbacks, and call.\<close>

datatype conn_op = Op_on_open | Op_on_message | Op_on_close | Op_on_error | Op_call api_call

text \<open>A worker thread: about to run \<open>handle_accept\<close>, before the handshake, before \<open>add_connection\<close>, returned.\<close>

datatype worker = W_new int | W_pending nat | W_active nat | W_returned

record ('s, 'a) server =
  sv_acceptor :: "'a acceptor"
  sv_is_running :: bool
  sv_ssl_enabled :: bool
  sv_ssl_context :: ssl_ctx
  sv_connections :: "nat list"
  sv_pending :: "nat list"
  sv_workers :: "worker list"
  sv_on_connection :: bool
  sv_on_message :: bool
  sv_on_close :: bool
  sv_on_error :: bool
  sv_thread :: bool
  sv_objects :: "'s conn_object list"
  sv_events :: "server_event list"

text \<open>
  The environment: that of the connections, the cryptographic functions, the state of a new socket and
  generator, and what the callbacks do.
\<close>

record 's sv_env =
  se_env :: "'s env"
  se_crypto :: crypto
  se_socket :: "nat \<Rightarrow> 's"
  se_gen :: "nat \<Rightarrow> rng"
  se_greet :: "nat \<Rightarrow> conn_op list"
  se_react :: "nat \<Rightarrow> event list \<Rightarrow> api_call list"

text \<open>The constructor; \<open>ctx\<close> is the context that \<open>ssl_context::make\<close> returned.\<close>

definition server_new :: "ssl_ctx \<Rightarrow> 'a \<Rightarrow> ('s, 'a) server" where
  "server_new ctx a =
     \<lparr>sv_acceptor = (-1, a), sv_is_running = False, sv_ssl_enabled = False, sv_ssl_context = ctx,
      sv_connections = [], sv_pending = [], sv_workers = [], sv_on_connection = False, sv_on_message = False,
      sv_on_close = False, sv_on_error = False, sv_thread = False, sv_objects = [], sv_events = []\<rparr>"

section \<open>Configuration\<close>

definition server_listen :: "'a acc_os \<Rightarrow> string \<Rightarrow> u16 \<Rightarrow> ('s, 'a) server \<Rightarrow> error_code \<times> ('s, 'a) server" where
  "server_listen A host port sv =
     (let (ec, q) = listen_on A host port (sv_acceptor sv); sv = sv\<lparr>sv_acceptor := q\<rparr> in
      if failed ec then (ec, sv) else (no_error, sv\<lparr>sv_is_running := True\<rparr>))"

definition server_listen_any :: "'a acc_os \<Rightarrow> u16 \<Rightarrow> ('s, 'a) server \<Rightarrow> error_code \<times> ('s, 'a) server" where
  "server_listen_any A port sv = server_listen A ''0.0.0.0'' port sv"

definition server_set_ssl_context :: "ssl_ctx \<Rightarrow> ('s, 'a) server \<Rightarrow> ('s, 'a) server" where
  "server_set_ssl_context ctx sv =
     (if ctx \<noteq> None then sv\<lparr>sv_ssl_context := ctx, sv_ssl_enabled := True\<rparr> else sv)"

definition server_set_on_connection :: "bool \<Rightarrow> ('s, 'a) server \<Rightarrow> ('s, 'a) server" where
  "server_set_on_connection cb sv = sv\<lparr>sv_on_connection := cb\<rparr>"

definition server_set_on_message :: "bool \<Rightarrow> ('s, 'a) server \<Rightarrow> ('s, 'a) server" where
  "server_set_on_message cb sv = sv\<lparr>sv_on_message := cb\<rparr>"

definition server_set_on_close :: "bool \<Rightarrow> ('s, 'a) server \<Rightarrow> ('s, 'a) server" where
  "server_set_on_close cb sv = sv\<lparr>sv_on_close := cb\<rparr>"

definition server_set_on_error :: "bool \<Rightarrow> ('s, 'a) server \<Rightarrow> ('s, 'a) server" where
  "server_set_on_error cb sv = sv\<lparr>sv_on_error := cb\<rparr>"

text \<open>\<open>start\<close>; \<open>None\<close> is \<open>std::terminate\<close>: the assignment to a thread that is still joinable.\<close>

definition server_start :: "('s, 'a) server \<Rightarrow> (error_code \<times> ('s, 'a) server) option" where
  "server_start sv =
     (if \<not> sv_is_running sv then Some (make_error_code server_not_listening, sv)
      else if sv_thread sv then None
      else Some (no_error, sv\<lparr>sv_thread := True\<rparr>))"

definition server_is_running :: "('s, 'a) server \<Rightarrow> bool" where
  "server_is_running sv = sv_is_running sv"

section \<open>The lists of connections\<close>

text \<open>\<open>connections_\<close> is a map ordered by pointer: a sorted list of the keys.\<close>

definition add_connection :: "nat \<Rightarrow> ('s, 'a) server \<Rightarrow> ('s, 'a) server" where
  "add_connection i sv = sv\<lparr>sv_connections := insort_insert i (sv_connections sv)\<rparr>"

definition remove_connection :: "nat \<Rightarrow> ('s, 'a) server \<Rightarrow> ('s, 'a) server" where
  "remove_connection i sv = sv\<lparr>sv_connections := removeAll i (sv_connections sv)\<rparr>"

definition register_pending :: "nat \<Rightarrow> ('s, 'a) server \<Rightarrow> ('s, 'a) server" where
  "register_pending i sv = sv\<lparr>sv_pending := sv_pending sv @ [i]\<rparr>"

definition unregister_pending :: "nat \<Rightarrow> ('s, 'a) server \<Rightarrow> ('s, 'a) server" where
  "unregister_pending i sv = sv\<lparr>sv_pending := filter (\<lambda>j. j \<noteq> i) (sv_pending sv)\<rparr>"

definition sv_conn :: "('s, 'a) server \<Rightarrow> nat \<Rightarrow> 's connection" where
  "sv_conn sv i = co_conn (sv_objects sv ! i)"

definition set_conn :: "nat \<Rightarrow> 's connection \<Rightarrow> ('s, 'a) server \<Rightarrow> ('s, 'a) server" where
  "set_conn i k sv = sv\<lparr>sv_objects := (sv_objects sv)[i := (sv_objects sv ! i)\<lparr>co_conn := k\<rparr>]\<rparr>"

text \<open>\<open>conn->socket().close()\<close>\<close>

definition close_conn_socket :: "'s sv_env \<Rightarrow> nat \<Rightarrow> ('s, 'a) server \<Rightarrow> ('s, 'a) server" where
  "close_conn_socket E i sv =
     (let k = sv_conn sv i in set_conn i (k\<lparr>c_socket := tr_close (e_tr (se_env E)) (c_socket k)\<rparr>) sv)"

definition shutdown_all_sockets :: "'s sv_env \<Rightarrow> ('s, 'a) server \<Rightarrow> ('s, 'a) server" where
  "shutdown_all_sockets E sv =
     (let pending = sv_pending sv;
          sv = sv\<lparr>sv_pending := []\<rparr>;
          sv = fold (close_conn_socket E) pending sv;
          active = sv_connections sv
      in fold (close_conn_socket E) active sv)"

section \<open>Callbacks\<close>

text \<open>
  The callbacks the server installed on connection \<open>i\<close>, called with the events \<open>evs\<close>: each calls the
  server's own callback, if there is one, and \<open>on_close\<close> then takes the connection off the list.
\<close>

fun server_callback :: "nat \<Rightarrow> event \<Rightarrow> ('s, 'a) server \<Rightarrow> ('s, 'a) server" where
  "server_callback i Ev_open sv = sv"
| "server_callback i (Ev_message data opc) sv =
     (if co_own_message (sv_objects sv ! i) \<and> sv_on_message sv
      then sv\<lparr>sv_events := sv_events sv @ [Sv_message i data opc]\<rparr> else sv)"
| "server_callback i (Ev_close code reason) sv =
     (if \<not> co_own_close (sv_objects sv ! i) then sv
      else let sv = (if sv_on_close sv then sv\<lparr>sv_events := sv_events sv @ [Sv_close i code reason]\<rparr> else sv)
           in remove_connection i sv)"
| "server_callback i (Ev_error text) sv =
     (if co_own_error (sv_objects sv ! i) \<and> sv_on_error sv
      then sv\<lparr>sv_events := sv_events sv @ [Sv_error i text]\<rparr> else sv)"

definition server_callbacks :: "nat \<Rightarrow> event list \<Rightarrow> ('s, 'a) server \<Rightarrow> ('s, 'a) server" where
  "server_callbacks i evs sv = fold (server_callback i) evs sv"

text \<open>The callback that an event of the connection reaches is user code.\<close>

definition reaches_user :: "('s, 'a) server \<Rightarrow> 's conn_object \<Rightarrow> event \<Rightarrow> bool" where
  "reaches_user sv ob ev \<longleftrightarrow>
     (case ev of
        Ev_open \<Rightarrow> True
      | Ev_message _ _ \<Rightarrow> co_own_message ob \<longrightarrow> sv_on_message sv
      | Ev_close _ _ \<Rightarrow> co_own_close ob \<longrightarrow> sv_on_close sv
      | Ev_error _ \<Rightarrow> co_own_error ob \<longrightarrow> sv_on_error sv)"

definition server_react :: "'s sv_env \<Rightarrow> ('s, 'a) server \<Rightarrow> nat \<Rightarrow> event list \<Rightarrow> api_call list" where
  "server_react E sv i evs =
     (if evs \<noteq> [] \<and> reaches_user sv (sv_objects sv ! i) (last evs) then se_react E i evs else [])"

text \<open>
  An operation of connection \<open>i\<close>, with the callbacks it makes: they are dispatched to the server in the
  order in which they happened.
\<close>

definition on_conn ::
  "'s sv_env \<Rightarrow> nat \<Rightarrow> ('s connection \<Rightarrow> 's connection) \<Rightarrow> ('s, 'a) server \<Rightarrow> ('s, 'a) server" where
  "on_conn E i f sv =
     (let k = (sv_conn sv i)\<lparr>c_react := server_react E sv i\<rparr>;
          k1 = f k
      in server_callbacks i (drop (length (c_events k)) (c_events k1)) (set_conn i k1 sv))"

text \<open>
  \<open>if (on_error_) on_error_(conn, ...)\<close> while the connection is set up; it is not open yet, so that calls
  made there have no effect on it.
\<close>

definition server_error :: "nat \<Rightarrow> error_text \<Rightarrow> ('s, 'a) server \<Rightarrow> ('s, 'a) server" where
  "server_error i text sv = (if sv_on_error sv then sv\<lparr>sv_events := sv_events sv @ [Sv_error i text]\<rparr> else sv)"

primrec run_conn_op :: "'s sv_env \<Rightarrow> nat \<Rightarrow> conn_op \<Rightarrow> ('s, 'a) server \<Rightarrow> ('s, 'a) server" where
  "run_conn_op E i Op_on_open sv = set_conn i (set_on_open True (sv_conn sv i)) sv"
| "run_conn_op E i Op_on_message sv =
     sv\<lparr>sv_objects := (sv_objects sv)[i := (sv_objects sv ! i)\<lparr>co_conn := set_on_message True (sv_conn sv i), co_own_message := False\<rparr>]\<rparr>"
| "run_conn_op E i Op_on_close sv =
     sv\<lparr>sv_objects := (sv_objects sv)[i := (sv_objects sv ! i)\<lparr>co_conn := set_on_close True (sv_conn sv i), co_own_close := False\<rparr>]\<rparr>"
| "run_conn_op E i Op_on_error sv =
     sv\<lparr>sv_objects := (sv_objects sv)[i := (sv_objects sv ! i)\<lparr>co_conn := set_on_error True (sv_conn sv i), co_own_error := False\<rparr>]\<rparr>"
| "run_conn_op E i (Op_call a) sv = on_conn E i (run_call (se_env E) False a) sv"

section \<open>Accepting\<close>

text \<open>
  \<open>handle_accept\<close> up to the handshake: the new connection, registered as pending, with the descriptor and,
  if TLS is enabled, the TLS session.
\<close>

definition accept_object :: "'s sv_env \<Rightarrow> nat \<Rightarrow> 's conn_object" where
  "accept_object E i =
     \<lparr>co_conn = set_on_error True (set_on_close True (set_on_message True (set_role role_server
        (connection_new (se_socket E i) (se_gen E i) (se_react E i))))),
      co_own_message = True, co_own_close = True, co_own_error = True\<rparr>"

definition accept_tls :: "'s sv_env \<Rightarrow> nat \<Rightarrow> ('s, 'a) server \<Rightarrow> error_code \<times> ('s, 'a) server" where
  "accept_tls E i sv =
     (let t = e_tr (se_env E) in
      if sv_ssl_enabled sv \<and> sv_ssl_context sv \<noteq> None
      then let k = sv_conn sv i;
               (ec, s) = tr_enable_ssl t (c_socket k) (sv_ssl_context sv);
               (ec, s) = (if \<not> failed ec then tr_ssl_handshake t s False else (ec, s))
           in (ec, set_conn i (k\<lparr>c_socket := s\<rparr>) sv)
      else (no_error, sv))"

definition accept_setup :: "'s sv_env \<Rightarrow> int \<Rightarrow> ('s, 'a) server \<Rightarrow> bool \<times> ('s, 'a) server" where
  "accept_setup E fd sv =
     (let i = length (sv_objects sv);
          sv = sv\<lparr>sv_objects := sv_objects sv @ [accept_object E i]\<rparr>;
          sv = register_pending i sv;
          (ec, k) = adopt (se_env E) fd (sv_conn sv i);
          sv = set_conn i k sv
      in if failed ec then (False, server_error i (Err_code ec) sv)
         else let (ec, sv) = accept_tls E i sv in
              if failed ec then (False, server_error i (Err_code ec) sv) else (True, sv))"

text \<open>\<open>perform_handshake\<close>; \<open>None\<close> when \<open>read_until\<close> never returns.\<close>

definition server_handshake :: "'s sv_env \<Rightarrow> nat \<Rightarrow> ('s, 'a) server \<Rightarrow> (bool \<times> ('s, 'a) server) option" where
  "server_handshake E i sv =
     (let t = e_tr (se_env E); k = sv_conn sv i in
      case tr_read_until t (c_socket k) [] (bytes_of_string (crlf @ crlf)) of
        None \<Rightarrow> None
      | Some (request, ec, s) \<Rightarrow>
          let k = k\<lparr>c_socket := s\<rparr> in
          if failed ec then Some (False, server_error i (Err_code ec) (set_conn i k sv))
          else case parse_http_headers (string_of_bytes request) Map.empty of
                 None \<Rightarrow> Some (False, server_error i (Err_text ''Invalid HTTP request'') (set_conn i k sv))
               | Some (req_line, headers) \<Rightarrow>
                   if \<not> validate_client_request headers
                   then Some (False, server_error i (Err_text ''Invalid WebSocket handshake'') (set_conn i k sv))
                   else let accept = compute_accept (se_crypto E) (case headers ''sec-websocket-key'' of None \<Rightarrow> [] | Some v \<Rightarrow> v);
                            granted = (case headers ''sec-websocket-extensions'' of
                                         None \<Rightarrow> False | Some ext \<Rightarrow> header_offers_permessage_deflate ext);
                            k = (if granted then set_permessage_deflate True k else k);
                            extensions = (if granted then permessage_deflate_offer else []);
                            response = build_server_response accept extensions;
                            (n, ec, s) = tr_write t (c_socket k) (bytes_of_string response);
                            sv = set_conn i (k\<lparr>c_socket := s\<rparr>) sv
                        in if failed ec then Some (False, server_error i (Err_code ec) sv) else Some (True, sv))"

text \<open>\<open>on_connection_(conn); conn->activate()\<close>\<close>

definition accept_activate :: "'s sv_env \<Rightarrow> nat \<Rightarrow> ('s, 'a) server \<Rightarrow> ('s, 'a) server" where
  "accept_activate E i sv =
     (let sv = (if sv_on_connection sv
                then fold (run_conn_op E i) (se_greet E i) (sv\<lparr>sv_events := sv_events sv @ [Sv_connection i]\<rparr>)
                else sv)
      in on_conn E i (activate (se_env E)) sv)"

text \<open>The whole of \<open>handle_accept\<close>, run without interruption.\<close>

definition handle_accept :: "'s sv_env \<Rightarrow> int \<Rightarrow> ('s, 'a) server \<Rightarrow> ('s, 'a) server option" where
  "handle_accept E fd sv =
     (let i = length (sv_objects sv); (ok, sv) = accept_setup E fd sv in
      if \<not> ok then Some (unregister_pending i sv)
      else case server_handshake E i sv of
             None \<Rightarrow> None
           | Some (ok, sv) \<Rightarrow>
               if \<not> ok then Some (unregister_pending i sv)
               else Some (unregister_pending i (add_connection i (accept_activate E i sv))))"

text \<open>
  One round of \<open>accept_loop\<close>; \<open>running1\<close> and \<open>running2\<close> are what the loads of \<open>is_running_\<close> after
  \<open>poll\<close> and after a failed \<open>accept\<close> return, which another thread may have changed.
\<close>

datatype accept_round = Acc_break | Acc_again | Acc_worker int

definition POLLERR_HUP_NVAL :: u16 where "POLLERR_HUP_NVAL = 0x38"

definition accept_iteration ::
  "'a acc_os \<Rightarrow> bool \<Rightarrow> bool \<Rightarrow> ('s, 'a) server \<Rightarrow> accept_round \<times> ('s, 'a) server" where
  "accept_iteration A running1 running2 sv =
     (if \<not> sv_is_running sv then (Acc_break, sv)
      else if \<not> acceptor_is_open (sv_acceptor sv) then (Acc_break, sv)
      else let (fd, a) = sv_acceptor sv;
               (poll_rc, revents, a) = ao_poll A a fd;
               sv = sv\<lparr>sv_acceptor := (fd, a)\<rparr>
           in if \<not> running1 then (Acc_break, sv)
              else if poll_rc \<le> 0 then (Acc_again, sv)
              else if and revents POLLERR_HUP_NVAL \<noteq> 0 then (Acc_break, sv)
              else let (ec, client_fd, q) = accept_one A (sv_acceptor sv); sv = sv\<lparr>sv_acceptor := q\<rparr> in
                   if failed ec
                   then if \<not> running2 then (Acc_break, sv)
                        else if ec_value ec \<in> {125, 9, 22} then (Acc_break, sv)
                        else (Acc_again, sv)
                   else (Acc_worker client_fd, sv\<lparr>sv_workers := sv_workers sv @ [W_new client_fd]\<rparr>))"

section \<open>Stopping\<close>

text \<open>
  \<open>stop\<close> up to the point where it waits for the accept thread and the workers, and what it does once they
  have returned.
\<close>

definition stop_begin :: "'a acc_os \<Rightarrow> 's sv_env \<Rightarrow> ('s, 'a) server \<Rightarrow> ('s, 'a) server" where
  "stop_begin A E sv =
     (let sv = sv\<lparr>sv_is_running := False\<rparr>;
          sv = sv\<lparr>sv_acceptor := acceptor_close A (sv_acceptor sv)\<rparr>
      in shutdown_all_sockets E sv)"

definition join_workers :: "('s, 'a) server \<Rightarrow> ('s, 'a) server option" where
  "join_workers sv =
     (if list_all (\<lambda>w. w = W_returned) (sv_workers sv) then Some (sv\<lparr>sv_workers := []\<rparr>) else None)"

definition stop_end :: "('s, 'a) server \<Rightarrow> ('s, 'a) server option" where
  "stop_end sv = map_option (\<lambda>sv. sv\<lparr>sv_connections := []\<rparr>) (join_workers (sv\<lparr>sv_thread := False\<rparr>))"

text \<open>\<open>stop\<close> when no worker is active: \<open>None\<close> if it would wait.\<close>

definition server_stop :: "'a acc_os \<Rightarrow> 's sv_env \<Rightarrow> ('s, 'a) server \<Rightarrow> ('s, 'a) server option" where
  "server_stop A E sv = (if \<not> sv_is_running sv then Some sv else stop_end (stop_begin A E sv))"

text \<open>
  The destructor: \<open>stop\<close>, then the members; the acceptor closes, and a thread that is still joinable is
  \<open>std::terminate\<close>, here \<open>None\<close>.
\<close>

definition acceptor_destroy :: "'a acc_os \<Rightarrow> 'a acceptor \<Rightarrow> 'a acceptor" where
  "acceptor_destroy A q = acceptor_close A q"

definition server_destroy :: "'a acc_os \<Rightarrow> 's sv_env \<Rightarrow> ('s, 'a) server \<Rightarrow> ('s, 'a) server option" where
  "server_destroy A E sv =
     (case server_stop A E sv of
        None \<Rightarrow> None
      | Some sv \<Rightarrow> if sv_thread sv then None else Some (sv\<lparr>sv_acceptor := acceptor_destroy A (sv_acceptor sv)\<rparr>))"

text \<open>\<open>join\<close>, once the accept loop has returned.\<close>

definition server_join :: "('s, 'a) server \<Rightarrow> ('s, 'a) server" where
  "server_join sv = sv\<lparr>sv_thread := False\<rparr>"

section \<open>The public class\<close>

datatype server_request =
    Sr_listen_port u16
  | Sr_listen string u16
  | Sr_set_ssl_context ssl_ctx
  | Sr_set_on_connection bool
  | Sr_set_on_message bool
  | Sr_set_on_close bool
  | Sr_set_on_error bool
  | Sr_start
  | Sr_join
  | Sr_stop
  | Sr_is_running

text \<open>\<open>None\<close> is \<open>std::terminate\<close> in \<open>start\<close>, and a \<open>stop\<close> that waits for a worker.\<close>

primrec server_api ::
  "'a acc_os \<Rightarrow> 's sv_env \<Rightarrow> server_request \<Rightarrow> ('s, 'a) server \<Rightarrow> (reply \<times> ('s, 'a) server) option" where
  "server_api A E (Sr_listen_port port) sv = Some (returns_code (server_listen_any A port sv))"
| "server_api A E (Sr_listen host port) sv = Some (returns_code (server_listen A host port sv))"
| "server_api A E (Sr_set_ssl_context ctx) sv = Some (Re_void, server_set_ssl_context ctx sv)"
| "server_api A E (Sr_set_on_connection cb) sv = Some (Re_void, server_set_on_connection cb sv)"
| "server_api A E (Sr_set_on_message cb) sv = Some (Re_void, server_set_on_message cb sv)"
| "server_api A E (Sr_set_on_close cb) sv = Some (Re_void, server_set_on_close cb sv)"
| "server_api A E (Sr_set_on_error cb) sv = Some (Re_void, server_set_on_error cb sv)"
| "server_api A E Sr_start sv = map_option returns_code (server_start sv)"
| "server_api A E Sr_join sv = Some (Re_void, server_join sv)"
| "server_api A E Sr_stop sv = map_option (\<lambda>sv. (Re_void, sv)) (server_stop A E sv)"
| "server_api A E Sr_is_running sv = Some (Re_bool (server_is_running sv), sv)"

end
