(* ===== verification/Agreement.thy ===== *)
theory Agreement
  imports Server
begin

text \<open>
  The opening handshake between the two ends: what \<open>client::connect\<close> sends, \<open>server::impl::perform_handshake\<close>
  accepts, and what it answers, the client accepts; both then agree on permessage-deflate.
\<close>

section \<open>Connections of the server\<close>

lemma sv_conn_set_conn [simp]: "i < length (sv_objects sv) \<Longrightarrow> sv_conn (set_conn i k sv) i = k"
  by (simp add: sv_conn_def set_conn_def)

lemma sv_conn_set_other [simp]: "i \<noteq> j \<Longrightarrow> sv_conn (set_conn i k sv) j = sv_conn sv j"
  by (simp add: sv_conn_def set_conn_def)

lemma set_conn_fields [simp]:
  "sv_acceptor (set_conn i k sv) = sv_acceptor sv" "sv_is_running (set_conn i k sv) = sv_is_running sv"
  "sv_connections (set_conn i k sv) = sv_connections sv" "sv_pending (set_conn i k sv) = sv_pending sv"
  "sv_workers (set_conn i k sv) = sv_workers sv" "sv_events (set_conn i k sv) = sv_events sv"
  "sv_on_error (set_conn i k sv) = sv_on_error sv" "sv_on_close (set_conn i k sv) = sv_on_close sv"
  "sv_thread (set_conn i k sv) = sv_thread sv"
  "length (sv_objects (set_conn i k sv)) = length (sv_objects sv)"
  by (simp_all add: set_conn_def)

lemma server_error_fields [simp]:
  "sv_objects (server_error i text sv) = sv_objects sv" "sv_connections (server_error i text sv) = sv_connections sv"
  "sv_pending (server_error i text sv) = sv_pending sv" "sv_workers (server_error i text sv) = sv_workers sv"
  "sv_acceptor (server_error i text sv) = sv_acceptor sv" "sv_is_running (server_error i text sv) = sv_is_running sv"
  "sv_conn (server_error i text sv) j = sv_conn sv j"
  "sv_events (server_error i text sv) = sv_events sv @ (if sv_on_error sv then [Sv_error i text] else [])"
  by (simp_all add: server_error_def sv_conn_def)

section \<open>The server's side\<close>

locale server_stream = exact_stream "e_tr (se_env E)" live inbound outbound fits
  for E :: "'s sv_env" and live :: "'s \<Rightarrow> bool" and inbound outbound :: "'s \<Rightarrow> bytes"
    and fits :: "nat \<Rightarrow> bool"

sublocale server_stream \<subseteq> conn: stream_env "se_env E" live inbound outbound fits
  by (rule stream_env.intro) (rule byte_stream_axioms)

definition server_response :: "'s sv_env \<Rightarrow> string \<Rightarrow> bool \<Rightarrow> string" where
  "server_response E key granted =
     build_server_response (compute_accept (se_crypto E) key) (if granted then permessage_deflate_offer else [])"

context server_stream
begin

lemma server_handshake_head:
  assumes "i < length (sv_objects sv)" and "live (c_socket (sv_conn sv i))"
    and "inbound (c_socket (sv_conn sv i)) = bytes_of_string (http_head start fs) @ rest"
    and "line_text start" and "start \<noteq> []" and "list_all field_ok fs"
    and "validate_client_request (fields_map fs)" and "fields_map fs ''sec-websocket-key'' = Some key"
    and "fits (length (server_response E key (grants_deflate (fields_map fs))))"
  shows "\<exists>s. live s \<and> inbound s = rest \<and>
    outbound s = outbound (c_socket (sv_conn sv i)) @ bytes_of_string (server_response E key (grants_deflate (fields_map fs))) \<and>
    server_handshake E i sv = Some (True, set_conn i ((sv_conn sv i)\<lparr>c_socket := s,
      c_permessage_deflate := c_permessage_deflate (sv_conn sv i) \<or> grants_deflate (fields_map fs)\<rparr>) sv)"
proof -
  let ?k = "sv_conn sv i" and ?g = "grants_deflate (fields_map fs)"
  let ?r = "bytes_of_string (server_response E key ?g)"
  obtain s1 where u: "tr_read_until (e_tr (se_env E)) (c_socket ?k) [] (bytes_of_string (crlf @ crlf))
      = Some (bytes_of_string (http_head start fs), no_error, s1)" "live s1" "inbound s1 = rest"
      "outbound s1 = outbound (c_socket ?k)"
    using read_http_head [OF assms(2-6)] by blast
  obtain s where w: "tr_write (e_tr (se_env E)) s1 ?r = (length ?r, no_error, s)" "live s"
      "outbound s = outbound s1 @ ?r" "inbound s = inbound s1"
    using write_all [OF u(2), of ?r] assms(9) by auto
  have sk: "c_socket (if ?g then set_permessage_deflate True (?k\<lparr>c_socket := s1\<rparr>) else ?k\<lparr>c_socket := s1\<rparr>) = s1"
    by (simp add: set_permessage_deflate_def)
  have k: "(if ?g then set_permessage_deflate True (?k\<lparr>c_socket := s1\<rparr>) else ?k\<lparr>c_socket := s1\<rparr>)\<lparr>c_socket := s\<rparr>
      = ?k\<lparr>c_socket := s, c_permessage_deflate := c_permessage_deflate ?k \<or> ?g\<rparr>"
    unfolding deflate_or [symmetric] by (simp add: set_permessage_deflate_def)
  have "server_handshake E i sv = Some (True, set_conn i (?k\<lparr>c_socket := s,
      c_permessage_deflate := c_permessage_deflate ?k \<or> ?g\<rparr>) sv)"
    using u(1) w(1) parse_http_head [OF assms(4,6)] assms(7,8) k sk
    by (simp add: server_handshake_def Let_def server_response_def grants_deflate_def [symmetric]
        del: bytes_of_string_append)
  then show ?thesis using u w by (intro exI [of _ s]) simp
qed

lemma server_handshake_invalid:
  assumes "i < length (sv_objects sv)" and "live (c_socket (sv_conn sv i))"
    and "inbound (c_socket (sv_conn sv i)) = bytes_of_string (http_head start fs) @ rest"
    and "line_text start" and "start \<noteq> []" and "list_all field_ok fs"
    and "\<not> validate_client_request (fields_map fs)"
  shows "\<exists>s. live s \<and> inbound s = rest \<and> outbound s = outbound (c_socket (sv_conn sv i)) \<and>
    server_handshake E i sv = Some (False, server_error i (Err_text ''Invalid WebSocket handshake'')
      (set_conn i ((sv_conn sv i)\<lparr>c_socket := s\<rparr>) sv))"
proof -
  obtain s where u: "tr_read_until (e_tr (se_env E)) (c_socket (sv_conn sv i)) [] (bytes_of_string (crlf @ crlf))
      = Some (bytes_of_string (http_head start fs), no_error, s)" "live s" "inbound s = rest"
      "outbound s = outbound (c_socket (sv_conn sv i))"
    using read_http_head [OF assms(2-6)] by blast
  then show ?thesis using parse_http_head [OF assms(4,6)] assms(7)
    by (intro exI [of _ s]) (simp add: server_handshake_def Let_def del: bytes_of_string_append)
qed

end

lemma offer_granted: "header_offers_permessage_deflate permessage_deflate_offer"
  by code_simp

lemma offer_header_value: "header_value permessage_deflate_offer" "header_value []" "permessage_deflate_offer \<noteq> []"
  by (simp_all add: permessage_deflate_offer_def kOffer_def header_value_def line_text_def cr_def lf_def)

text \<open>The server accepts what the client sends; its answer is one the client accepts.\<close>

lemma request_accepted:
  fixes c :: "('s, 'o) client" and sv :: "('t, 'a) server"
  assumes "server_stream F slive sin sout sfits"
    and "line_text (url_path info)" and "header_value (host_value (url_host info) (url_port info))"
    and "header_value (generate_key (ce_crypto E) rd)"
    and "i < length (sv_objects sv)" and "slive (c_socket (sv_conn sv i))"
    and "sin (c_socket (sv_conn sv i)) = bytes_of_string (client_request E rd info c) @ rest"
    and "sfits (length (server_response F (generate_key (ce_crypto E) rd) (cl_request_deflate c)))"
  shows "\<exists>s. slive s \<and> sin s = rest \<and>
    sout s = sout (c_socket (sv_conn sv i)) @ bytes_of_string (server_response F (generate_key (ce_crypto E) rd) (cl_request_deflate c)) \<and>
    server_handshake F i sv = Some (True, set_conn i ((sv_conn sv i)\<lparr>c_socket := s,
      c_permessage_deflate := c_permessage_deflate (sv_conn sv i) \<or> cl_request_deflate c\<rparr>) sv)"
proof -
  let ?ext = "if cl_request_deflate c then permessage_deflate_offer else []"
  let ?fs = "request_fields (url_host info) (url_port info) (generate_key (ce_crypto E) rd) ?ext"
  have fs: "list_all field_ok ?fs" using assms(3,4) offer_header_value by (auto intro!: request_fields_ok)
  have g: "grants_deflate (fields_map ?fs) = cl_request_deflate c"
    using offer_granted offer_header_value(3) by (simp add: grants_deflate_def fields_map_request)
  have "sin (c_socket (sv_conn sv i)) = bytes_of_string (http_head (request_line (url_path info)) ?fs) @ rest"
    using assms(7) by (simp add: client_request_def build_client_request_head)
  from server_stream.server_handshake_head [OF assms(1,5,6) this start_lines_ok(1) [OF assms(2)] start_lines_ok(2) fs
      validate_request_fields fields_map_request(4)] assms(8)
  show ?thesis unfolding g by simp
qed

lemma response_head:
  assumes "header_value (compute_accept (se_crypto F) key)"
  obtains gs where "server_response F key granted = http_head ''HTTP/1.1 101 Switching Protocols'' gs"
    and "list_all field_ok gs" and "grants_deflate (fields_map gs) = granted"
proof -
  let ?gs = "response_fields (compute_accept (se_crypto F) key) (if granted then permessage_deflate_offer else [])"
  have "list_all field_ok ?gs" using assms offer_header_value by (auto intro!: response_fields_ok)
  moreover have "grants_deflate (fields_map ?gs) = granted"
    using offer_granted offer_header_value(3) by (simp add: grants_deflate_def fields_map_response)
  ultimately show thesis by (intro that [of ?gs]) (simp_all add: server_response_def build_server_response_head)
qed

section \<open>A server over the in-memory system\<close>

definition mem_sv_env :: "bytes \<Rightarrow> (nat \<Rightarrow> conn_op list) \<Rightarrow> mem_world ls sv_env" where
  "mem_sv_env bs greet =
     \<lparr>se_env = mem_env, se_crypto = mem_crypto, se_socket = (\<lambda>i. mem_sock bs 4), se_gen = (\<lambda>i n. of_nat n),
      se_greet = greet, se_react = (\<lambda>i evs. [])\<rparr>"

interpretation mem_server: server_stream "mem_sv_env bs greet" "ls_live mem_connected" "ls_stream mem_in"
  "ls_stream mem_out" "\<lambda>_. True"
  by (rule server_stream.intro) (simp add: mem_sv_env_def mem_env_def mem.linux.exact_stream_axioms)

text \<open>A server with one accepted connection, on which \<open>bs\<close> arrives.\<close>

definition mem_server :: "bytes \<Rightarrow> (mem_world ls, unit) server" where
  "mem_server bs = (server_new None ())\<lparr>sv_objects := [accept_object (mem_sv_env bs (\<lambda>i. [])) 0], sv_on_error := True\<rparr>"

lemma mem_server_conn [simp]:
  "length (sv_objects (mem_server bs)) = 1" "c_socket (sv_conn (mem_server bs) 0) = mem_sock bs 4"
  "\<not> c_permessage_deflate (sv_conn (mem_server bs) 0)" "sv_on_error (mem_server bs)" "sv_events (mem_server bs) = []"
  by (simp_all add: mem_server_def sv_conn_def accept_object_def mem_sv_env_def set_on_error_def set_on_close_def
      set_on_message_def set_role_def connection_new_def server_new_def)

section \<open>Properties\<close>

text \<open>
  C2: The two ends agree.  Whatever request the client sends for a URL, the server accepts it and answers;
  on that answer the client's handshake succeeds; the client is left exactly behind the answer and the
  server exactly behind the request, so that the first frame of either side is the next thing read; and
  permessage-deflate is on at both ends if the client asked for it, and off at both otherwise.  The host,
  path, key and accept value only have to be free of line breaks and leading blanks.
\<close>

theorem handshake_agreement:
  fixes c :: "('s, 'o) client" and sv :: "('t, 'a) server"
  assumes "client_stream E clive cin cout cfits" and "server_stream F slive sin sout sfits"
    and "line_text (url_path info)" and "header_value (host_value (url_host info) (url_port info))"
    and "header_value (generate_key (ce_crypto E) rd)"
    and "header_value (compute_accept (se_crypto F) (generate_key (ce_crypto E) rd))"
    and "clive (c_socket (cl_connection c))" and "\<not> c_permessage_deflate (cl_connection c)"
    and "i < length (sv_objects sv)" and "slive (c_socket (sv_conn sv i))" and "\<not> c_permessage_deflate (sv_conn sv i)"
    and "sin (c_socket (sv_conn sv i)) = bytes_of_string (client_request E rd info c) @ rest"
    and "cfits (length (client_request E rd info c))"
    and "sfits (length (server_response F (generate_key (ce_crypto E) rd) (cl_request_deflate c)))"
  shows "\<exists>response sv1. server_handshake F i sv = Some (True, sv1) \<and>
    sin (c_socket (sv_conn sv1 i)) = rest \<and> sout (c_socket (sv_conn sv1 i)) = sout (c_socket (sv_conn sv i)) @ response \<and>
    (c_permessage_deflate (sv_conn sv1 i) \<longleftrightarrow> cl_request_deflate c) \<and>
    (cin (c_socket (cl_connection c)) = response @ frames \<longrightarrow>
      (\<exists>c1. client_handshake E rd info c = Some (no_error, c1) \<and> cin (c_socket (cl_connection c1)) = frames \<and>
         cout (c_socket (cl_connection c1)) = cout (c_socket (cl_connection c)) @ bytes_of_string (client_request E rd info c) \<and>
         (c_permessage_deflate (cl_connection c1) \<longleftrightarrow> cl_request_deflate c)))"
proof -
  let ?resp = "server_response F (generate_key (ce_crypto E) rd) (cl_request_deflate c)"
  obtain s where s: "slive s" "sin s = rest" "sout s = sout (c_socket (sv_conn sv i)) @ bytes_of_string ?resp"
      "server_handshake F i sv = Some (True, set_conn i ((sv_conn sv i)\<lparr>c_socket := s,
        c_permessage_deflate := cl_request_deflate c\<rparr>) sv)"
    using request_accepted [OF assms(2-5,9,10,12,14)] assms(11) by auto
  obtain gs where gs: "?resp = http_head ''HTTP/1.1 101 Switching Protocols'' gs" "list_all field_ok gs"
      "grants_deflate (fields_map gs) = cl_request_deflate c"
    by (rule response_head [OF assms(6)])
  have "\<exists>c1. client_handshake E rd info c = Some (no_error, c1) \<and> cin (c_socket (cl_connection c1)) = frames \<and>
       cout (c_socket (cl_connection c1)) = cout (c_socket (cl_connection c)) @ bytes_of_string (client_request E rd info c) \<and>
       (c_permessage_deflate (cl_connection c1) \<longleftrightarrow> cl_request_deflate c)"
    if "cin (c_socket (cl_connection c)) = bytes_of_string ?resp @ frames"
    using client_stream.client_handshake_head [OF assms(1,7) that [unfolded gs(1)] start_lines_ok(3) _ gs(2) assms(13)]
      gs(3) assms(8) by auto
  then show ?thesis using s assms(9) by (intro exI [of _ "bytes_of_string ?resp"] exI) auto
qed

theorem handshake_agreement_witness:
  "\<exists>sv1. server_handshake (mem_sv_env [] (\<lambda>i. [])) 0
      (mem_server (bytes_of_string (client_request mem_cl_env (\<lambda>n. 0) (parse_url ''ws://h/p'') (mem_client (\<lambda>_. []) []))))
      = Some (True, sv1)"
proof -
  let ?c = "mem_client (\<lambda>_. []) []"
  let ?d = "?c\<lparr>cl_connection := (cl_connection ?c)\<lparr>c_socket := mem_sock [] 4\<rparr>\<rparr>"
  let ?i = "parse_url ''ws://h/p''"
  have u: "url_host ?i = ''h''" "url_port ?i = ''80''" "url_path ?i = ''/p''" by code_simp+
  have h: "line_text (url_path ?i)" "header_value (host_value (url_host ?i) (url_port ?i))"
      "header_value (generate_key (ce_crypto mem_cl_env) (\<lambda>n. 0))"
      "header_value (compute_accept (se_crypto (mem_sv_env [] (\<lambda>i. []))) (generate_key (ce_crypto mem_cl_env) (\<lambda>n. 0)))"
    by (simp_all add: u header_value_def line_text_def host_value_def cr_def lf_def mem_sv_env_def mem_cl_env_def
        mem_crypto_def generate_key_def compute_accept_def base64_encode_def)
  let ?sv = "mem_server (bytes_of_string (client_request mem_cl_env (\<lambda>n. 0) ?i ?c))"
  have p: "ls_live mem_connected (c_socket (cl_connection ?d))" "\<not> c_permessage_deflate (cl_connection ?d)"
    by (simp_all add: mem_sock_live mem_client_def client_set_on_open_def client_new_def set_on_open_def set_role_def
        connection_new_def)
  have q: "0 < length (sv_objects ?sv)" "ls_live mem_connected (c_socket (sv_conn ?sv 0))"
      "\<not> c_permessage_deflate (sv_conn ?sv 0)"
      "ls_stream mem_in (c_socket (sv_conn ?sv 0)) = bytes_of_string (client_request mem_cl_env (\<lambda>n. 0) ?i ?d) @ []"
    by (simp_all add: mem_sock_live client_request_def)
  from handshake_agreement [OF mem_client.client_stream_axioms mem_server.server_stream_axioms h p q TrueI TrueI, of "[]"]
  show ?thesis by (elim exE conjE) (rule exI, assumption)
qed

text \<open>
  C30: A request that is not a WebSocket upgrade is refused: the handshake fails, \<open>on_error_\<close> is told, the
  connection is not opened and its deflate setting does not change.  Nothing is sent to the peer, and the
  socket is left connected.
\<close>

theorem server_rejects_request:
  fixes sv :: "('t, 'a) server"
  assumes "server_stream E live inbound outbound fits" and "i < length (sv_objects sv)" and "live (c_socket (sv_conn sv i))"
    and "inbound (c_socket (sv_conn sv i)) = bytes_of_string (http_head start fs) @ rest"
    and "line_text start" and "start \<noteq> []" and "list_all field_ok fs"
    and "\<not> validate_client_request (fields_map fs)"
  shows "\<exists>s sv1. server_handshake E i sv = Some (False, sv1) \<and>
    sv_conn sv1 i = (sv_conn sv i)\<lparr>c_socket := s\<rparr> \<and> live s \<and> outbound s = outbound (c_socket (sv_conn sv i)) \<and>
    sv_events sv1 = sv_events sv @ (if sv_on_error sv then [Sv_error i (Err_text ''Invalid WebSocket handshake'')] else []) \<and>
    sv_connections sv1 = sv_connections sv"
  using server_stream.server_handshake_invalid [OF assms] assms(2) by auto

theorem server_rejects_request_witness:
  "\<exists>sv1. server_handshake (mem_sv_env [] (\<lambda>i. [])) 0
      (mem_server (bytes_of_string (http_head ''GET / HTTP/1.1'' [(''Host'', ''h'')]))) = Some (False, sv1) \<and>
     sv_events sv1 = [Sv_error 0 (Err_text ''Invalid WebSocket handshake'')]"
proof -
  have "list_all field_ok [(''Host'', ''h'')]" "line_text ''GET / HTTP/1.1''"
    by (simp_all add: field_ok_def header_value_def line_text_def cr_def lf_def)
  moreover have "\<not> validate_client_request (fields_map [(''Host'', ''h'')])"
    by (simp add: validate_client_request_def fields_map_def lower_names)
  ultimately show ?thesis
    using server_rejects_request [OF mem_server.server_stream_axioms, of 0
        "mem_server (bytes_of_string (http_head ''GET / HTTP/1.1'' [(''Host'', ''h'')]))" "''GET / HTTP/1.1''" "[(''Host'', ''h'')]" "[]"]
    by (auto simp: mem_sock_live)
qed

end
