(* ===== verification/Server_Steps.thy ===== *)
theory Server_Steps
  imports Agreement
begin

text \<open>
  The server as a transition system: the accept loop, the workers, the readers of the connections, the
  application and \<open>stop\<close> interleave.  A worker runs \<open>handle_accept\<close> in three pieces, between which the
  other threads may act.
\<close>

section \<open>Definitions\<close>

text \<open>One frame read by the reader thread of connection \<open>j\<close>.\<close>

definition server_read :: "'s sv_env \<Rightarrow> nat \<Rightarrow> ('s, 'a) server \<Rightarrow> ('s, 'a) server" where
  "server_read E j sv =
     on_conn E j (\<lambda>k. case read_one_frame (se_env E) k of Inl e \<Rightarrow> k | Inr (again, k1) \<Rightarrow> k1) sv"

definition set_worker :: "nat \<Rightarrow> worker \<Rightarrow> ('s, 'a) server \<Rightarrow> ('s, 'a) server" where
  "set_worker i w sv = sv\<lparr>sv_workers := (sv_workers sv)[i := w]\<rparr>"

text \<open>
  The worker threads, the readers and the calls of the application.
\<close>

inductive work_step :: "'s sv_env \<Rightarrow> ('s, 'a) server \<Rightarrow> ('s, 'a) server \<Rightarrow> bool" for E :: "'s sv_env" where
  sv_setup: "i < length (sv_workers sv) \<Longrightarrow> sv_workers sv ! i = W_new fd \<Longrightarrow> accept_setup E fd sv = (True, sv1) \<Longrightarrow>
    work_step E sv (set_worker i (W_pending (length (sv_objects sv))) sv1)"
| sv_setup_failed: "i < length (sv_workers sv) \<Longrightarrow> sv_workers sv ! i = W_new fd \<Longrightarrow> accept_setup E fd sv = (False, sv1) \<Longrightarrow>
    work_step E sv (set_worker i W_returned (unregister_pending (length (sv_objects sv)) sv1))"
| sv_handshake: "i < length (sv_workers sv) \<Longrightarrow> sv_workers sv ! i = W_pending j \<Longrightarrow>
    server_handshake E j sv = Some (True, sv1) \<Longrightarrow>
    work_step E sv (set_worker i (W_active j) (accept_activate E j sv1))"
| sv_handshake_failed: "i < length (sv_workers sv) \<Longrightarrow> sv_workers sv ! i = W_pending j \<Longrightarrow>
    server_handshake E j sv = Some (False, sv1) \<Longrightarrow>
    work_step E sv (set_worker i W_returned (unregister_pending j sv1))"
| sv_add: "i < length (sv_workers sv) \<Longrightarrow> sv_workers sv ! i = W_active j \<Longrightarrow>
    work_step E sv (set_worker i W_returned (unregister_pending j (add_connection j sv)))"
| sv_read: "j < length (sv_objects sv) \<Longrightarrow> c_is_open (sv_conn sv j) \<Longrightarrow> \<not> c_is_closing (sv_conn sv j) \<Longrightarrow>
    work_step E sv (server_read E j sv)"
| sv_call: "j < length (sv_objects sv) \<Longrightarrow> work_step E sv (on_conn E j (run_call (se_env E) False a) sv)"

text \<open>
  The whole server: in addition the calls of the public class, the accept loop, and \<open>stop\<close> in two parts,
  between which the threads it waits for may run.
\<close>

inductive server_step :: "'a acc_os \<Rightarrow> 's sv_env \<Rightarrow> ('s, 'a) server \<Rightarrow> ('s, 'a) server \<Rightarrow> bool"
  for A :: "'a acc_os" and E :: "'s sv_env" where
  sv_api: "server_api A E rq sv = Some (re, sv1) \<Longrightarrow> server_step A E sv sv1"
| sv_do_accept: "sv_thread sv \<Longrightarrow> accept_iteration A r1 r2 sv = (res, sv1) \<Longrightarrow> server_step A E sv sv1"
| sv_stop: "sv_is_running sv \<Longrightarrow> server_step A E sv (stop_begin A E sv)"
| sv_stopped: "\<not> sv_is_running sv \<Longrightarrow> stop_end sv = Some sv1 \<Longrightarrow> server_step A E sv sv1"
| sv_work: "work_step E sv sv1 \<Longrightarrow> server_step A E sv sv1"

lemma sv_do_listen: "server_listen A h p sv = (ec, sv1) \<Longrightarrow> server_step A E sv sv1"
  by (rule sv_api [of A E "Sr_listen h p"]) (simp add: returns_code_def)

lemma sv_do_start: "server_start sv = Some (ec, sv1) \<Longrightarrow> server_step A E sv sv1"
  by (rule sv_api [of A E Sr_start]) (simp add: returns_code_def)

definition server_run :: "'a acc_os \<Rightarrow> 's sv_env \<Rightarrow> ('s, 'a) server \<Rightarrow> ('s, 'a) server \<Rightarrow> bool" where
  "server_run A E = (server_step A E)\<^sup>*\<^sup>*"


text \<open>The connection a worker is busy with.\<close>

primrec handles :: "worker \<Rightarrow> nat option" where
  "handles (W_new fd) = None"
| "handles (W_pending j) = Some j"
| "handles (W_active j) = Some j"
| "handles W_returned = None"

definition workers_ok :: "worker list \<Rightarrow> nat \<Rightarrow> bool" where
  "workers_ok ws n \<longleftrightarrow>
     (\<forall>i<length ws. \<forall>j. handles (ws ! i) = Some j \<longrightarrow>
        j < n \<and> (\<forall>i'<length ws. i' \<noteq> i \<longrightarrow> handles (ws ! i') \<noteq> Some j))"

definition busy :: "worker list \<Rightarrow> nat set" where
  "busy ws = {j. \<exists>i<length ws. handles (ws ! i) = Some j}"

definition server_inv :: "('s, 'a) server \<Rightarrow> bool" where
  "server_inv sv \<longleftrightarrow>
     sorted (sv_connections sv) \<and> distinct (sv_connections sv) \<and>
     (\<forall>j \<in> set (sv_connections sv). j < length (sv_objects sv) \<and> j \<notin> busy (sv_workers sv)) \<and>
     set (sv_pending sv) \<subseteq> busy (sv_workers sv) \<and>
     workers_ok (sv_workers sv) (length (sv_objects sv)) \<and>
     (\<forall>i<length (sv_workers sv). \<forall>j. sv_workers sv ! i = W_pending j \<longrightarrow> \<not> c_is_open (sv_conn sv j))"

section \<open>What the pieces change\<close>

text \<open>Everything but the connections' states, the event log and the list of connections.\<close>

definition same_frame :: "('s, 'a) server \<Rightarrow> ('s, 'a) server \<Rightarrow> bool" where
  "same_frame sv sv1 \<longleftrightarrow>
     sv_acceptor sv1 = sv_acceptor sv \<and> sv_is_running sv1 = sv_is_running sv \<and> sv_pending sv1 = sv_pending sv \<and>
     sv_workers sv1 = sv_workers sv \<and> length (sv_objects sv1) = length (sv_objects sv) \<and> sv_thread sv1 = sv_thread sv"

lemma same_frame_refl [simp]: "same_frame sv sv"
  by (simp add: same_frame_def)

lemma same_frame_trans: "same_frame a b \<Longrightarrow> same_frame b c \<Longrightarrow> same_frame a c"
  by (simp add: same_frame_def)

lemma server_callback_frame:
  "same_frame sv (server_callback i ev sv)" "sv_objects (server_callback i ev sv) = sv_objects sv"
  "sv_connections (server_callback i ev sv) =
     (if (\<exists>code reason. ev = Ev_close code reason) \<and> co_own_close (sv_objects sv ! i)
      then removeAll i (sv_connections sv) else sv_connections sv)"
  by (cases ev; simp add: same_frame_def remove_connection_def Let_def)+

lemma server_callbacks_frame:
  "same_frame sv (server_callbacks i evs sv) \<and> sv_objects (server_callbacks i evs sv) = sv_objects sv \<and>
   sv_connections (server_callbacks i evs sv) =
     (if (\<exists>code reason. Ev_close code reason \<in> set evs) \<and> co_own_close (sv_objects sv ! i)
      then removeAll i (sv_connections sv) else sv_connections sv)"
  unfolding server_callbacks_def
proof (induction evs arbitrary: sv)
  case (Cons ev evs)
  have "same_frame sv (fold (server_callback i) evs (server_callback i ev sv))"
    using same_frame_trans [OF server_callback_frame(1)] Cons.IH by blast
  then show ?case using Cons.IH [of "server_callback i ev sv"] server_callback_frame [where ev = ev and i = i and sv = sv]
    by auto
qed simp

lemma on_conn_frame:
  "same_frame sv (on_conn E i f sv)"
  "sv_connections (on_conn E i f sv) =
     (if (\<exists>code reason. Ev_close code reason \<in> set (drop (length (c_events (sv_conn sv i)))
            (c_events (f ((sv_conn sv i)\<lparr>c_react := server_react E sv i\<rparr>))))) \<and> co_own_close (sv_objects sv ! i)
      then removeAll i (sv_connections sv) else sv_connections sv)"
  "j \<noteq> i \<Longrightarrow> sv_conn (on_conn E i f sv) j = sv_conn sv j"
  "i < length (sv_objects sv) \<Longrightarrow> sv_conn (on_conn E i f sv) i = f ((sv_conn sv i)\<lparr>c_react := server_react E sv i\<rparr>)"
proof -
  let ?k1 = "f ((sv_conn sv i)\<lparr>c_react := server_react E sv i\<rparr>)"
  let ?evs = "drop (length (c_events (sv_conn sv i))) (c_events ?k1)"
  have oc: "on_conn E i f sv = server_callbacks i ?evs (set_conn i ?k1 sv)" by (simp add: on_conn_def Let_def)
  have own: "co_own_close (sv_objects (set_conn i ?k1 sv) ! i) = co_own_close (sv_objects sv ! i)"
    by (cases "i < length (sv_objects sv)") (simp_all add: set_conn_def list_update_beyond)
  have "same_frame sv (set_conn i ?k1 sv)" by (simp add: same_frame_def)
  then show "same_frame sv (on_conn E i f sv)"
    using server_callbacks_frame [of "set_conn i ?k1 sv" i ?evs] unfolding oc by (blast intro: same_frame_trans)
  show "sv_connections (on_conn E i f sv) =
      (if (\<exists>code reason. Ev_close code reason \<in> set ?evs) \<and> co_own_close (sv_objects sv ! i)
       then removeAll i (sv_connections sv) else sv_connections sv)"
    using server_callbacks_frame [of "set_conn i ?k1 sv" i ?evs] unfolding oc by (simp add: own)
  have "sv_conn (on_conn E i f sv) j = sv_conn (set_conn i ?k1 sv) j" for j
    using server_callbacks_frame [of "set_conn i ?k1 sv" i ?evs] unfolding oc by (simp add: sv_conn_def)
  then show "j \<noteq> i \<Longrightarrow> sv_conn (on_conn E i f sv) j = sv_conn sv j"
    "i < length (sv_objects sv) \<Longrightarrow> sv_conn (on_conn E i f sv) i = ?k1" by simp_all
qed

text \<open>An operation of one connection as the invariant sees it: the list of connections may lose that one.\<close>

definition conn_change :: "nat \<Rightarrow> ('s, 'a) server \<Rightarrow> ('s, 'a) server \<Rightarrow> bool" where
  "conn_change i sv sv1 \<longleftrightarrow>
     same_frame sv sv1 \<and> (\<forall>j. j \<noteq> i \<longrightarrow> sv_conn sv1 j = sv_conn sv j) \<and>
     (sv_connections sv1 = sv_connections sv \<or> sv_connections sv1 = removeAll i (sv_connections sv))"

lemma conn_change_trans: "conn_change i a b \<Longrightarrow> conn_change i b c \<Longrightarrow> conn_change i a c"
  by (auto simp: conn_change_def intro: same_frame_trans)

lemma conn_change_refl [simp]: "conn_change i sv sv"
  by (simp add: conn_change_def)

lemma on_conn_change: "conn_change i sv (on_conn E i f sv)"
  using on_conn_frame(1,2,3) [where E = E and i = i and f = f and sv = sv] by (simp add: conn_change_def)

lemma run_conn_op_change: "conn_change i sv (run_conn_op E i op sv)"
  by (cases op) (simp_all add: on_conn_change, simp_all add: conn_change_def same_frame_def set_conn_def sv_conn_def)

lemma greet_change: "conn_change i sv (fold (run_conn_op E i) ops sv)"
  by (induction ops arbitrary: sv) (auto intro: conn_change_trans [OF run_conn_op_change])

lemma accept_activate_change: "conn_change i sv (accept_activate E i sv)"
proof -
  have "conn_change i sv (sv\<lparr>sv_events := es\<rparr>)" for es by (simp add: conn_change_def same_frame_def sv_conn_def)
  then show ?thesis unfolding accept_activate_def Let_def
    by (auto intro: on_conn_change conn_change_trans [OF _ on_conn_change] conn_change_trans [OF _ greet_change])
qed

lemma set_conn_change: "conn_change i sv (set_conn i k sv)"
  by (simp add: conn_change_def same_frame_def)

lemma server_error_change: "conn_change i sv (server_error i text sv)"
  by (simp add: conn_change_def same_frame_def server_error_def sv_conn_def)

text \<open>The handshake touches the socket and the deflate setting of its connection only.\<close>

definition socket_change :: "nat \<Rightarrow> ('s, 'a) server \<Rightarrow> ('s, 'a) server \<Rightarrow> bool" where
  "socket_change i sv sv1 \<longleftrightarrow>
     conn_change i sv sv1 \<and> sv_connections sv1 = sv_connections sv \<and>
     (i < length (sv_objects sv) \<longrightarrow> c_is_open (sv_conn sv1 i) = c_is_open (sv_conn sv i))"

lemma socket_change_set: "c_is_open k = c_is_open (sv_conn sv i) \<Longrightarrow> socket_change i sv (set_conn i k sv)"
  by (simp add: socket_change_def set_conn_change)

lemma socket_change_refl [simp]: "socket_change i sv sv"
  by (simp add: socket_change_def)

lemma socket_change_error: "socket_change i sv sv1 \<Longrightarrow> socket_change i sv (server_error i text sv1)"
  by (auto simp: socket_change_def conn_change_def same_frame_def server_error_def sv_conn_def)

lemma server_handshake_change:
  assumes "server_handshake E i sv = Some (ok, sv1)"
  shows "socket_change i sv sv1"
  using assms unfolding server_handshake_def Let_def case_prod_unfold
  by (auto split: option.splits if_splits simp: set_permessage_deflate_def
      intro!: socket_change_error socket_change_set)

lemma adopt_fields [simp]: "c_is_open (snd (adopt E fd k)) = c_is_open k"
  by (simp add: adopt_def case_prod_unfold Let_def)

text \<open>A new connection is registered as pending and is not open.\<close>

definition setup_change :: "('s, 'a) server \<Rightarrow> ('s, 'a) server \<Rightarrow> bool" where
  "setup_change sv sv1 \<longleftrightarrow>
     sv_acceptor sv1 = sv_acceptor sv \<and> sv_is_running sv1 = sv_is_running sv \<and> sv_workers sv1 = sv_workers sv \<and>
     sv_connections sv1 = sv_connections sv \<and> sv_pending sv1 = sv_pending sv @ [length (sv_objects sv)] \<and>
     sv_thread sv1 = sv_thread sv \<and> length (sv_objects sv1) = Suc (length (sv_objects sv)) \<and>
     (\<forall>j < length (sv_objects sv). sv_conn sv1 j = sv_conn sv j) \<and>
     \<not> c_is_open (sv_conn sv1 (length (sv_objects sv)))"

lemma setup_change_socket: "setup_change sv sv1 \<Longrightarrow> socket_change (length (sv_objects sv)) sv1 sv2 \<Longrightarrow> setup_change sv sv2"
  by (auto simp: setup_change_def socket_change_def conn_change_def same_frame_def)

lemma accept_tls_change: "accept_tls E i sv = (ec, sv1) \<Longrightarrow> socket_change i sv sv1"
  unfolding accept_tls_def Let_def case_prod_unfold
  by (auto split: if_splits intro!: socket_change_set)

lemma accept_new_change:
  "setup_change sv (set_conn (length (sv_objects sv))
     (snd (adopt (se_env E) fd (co_conn (accept_object E (length (sv_objects sv))))))
     (register_pending (length (sv_objects sv)) (sv\<lparr>sv_objects := sv_objects sv @ [accept_object E (length (sv_objects sv))]\<rparr>)))"
  by (simp add: setup_change_def register_pending_def set_conn_def sv_conn_def nth_append accept_object_def
      set_on_error_def set_on_close_def set_on_message_def set_role_def connection_new_def)

lemma accept_setup_change:
  assumes "accept_setup E fd sv = (ok, sv1)"
  shows "setup_change sv sv1"
proof -
  let ?i = "length (sv_objects sv)"
  let ?sv0 = "register_pending ?i (sv\<lparr>sv_objects := sv_objects sv @ [accept_object E ?i]\<rparr>)"
  let ?a = "adopt (se_env E) fd (co_conn (accept_object E ?i))"
  let ?sv2 = "set_conn ?i (snd ?a) ?sv0"
  have c: "sv_conn ?sv0 ?i = co_conn (accept_object E ?i)" by (simp add: sv_conn_def register_pending_def)
  have err: "setup_change sv sv2 \<Longrightarrow> setup_change sv (server_error ?i msg sv2)" for sv2 msg
    by (cases "sv_on_error sv2") (simp_all add: setup_change_def server_error_def sv_conn_def)
  obtain ec sv3 where tls: "accept_tls E ?i ?sv2 = (ec, sv3)" by (cases "accept_tls E ?i ?sv2")
  have "setup_change sv sv3" by (rule setup_change_socket [OF accept_new_change accept_tls_change [OF tls]])
  moreover have "sv1 = (if failed (fst ?a) then server_error ?i (Err_code (fst ?a)) ?sv2
      else if failed ec then server_error ?i (Err_code ec) sv3 else sv3)"
    using assms tls c by (auto simp: accept_setup_def Let_def case_prod_unfold split: if_splits)
  ultimately show ?thesis using err accept_new_change [of sv E fd] by (simp split: if_splits)
qed

text \<open>Closing the sockets changes nothing else.\<close>

lemma close_conn_socket_frame:
  "sv_acceptor (close_conn_socket E i sv) = sv_acceptor sv" "sv_is_running (close_conn_socket E i sv) = sv_is_running sv"
  "sv_pending (close_conn_socket E i sv) = sv_pending sv" "sv_workers (close_conn_socket E i sv) = sv_workers sv"
  "sv_connections (close_conn_socket E i sv) = sv_connections sv" "sv_events (close_conn_socket E i sv) = sv_events sv"
  "sv_thread (close_conn_socket E i sv) = sv_thread sv"
  "length (sv_objects (close_conn_socket E i sv)) = length (sv_objects sv)"
  "i < length (sv_objects sv) \<Longrightarrow>
     sv_conn (close_conn_socket E i sv) j = (if j = i then (sv_conn sv i)\<lparr>c_socket := tr_close (e_tr (se_env E)) (c_socket (sv_conn sv i))\<rparr> else sv_conn sv j)"
  by (auto simp: close_conn_socket_def Let_def)

lemma close_sockets_frame:
  "sv_acceptor (fold (close_conn_socket E) js sv) = sv_acceptor sv \<and>
   sv_is_running (fold (close_conn_socket E) js sv) = sv_is_running sv \<and>
   sv_pending (fold (close_conn_socket E) js sv) = sv_pending sv \<and>
   sv_workers (fold (close_conn_socket E) js sv) = sv_workers sv \<and>
   sv_connections (fold (close_conn_socket E) js sv) = sv_connections sv \<and>
   sv_events (fold (close_conn_socket E) js sv) = sv_events sv \<and>
   sv_thread (fold (close_conn_socket E) js sv) = sv_thread sv \<and>
   length (sv_objects (fold (close_conn_socket E) js sv)) = length (sv_objects sv)"
  by (induction js arbitrary: sv) (simp_all add: close_conn_socket_frame)

lemma close_sockets_conn:
  assumes "\<forall>j \<in> set js. j < length (sv_objects sv)" and "distinct js"
  shows "sv_conn (fold (close_conn_socket E) js sv) j =
    (if j \<in> set js then (sv_conn sv j)\<lparr>c_socket := tr_close (e_tr (se_env E)) (c_socket (sv_conn sv j))\<rparr> else sv_conn sv j)"
  using assms
proof (induction js arbitrary: sv)
  case (Cons i js)
  then show ?case using Cons.IH [of "close_conn_socket E i sv"] by (simp add: close_conn_socket_frame)
qed simp

lemma close_sockets_open:
  assumes "\<forall>j \<in> set js. j < length (sv_objects sv)"
  shows "c_is_open (sv_conn (fold (close_conn_socket E) js sv) j) = c_is_open (sv_conn sv j)"
  using assms
proof (induction js arbitrary: sv)
  case (Cons i js)
  then show ?case using Cons.IH [of "close_conn_socket E i sv"] by (simp add: close_conn_socket_frame)
qed simp

lemma acceptor_close_closed [simp]: "\<not> acceptor_is_open (acceptor_close A q)"
  by (simp add: acceptor_close_def acceptor_is_open_def Let_def case_prod_unfold)

lemma stop_begin_frame:
  "\<not> sv_is_running (stop_begin A E sv)" "\<not> acceptor_is_open (sv_acceptor (stop_begin A E sv))"
  "sv_pending (stop_begin A E sv) = []" "sv_workers (stop_begin A E sv) = sv_workers sv"
  "sv_connections (stop_begin A E sv) = sv_connections sv" "sv_events (stop_begin A E sv) = sv_events sv"
  "length (sv_objects (stop_begin A E sv)) = length (sv_objects sv)"
  by (simp_all add: stop_begin_def shutdown_all_sockets_def close_sockets_frame Let_def)

section \<open>The invariant\<close>

lemma server_invD:
  assumes "server_inv sv"
  shows "sorted (sv_connections sv)" "distinct (sv_connections sv)"
    "j \<in> set (sv_connections sv) \<Longrightarrow> j < length (sv_objects sv)" "j \<in> set (sv_connections sv) \<Longrightarrow> j \<notin> busy (sv_workers sv)"
    "set (sv_pending sv) \<subseteq> busy (sv_workers sv)" "workers_ok (sv_workers sv) (length (sv_objects sv))"
    "i < length (sv_workers sv) \<Longrightarrow> sv_workers sv ! i = W_pending j \<Longrightarrow> \<not> c_is_open (sv_conn sv j)"
  using assms by (auto simp: server_inv_def)

lemma busy_less: "workers_ok ws n \<Longrightarrow> j \<in> busy ws \<Longrightarrow> j < n"
  by (auto simp: workers_ok_def busy_def)

lemma inv_conn_change:
  assumes "server_inv sv" and "conn_change j sv sv1"
    and "\<And>i. i < length (sv_workers sv) \<Longrightarrow> sv_workers sv ! i = W_pending j \<Longrightarrow> \<not> c_is_open (sv_conn sv1 j)"
  shows "server_inv sv1"
proof -
  have fr: "sv_pending sv1 = sv_pending sv" "sv_workers sv1 = sv_workers sv" "length (sv_objects sv1) = length (sv_objects sv)"
    and oth: "\<And>j'. j' \<noteq> j \<Longrightarrow> sv_conn sv1 j' = sv_conn sv j'"
    and con: "sv_connections sv1 = sv_connections sv \<or> sv_connections sv1 = filter (\<lambda>x. x \<noteq> j) (sv_connections sv)"
    using assms(2) by (auto simp: conn_change_def same_frame_def removeAll_filter_not_eq neq_commute)
  have "sorted (sv_connections sv1)" "distinct (sv_connections sv1)" "set (sv_connections sv1) \<subseteq> set (sv_connections sv)"
    using con server_invD(1,2) [OF assms(1)] by (auto simp: sorted_wrt_filter)
  moreover have "\<not> c_is_open (sv_conn sv1 j')" if "i < length (sv_workers sv)" "sv_workers sv ! i = W_pending j'" for i j'
    using that assms(3) oth server_invD(7) [OF assms(1) that] by (cases "j' = j") auto
  ultimately show ?thesis using server_invD(3-6) [OF assms(1)] by (auto simp: server_inv_def fr)
qed

text \<open>Replacing a worker's phase.\<close>

lemma busy_update:
  "i < length ws \<Longrightarrow> busy (ws[i := w]) = {j. handles w = Some j} \<union> {j. \<exists>i'<length ws. i' \<noteq> i \<and> handles (ws ! i') = Some j}"
  by (auto simp: busy_def nth_list_update split: if_splits)

lemma busy_others:
  "workers_ok ws n \<Longrightarrow> i < length ws \<Longrightarrow> {j. \<exists>i'<length ws. i' \<noteq> i \<and> handles (ws ! i') = Some j} = busy ws - {j. handles (ws ! i) = Some j}"
  by (auto simp: busy_def workers_ok_def)

lemma workers_ok_update:
  assumes "workers_ok ws n" and "i < length ws" and "n \<le> n1"
    and "\<And>j. handles w = Some j \<Longrightarrow> j < n1 \<and> j \<notin> busy ws - {j. handles (ws ! i) = Some j}"
  shows "workers_ok (ws[i := w]) n1"
proof -
  have o: "handles (ws ! i') \<noteq> Some j" if "handles w = Some j" "i' < length ws" "i' \<noteq> i" for i' j
    using assms(4) [OF that(1)] busy_others [OF assms(1,2)] that by auto
  show ?thesis unfolding workers_ok_def
  proof (intro allI impI)
    fix a j
    assume a: "a < length (ws[i := w])" "handles (ws[i := w] ! a) = Some j"
    show "j < n1 \<and> (\<forall>b<length (ws[i := w]). b \<noteq> a \<longrightarrow> handles (ws[i := w] ! b) \<noteq> Some j)"
    proof (cases "a = i")
      case True
      then have "handles w = Some j" using a by simp
      then show ?thesis using assms(4) o True by simp
    next
      case False
      then have old: "a < length ws" "handles (ws ! a) = Some j" using a by simp_all
      then have "handles w \<noteq> Some j" using o False by blast
      moreover have "j < n \<and> (\<forall>b<length ws. b \<noteq> a \<longrightarrow> handles (ws ! b) \<noteq> Some j)"
        using assms(1) old by (simp add: workers_ok_def)
      ultimately show ?thesis using assms(2,3) by (simp add: nth_list_update)
    qed
  qed
qed

lemma inv_new_worker:
  assumes "server_inv sv"
  shows "server_inv (sv\<lparr>sv_acceptor := q, sv_workers := sv_workers sv @ [W_new fd]\<rparr>)"
proof -
  have b: "busy (sv_workers sv @ [W_new fd]) = busy (sv_workers sv)" by (auto simp: busy_def nth_append less_Suc_eq)
  have w: "workers_ok (sv_workers sv @ [W_new fd]) n = workers_ok (sv_workers sv) n" for n
    by (auto simp: workers_ok_def nth_append less_Suc_eq)
  show ?thesis using assms by (auto simp: server_inv_def b w nth_append less_Suc_eq sv_conn_def)
qed

lemma inv_setup:
  assumes "server_inv sv" and "i < length (sv_workers sv)" and "sv_workers sv ! i = W_new fd" and "setup_change sv sv1"
  shows "server_inv (set_worker i (W_pending (length (sv_objects sv))) sv1)"
    and "server_inv (set_worker i W_returned (unregister_pending (length (sv_objects sv)) sv1))"
proof -
  let ?n = "length (sv_objects sv)" and ?ws = "sv_workers sv"
  note d = server_invD [OF assms(1)]
  have nb: "?n \<notin> busy ?ws" using busy_less [OF d(6)] by blast
  have h: "{j. handles (?ws ! i) = Some j} = {}" using assms(3) by simp
  have b1: "busy (?ws[i := W_pending ?n]) = insert ?n (busy ?ws)" and b2: "busy (?ws[i := W_returned]) = busy ?ws"
    using busy_update [OF assms(2)] busy_others [OF d(6) assms(2)] h by auto
  have w1: "workers_ok (?ws[i := W_pending ?n]) (Suc ?n)" and w2: "workers_ok (?ws[i := W_returned]) (Suc ?n)"
    using nb by (auto intro!: workers_ok_update [OF d(6) assms(2)])
  have less: "j < ?n" if "i' < length ?ws" "?ws ! i' = W_pending j" for i' j
    using d(6) that by (auto simp: workers_ok_def)
  have op: "\<not> c_is_open (sv_conn sv1 j)" if "i' < length ?ws" "?ws ! i' = W_pending j" for i' j
    using assms(4) less [OF that] d(7) [OF that] by (simp add: setup_change_def)
  have c: "j < Suc ?n \<and> j \<noteq> ?n \<and> j \<notin> busy ?ws" if "j \<in> set (sv_connections sv)" for j
    using d(3,4) [OF that] by auto
  have conn: "sv_conn (sv1\<lparr>sv_workers := ws\<rparr>) j = sv_conn sv1 j"
    "sv_conn (sv1\<lparr>sv_pending := p, sv_workers := ws\<rparr>) j = sv_conn sv1 j" for ws p j by (simp_all add: sv_conn_def)
  have f: "sv_workers sv1 = ?ws" "sv_connections sv1 = sv_connections sv" "sv_pending sv1 = sv_pending sv @ [?n]"
    "length (sv_objects sv1) = Suc ?n" "\<not> c_is_open (sv_conn sv1 ?n)" using assms(4) by (simp_all add: setup_change_def)
  show "server_inv (set_worker i (W_pending ?n) sv1)"
    using d(1,2,5) w1 c op f assms(2) by (auto simp: server_inv_def set_worker_def conn b1 nth_list_update split: if_splits)
  show "server_inv (set_worker i W_returned (unregister_pending ?n sv1))"
    using d(1,2,5) w2 c op f assms(2)
    by (auto simp: server_inv_def set_worker_def unregister_pending_def conn b2 nth_list_update split: if_splits)
qed

lemma conn_change_worker: "conn_change j sv sv1 \<Longrightarrow> conn_change j (set_worker i w sv) (set_worker i w sv1)"
  by (simp add: conn_change_def same_frame_def set_worker_def sv_conn_def)

lemma inv_active:
  assumes "server_inv sv" and "i < length (sv_workers sv)" and "sv_workers sv ! i = W_pending j" and "conn_change j sv sv1"
  shows "server_inv (set_worker i (W_active j) sv1)"
proof -
  let ?ws = "sv_workers sv" and ?sv0 = "set_worker i (W_active j) sv"
  note d = server_invD [OF assms(1)]
  have b: "busy (?ws[i := W_active j]) = busy ?ws"
    using busy_update [OF assms(2)] busy_others [OF d(6) assms(2)] assms(2,3) by (auto simp: busy_def)
  have w: "workers_ok (?ws[i := W_active j]) (length (sv_objects sv))"
    using d(6) assms(2,3) by (intro workers_ok_update [OF d(6) assms(2)]) (auto simp: workers_ok_def)
  have p: "\<not> c_is_open (sv_conn sv j')" if "i' < length ?ws" "?ws[i := W_active j] ! i' = W_pending j'" for i' j'
    using d(7) that assms(2) by (auto simp: nth_list_update split: if_splits)
  have "server_inv ?sv0"
    using d(1-5) w p by (auto simp: server_inv_def set_worker_def b sv_conn_def)
  moreover have "False" if "i' < length (sv_workers ?sv0)" "sv_workers ?sv0 ! i' = W_pending j" for i'
    using that assms(2,3) d(6) [unfolded workers_ok_def, rule_format, of i j]
    by (auto simp: set_worker_def nth_list_update split: if_splits)
  ultimately show ?thesis using inv_conn_change [OF _ conn_change_worker [OF assms(4)]] by blast
qed

text \<open>A worker returns; its connection is off the pending list and possibly on the list of connections.\<close>

lemma inv_return:
  assumes "server_inv sv" and "i < length (sv_workers sv)" and "handles (sv_workers sv ! i) = Some j"
    and "sv_workers sv1 = sv_workers sv" and "sv_pending sv1 = sv_pending sv" and "sv_objects sv1 = sv_objects sv"
    and "sorted (sv_connections sv1)" and "distinct (sv_connections sv1)"
    and "set (sv_connections sv1) \<subseteq> insert j (set (sv_connections sv))"
  shows "server_inv (set_worker i W_returned (unregister_pending j sv1))"
proof -
  let ?ws = "sv_workers sv"
  note d = server_invD [OF assms(1)]
  have b: "busy (?ws[i := W_returned]) = busy ?ws - {j}"
    using busy_update [OF assms(2)] busy_others [OF d(6) assms(2)] assms(3) by auto
  have j: "j < length (sv_objects sv)" using d(6) assms(2,3) by (auto simp: workers_ok_def)
  have w: "workers_ok (?ws[i := W_returned]) (length (sv_objects sv))"
    by (intro workers_ok_update [OF d(6) assms(2)]) auto
  have p: "\<not> c_is_open (sv_conn sv j')" if "i' < length ?ws" "?ws[i := W_returned] ! i' = W_pending j'" for i' j'
    using d(7) that assms(2) by (auto simp: nth_list_update split: if_splits)
  show ?thesis using assms(4-9) d(3-5) w p j
    by (auto simp: server_inv_def set_worker_def unregister_pending_def b sv_conn_def)
qed

lemma shutdown_open:
  assumes "server_inv sv"
  shows "c_is_open (sv_conn (shutdown_all_sockets E sv) j) = c_is_open (sv_conn sv j)"
proof -
  let ?p = "sv\<lparr>sv_pending := []\<rparr>"
  let ?q = "fold (close_conn_socket E) (sv_pending sv) ?p"
  have "\<forall>j \<in> set (sv_pending sv). j < length (sv_objects sv)"
    using server_invD(5,6) [OF assms] busy_less by blast
  then have p: "c_is_open (sv_conn ?q j) = c_is_open (sv_conn sv j)" for j
    using close_sockets_open [of "sv_pending sv" ?p E j] by (simp add: sv_conn_def)
  have "\<forall>j \<in> set (sv_connections sv). j < length (sv_objects ?q)"
    using server_invD(3) [OF assms] by (simp add: close_sockets_frame)
  from close_sockets_open [OF this, of E j] show ?thesis
    using p by (simp add: shutdown_all_sockets_def Let_def close_sockets_frame)
qed

lemma shutdown_frame:
  "sv_pending (shutdown_all_sockets E sv) = []" "sv_workers (shutdown_all_sockets E sv) = sv_workers sv"
  "sv_connections (shutdown_all_sockets E sv) = sv_connections sv"
  "length (sv_objects (shutdown_all_sockets E sv)) = length (sv_objects sv)"
  "sv_acceptor (shutdown_all_sockets E sv) = sv_acceptor sv" "sv_is_running (shutdown_all_sockets E sv) = sv_is_running sv"
  by (simp_all add: shutdown_all_sockets_def close_sockets_frame Let_def)

lemma inv_shutdown:
  assumes "server_inv sv"
  shows "server_inv (shutdown_all_sockets E sv)"
  using server_invD [OF assms] shutdown_open [OF assms] by (auto simp: server_inv_def shutdown_frame)

lemma inv_acceptor:
  "server_inv (sv\<lparr>sv_acceptor := q\<rparr>) = server_inv sv" "server_inv (sv\<lparr>sv_is_running := b\<rparr>) = server_inv sv"
  "server_inv (sv\<lparr>sv_thread := b\<rparr>) = server_inv sv"
  by (simp_all add: server_inv_def sv_conn_def)

lemma inv_stop_begin: "server_inv sv \<Longrightarrow> server_inv (stop_begin A E sv)"
  by (simp add: stop_begin_def Let_def inv_shutdown inv_acceptor)

lemma stop_end_result:
  "stop_end sv = Some sv1 \<Longrightarrow> sv1 = sv\<lparr>sv_thread := False, sv_workers := [], sv_connections := []\<rparr> \<and>
     list_all (\<lambda>w. w = W_returned) (sv_workers sv)"
  by (auto simp: stop_end_def join_workers_def split: if_splits)

lemma returned_not_busy: "list_all (\<lambda>w. w = W_returned) ws \<Longrightarrow> busy ws = {}"
  by (auto simp: busy_def list_all_length)

lemma inv_stop_end:
  assumes "server_inv sv" and "stop_end sv = Some sv1"
  shows "server_inv sv1"
proof -
  have "set (sv_pending sv) = {}"
    using stop_end_result [OF assms(2)] returned_not_busy [of "sv_workers sv"] server_invD(5) [OF assms(1)] by simp
  then show ?thesis using stop_end_result [OF assms(2)] by (auto simp: server_inv_def workers_ok_def)
qed

lemma accept_iteration_inv:
  assumes "server_inv sv" and "accept_iteration A r1 r2 sv = (res, sv1)"
  shows "server_inv sv1"
proof -
  have q: "server_inv (sv\<lparr>sv_acceptor := q\<rparr>)" for q using assms(1) by (auto simp: server_inv_def sv_conn_def)
  show ?thesis using assms
    by (auto simp: accept_iteration_def Let_def case_prod_unfold split: if_splits
        intro: inv_new_worker [OF assms(1)] q)
qed

lemma work_step_inv:
  assumes "server_inv sv" and "work_step E sv sv1"
  shows "server_inv sv1"
  using assms(2)
proof cases
  case (sv_setup i fd sv2)
  then show ?thesis using inv_setup(1) [OF assms(1)] accept_setup_change by blast
next
  case (sv_setup_failed i fd sv2)
  then show ?thesis using inv_setup(2) [OF assms(1)] accept_setup_change by blast
next
  case (sv_handshake i j sv2)
  from server_handshake_change [OF sv_handshake(4)] have "conn_change j sv sv2" by (simp add: socket_change_def)
  then have "conn_change j sv (accept_activate E j sv2)" by (rule conn_change_trans [OF _ accept_activate_change])
  then show ?thesis using sv_handshake inv_active [OF assms(1)] by blast
next
  case (sv_handshake_failed i j sv2)
  then have c: "socket_change j sv sv2" using server_handshake_change by blast
  then have "server_inv sv2" "sv_workers sv2 = sv_workers sv"
    using server_invD(6,7) [OF assms(1)] sv_handshake_failed
    by (auto simp: socket_change_def conn_change_def same_frame_def workers_ok_def intro!: inv_conn_change [OF assms(1)])
  then show ?thesis using sv_handshake_failed inv_return [of sv2 i j sv2] server_invD(1,2) by auto
next
  case (sv_add i j)
  then show ?thesis using inv_return [OF assms(1), of i j "add_connection j sv"] server_invD(1,2) [OF assms(1)]
    by (simp add: add_connection_def sorted_insort_insert distinct_insort_insert set_insort_insert)
next
  case (sv_read j)
  then show ?thesis unfolding server_read_def
    using server_invD(7) [OF assms(1)] by (auto intro: inv_conn_change [OF assms(1) on_conn_change])
next
  case (sv_call j a)
  then show ?thesis using server_invD(7) [OF assms(1)]
    by (auto intro!: inv_conn_change [OF assms(1) on_conn_change] simp: on_conn_frame(4) run_call_not_open)
qed

lemma inv_settings:
  "server_inv (sv\<lparr>sv_ssl_context := x\<rparr>) = server_inv sv" "server_inv (sv\<lparr>sv_ssl_enabled := b\<rparr>) = server_inv sv"
  "server_inv (sv\<lparr>sv_on_connection := b\<rparr>) = server_inv sv" "server_inv (sv\<lparr>sv_on_message := b\<rparr>) = server_inv sv"
  "server_inv (sv\<lparr>sv_on_close := b\<rparr>) = server_inv sv" "server_inv (sv\<lparr>sv_on_error := b\<rparr>) = server_inv sv"
  by (simp_all add: server_inv_def sv_conn_def)

lemma server_api_inv:
  assumes "server_inv sv" and "server_api A E rq sv = Some (re, sv1)"
  shows "server_inv sv1"
proof -
  have l: "server_inv (snd (server_listen A h p sv))" for h p
    using assms(1) by (simp add: server_listen_def Let_def case_prod_unfold inv_acceptor)
  have st: "server_inv sv2" if "stop_end (stop_begin A E sv) = Some sv2" for sv2
    using inv_stop_end [OF inv_stop_begin [OF assms(1)] that] .
  show ?thesis using assms l st
    by (cases rq) (auto simp: returns_code_def server_listen_any_def server_set_ssl_context_def server_set_on_connection_def
        server_set_on_message_def server_set_on_close_def server_set_on_error_def server_start_def server_join_def
        server_stop_def inv_settings inv_acceptor split: if_splits)
qed

lemma server_step_inv:
  assumes "server_inv sv" and "server_step A E sv sv1"
  shows "server_inv sv1"
  using assms(2)
proof cases
  case (sv_api rq re)
  then show ?thesis using server_api_inv [OF assms(1)] by blast
next
  case (sv_do_accept r1 r2 res)
  then show ?thesis using accept_iteration_inv [OF assms(1)] by blast
next
  case sv_stop
  then show ?thesis using inv_stop_begin [OF assms(1)] by simp
next
  case sv_stopped
  then show ?thesis using inv_stop_end [OF assms(1)] by blast
next
  case sv_work
  then show ?thesis using work_step_inv [OF assms(1)] by blast
qed

section \<open>Properties\<close>

text \<open>
  C8: In every state the server can reach, whatever threads run in whatever order, the list of connections
  is sorted and without duplicates and names only objects that exist and that no worker is still busy with;
  every pending handshake belongs to exactly one worker; and a connection whose handshake is not finished is
  not open, so that no message is read from it or sent on it.
\<close>

theorem server_invariant:
  assumes "server_run A E (server_new ctx a) sv"
  shows "server_inv sv"
  using assms unfolding server_run_def
proof (induction rule: rtranclp_induct)
  case base
  show ?case by (simp add: server_inv_def server_new_def busy_def workers_ok_def)
next
  case (step sv1 sv2)
  show ?case by (rule server_step_inv [OF step.IH step.hyps(2)])
qed

text \<open>A system on which every call of the listener succeeds and one peer connects.\<close>

definition mem_acc :: "unit acc_os" where
  "mem_acc =
     \<lparr>ao_socket = (\<lambda>a. (5, 0, a)), ao_setsockopt = (\<lambda>a fd. (0, 0, a)), ao_inet_pton = (\<lambda>h. None),
      ao_bind = (\<lambda>a fd addr port. (0, 0, a)), ao_listen = (\<lambda>a fd. (0, 0, a)), ao_accept = (\<lambda>a fd. (3, 0, a)),
      ao_poll = (\<lambda>a fd. (1, 1, a)), ao_close = (\<lambda>a fd. a)\<rparr>"

theorem server_invariant_witness:
  "server_inv ((server_new None () :: (mem_world ls, unit) server)
     \<lparr>sv_acceptor := (5, ()), sv_is_running := True, sv_thread := True, sv_workers := [W_new 3]\<rparr>)"
proof (rule server_invariant)
  let ?sv = "server_new None () :: (mem_world ls, unit) server"
  let ?l = "?sv\<lparr>sv_acceptor := (5, ()), sv_is_running := True\<rparr>"
  let ?t = "?l\<lparr>sv_thread := True\<rparr>"
  have "server_listen mem_acc ''0.0.0.0'' 80 ?sv = (no_error, ?l)"
    by (simp add: server_listen_def listen_on_def mem_acc_def acceptor_close_def server_new_def)
  then have "server_step mem_acc (mem_sv_env [] (\<lambda>i. [])) ?sv ?l" by (rule sv_do_listen)
  moreover have "server_start ?l = Some (no_error, ?t)" by (simp add: server_start_def server_new_def)
  then have "server_step mem_acc (mem_sv_env [] (\<lambda>i. [])) ?l ?t" by (rule sv_do_start)
  moreover have "accept_iteration mem_acc True True ?t = (Acc_worker 3, ?t\<lparr>sv_workers := [W_new 3]\<rparr>)"
    by (simp add: accept_iteration_def mem_acc_def accept_one_def acceptor_is_open_def POLLERR_HUP_NVAL_def server_new_def)
  then have "server_step mem_acc (mem_sv_env [] (\<lambda>i. [])) ?t (?t\<lparr>sv_workers := [W_new 3]\<rparr>)"
    by (intro sv_do_accept) simp_all
  ultimately show "server_run mem_acc (mem_sv_env [] (\<lambda>i. [])) ?sv
      (?sv\<lparr>sv_acceptor := (5, ()), sv_is_running := True, sv_thread := True, sv_workers := [W_new 3]\<rparr>)"
    unfolding server_run_def by (blast intro: converse_rtranclp_into_rtranclp)
qed

text \<open>
  A server may be destroyed once its workers have returned, unless it has been stopped while the accept
  thread was never joined.
\<close>

lemma server_destroyed:
  assumes "list_all (\<lambda>w. w = W_returned) (sv_workers sv)" and "sv_is_running sv \<or> \<not> sv_thread sv"
  shows "\<exists>sv1. server_destroy A E sv = Some sv1 \<and> \<not> acceptor_is_open (sv_acceptor sv1) \<and> \<not> sv_is_running sv1 \<and>
    \<not> sv_thread sv1"
proof (cases "sv_is_running sv")
  case True
  have "sv_workers (stop_begin A E sv) = sv_workers sv" "\<not> sv_is_running (stop_begin A E sv)"
    using True by (simp_all add: stop_begin_frame)
  then have "stop_end (stop_begin A E sv) = Some ((stop_begin A E sv)\<lparr>sv_thread := False, sv_workers := [], sv_connections := []\<rparr>)"
    using assms(1) by (simp add: stop_end_def join_workers_def)
  then show ?thesis using True \<open>\<not> sv_is_running (stop_begin A E sv)\<close>
    by (simp add: server_destroy_def server_stop_def acceptor_destroy_def acceptor_close_closed)
next
  case False
  then show ?thesis using assms(2)
    by (simp add: server_destroy_def server_stop_def acceptor_destroy_def acceptor_close_closed)
qed

text \<open>
  C27: \<open>stop\<close>, once no worker is busy, returns: the server is not running, its listener is closed and no
  connection is listed.  Of each listed connection exactly the socket has been closed; no close frame is
  sent, \<open>on_close_\<close> is not called, and connections that were not listed are left as they are.
\<close>

theorem server_stop_effect:
  assumes "server_inv sv" and "sv_is_running sv" and "list_all (\<lambda>w. w = W_returned) (sv_workers sv)"
  shows "\<exists>sv1. server_stop A E sv = Some sv1 \<and> \<not> server_is_running sv1 \<and> \<not> acceptor_is_open (sv_acceptor sv1) \<and>
    sv_connections sv1 = [] \<and> sv_pending sv1 = [] \<and> sv_workers sv1 = [] \<and> sv_events sv1 = sv_events sv \<and>
    (\<forall>j. sv_conn sv1 j = (if j \<in> set (sv_connections sv)
       then (sv_conn sv j)\<lparr>c_socket := tr_close (e_tr (se_env E)) (c_socket (sv_conn sv j))\<rparr> else sv_conn sv j))"
proof -
  note d = server_invD [OF assms(1)]
  have p: "sv_pending sv = []" using d(5) returned_not_busy [OF assms(3)] by simp
  let ?sv0 = "sv\<lparr>sv_is_running := False, sv_acceptor := acceptor_close A (sv_acceptor sv), sv_pending := []\<rparr>"
  have b: "stop_begin A E sv = fold (close_conn_socket E) (sv_connections sv) ?sv0"
    by (simp add: stop_begin_def shutdown_all_sockets_def p)
  have "sv_conn (stop_begin A E sv) j = (if j \<in> set (sv_connections sv)
       then (sv_conn sv j)\<lparr>c_socket := tr_close (e_tr (se_env E)) (c_socket (sv_conn sv j))\<rparr> else sv_conn sv j)" for j
    unfolding b using close_sockets_conn [of "sv_connections sv" ?sv0 E j] d(2,3) by (simp add: sv_conn_def)
  then show ?thesis using assms(2,3)
    by (simp add: server_stop_def stop_end_def join_workers_def stop_begin_frame server_is_running_def)
       (simp add: sv_conn_def stop_begin_frame)
qed

theorem server_stop_effect_witness:
  "\<exists>sv1. server_stop mem_acc (mem_sv_env [] (\<lambda>i. []))
      ((mem_server [])\<lparr>sv_is_running := True, sv_connections := [0], sv_acceptor := (5, ())\<rparr>) = Some sv1 \<and>
     \<not> server_is_running sv1 \<and> sv_connections sv1 = []"
proof -
  let ?sv = "(mem_server [])\<lparr>sv_is_running := True, sv_connections := [0], sv_acceptor := (5, ())\<rparr>"
  have "server_inv ?sv" "sv_is_running ?sv" "list_all (\<lambda>w. w = W_returned) (sv_workers ?sv)"
    by (simp_all add: server_inv_def busy_def workers_ok_def mem_server_def server_new_def)
  from server_stop_effect [OF this] show ?thesis by blast
qed


text \<open>A connection that is listed and not open.\<close>

definition leaked :: "nat \<Rightarrow> ('s, 'a) server \<Rightarrow> bool" where
  "leaked j sv \<longleftrightarrow> j \<in> set (sv_connections sv) \<and> \<not> c_is_open (sv_conn sv j)"


lemma leaked_lists [simp]:
  "leaked j (set_worker i w sv) = leaked j sv" "leaked j (unregister_pending i sv) = leaked j sv"
  "leaked j sv \<Longrightarrow> leaked j (add_connection i sv)"
  by (auto simp: leaked_def set_worker_def unregister_pending_def add_connection_def sv_conn_def set_insort_insert)






section \<open>A connection that outlives the server\<close>

lemma stop_begin_config:
  fixes E :: "'s sv_env" and sv :: "('s, 'a) server"
  shows "sv_ssl_enabled (stop_begin A E sv) = sv_ssl_enabled sv" "sv_on_connection (stop_begin A E sv) = sv_on_connection sv"
proof -
  have f: "sv_ssl_enabled (fold (close_conn_socket E) js sv) = sv_ssl_enabled sv \<and>
      sv_on_connection (fold (close_conn_socket E) js sv) = sv_on_connection sv" for js and sv :: "('s, 'a) server"
    by (induction js arbitrary: sv) (simp_all add: close_conn_socket_def set_conn_def Let_def)
  then show "sv_ssl_enabled (stop_begin A E sv) = sv_ssl_enabled sv"
    "sv_on_connection (stop_begin A E sv) = sv_on_connection sv"
    by (simp_all add: stop_begin_def shutdown_all_sockets_def Let_def)
qed

lemma accept_object_fields [simp]:
  "c_socket (co_conn (accept_object E i)) = se_socket E i" "\<not> c_is_open (co_conn (accept_object E i))"
  "\<not> c_is_closing (co_conn (accept_object E i))" "\<not> c_on_open (co_conn (accept_object E i))"
  "\<not> c_reader_running (co_conn (accept_object E i))" "\<not> c_permessage_deflate (co_conn (accept_object E i))"
  by (simp_all add: accept_object_def set_on_error_def set_on_close_def set_on_message_def set_role_def connection_new_def)

lemma accept_setup_plain:
  assumes "tr_adopt (e_tr (se_env E)) (se_socket E (length (sv_objects sv))) fd = (no_error, s)" and "\<not> sv_ssl_enabled sv"
  shows "\<exists>sv1. accept_setup E fd sv = (True, sv1) \<and> sv_workers sv1 = sv_workers sv \<and> sv_is_running sv1 = sv_is_running sv \<and>
    sv_on_connection sv1 = sv_on_connection sv \<and> length (sv_objects sv1) = Suc (length (sv_objects sv)) \<and>
    sv_conn sv1 (length (sv_objects sv)) = (co_conn (accept_object E (length (sv_objects sv))))\<lparr>c_socket := s\<rparr>"
proof -
  let ?i = "length (sv_objects sv)"
  let ?sv0 = "register_pending ?i (sv\<lparr>sv_objects := sv_objects sv @ [accept_object E ?i]\<rparr>)"
  have c: "sv_conn ?sv0 ?i = co_conn (accept_object E ?i)" by (simp add: sv_conn_def register_pending_def)
  have "adopt (se_env E) fd (co_conn (accept_object E ?i)) = (no_error, (co_conn (accept_object E ?i))\<lparr>c_socket := s\<rparr>)"
    using assms(1) by (simp add: adopt_def)
  then have "accept_setup E fd sv = (True, set_conn ?i ((co_conn (accept_object E ?i))\<lparr>c_socket := s\<rparr>) ?sv0)"
    using assms(2) c by (simp add: accept_setup_def accept_tls_def Let_def set_conn_def register_pending_def)
  then show ?thesis by (simp add: register_pending_def) (simp add: set_conn_def)
qed

lemma accept_activate_plain:
  assumes "\<not> sv_on_connection sv" and "i < length (sv_objects sv)" and "\<not> c_on_open (sv_conn sv i)"
    and "\<not> c_reader_running (sv_conn sv i)"
  shows "sv_conn (accept_activate E i sv) i = (sv_conn sv i)\<lparr>c_react := server_react E sv i, c_is_open := True,
    c_reader_running := True, c_reader_thread := True\<rparr>"
  using assms by (simp add: accept_activate_def on_conn_frame(4) activate_def open_and_start_reader_def fire_def
      start_reader_thread_def)

text \<open>
  C39: \<open>stop\<close> does not close every connection.  When a peer was accepted and its worker has not yet
  registered the connection at the moment \<open>stop\<close> closes the sockets, the worker goes on: the handshake
  succeeds, the connection is opened and its reader started.  \<open>stop\<close> then joins the worker and empties the
  list, and leaves an open connection on a live socket behind.
\<close>

theorem connection_survives_stop:
  fixes sv :: "('s, 'a) server"
  defines "j \<equiv> length (sv_objects sv)"
  assumes "server_stream E live inbound outbound fits" and "sv_is_running sv" and "sv_workers sv = [W_new fd]"
    and "\<not> sv_ssl_enabled sv" and "\<not> sv_on_connection sv"
    and "tr_adopt (e_tr (se_env E)) (se_socket E j) fd = (no_error, s)" and "live s"
    and "inbound s = bytes_of_string (build_client_request h p pth key exts) @ rest"
    and "line_text pth" and "header_value (host_value h p)" and "header_value key" and "header_value exts"
    and "\<And>granted. fits (length (server_response E key granted))"
  shows "\<exists>sv1 sv2. server_run A E (stop_begin A E sv) sv1 \<and> stop_end sv1 = Some sv2 \<and>
    \<not> server_is_running sv2 \<and> sv_connections sv2 = [] \<and>
    c_is_open (sv_conn sv2 j) \<and> c_reader_thread (sv_conn sv2 j) \<and> live (c_socket (sv_conn sv2 j))"
proof -
  let ?b = "stop_begin A E sv"
  have len: "length (sv_objects ?b) = j" by (simp add: j_def stop_begin_frame)
  obtain sv1 where s1: "accept_setup E fd ?b = (True, sv1)" "sv_workers sv1 = [W_new fd]" "\<not> sv_is_running sv1"
      "\<not> sv_on_connection sv1" "length (sv_objects sv1) = Suc j" "sv_conn sv1 j = (co_conn (accept_object E j))\<lparr>c_socket := s\<rparr>"
    using accept_setup_plain [of E ?b fd s] assms(4-7) by (auto simp: stop_begin_frame stop_begin_config j_def [symmetric])
  let ?p = "set_worker 0 (W_pending j) sv1"
  have step1: "work_step E ?b ?p"
    using sv_setup [of 0 ?b fd E sv1] s1(1) assms(4) by (simp add: stop_begin_frame j_def)
  have cp: "sv_conn ?p j = (co_conn (accept_object E j))\<lparr>c_socket := s\<rparr>" "j < length (sv_objects ?p)"
    using s1(5,6) by (simp_all add: set_worker_def sv_conn_def)
  have "live (c_socket (sv_conn ?p j))"
      "inbound (c_socket (sv_conn ?p j)) = bytes_of_string (http_head (request_line pth) (request_fields h p key exts)) @ rest"
    using cp(1) assms(8,9) by (simp_all add: build_client_request_head)
  from server_stream.server_handshake_head [OF assms(2) cp(2) this start_lines_ok(1) [OF assms(10)] start_lines_ok(2)
      request_fields_ok [OF assms(11-13)] validate_request_fields fields_map_request(4) assms(14)]
  obtain s2 b where hs: "live s2" "server_handshake E j ?p = Some (True, set_conn j ((sv_conn ?p j)\<lparr>c_socket := s2, c_permessage_deflate := b\<rparr>) ?p)"
    by blast
  let ?h = "set_conn j ((sv_conn ?p j)\<lparr>c_socket := s2, c_permessage_deflate := b\<rparr>) ?p"
  let ?a = "accept_activate E j ?h"
  have fr: "sv_workers ?a = [W_pending j]" "\<not> sv_is_running ?a"
    using accept_activate_change [of j ?h E] s1(2,3) by (auto simp: conn_change_def same_frame_def set_worker_def)
  have hc: "sv_conn ?h j = (co_conn (accept_object E j))\<lparr>c_socket := s2, c_permessage_deflate := b\<rparr>"
    and hl: "j < length (sv_objects ?h)" using cp by simp_all
  have on: "\<not> sv_on_connection ?h" using s1(4) by (simp add: set_worker_def set_conn_def)
  have ac: "c_is_open (sv_conn ?a j)" "c_reader_thread (sv_conn ?a j)" "live (c_socket (sv_conn ?a j))"
    using accept_activate_plain [OF on hl, of E] hc hs(1) by simp_all
  let ?w = "set_worker 0 (W_active j) ?a"
  have step2: "work_step E ?p ?w"
    using sv_handshake [of 0 ?p j E ?h] hs(2) s1(2) by (simp add: set_worker_def)
  let ?f = "set_worker 0 W_returned (unregister_pending j (add_connection j ?w))"
  have step3: "work_step E ?w ?f" using sv_add [of 0 ?w j E] fr(1) by (simp add: set_worker_def)
  have run: "server_run A E ?b ?f" unfolding server_run_def
    by (rule converse_rtranclp_into_rtranclp, rule sv_work [OF step1], rule converse_rtranclp_into_rtranclp,
        rule sv_work [OF step2], rule r_into_rtranclp, rule sv_work [OF step3])
  have "stop_end ?f = Some (?f\<lparr>sv_thread := False, sv_workers := [], sv_connections := []\<rparr>)"
    using fr(1) by (simp add: stop_end_def join_workers_def set_worker_def unregister_pending_def add_connection_def)
  then show ?thesis using run ac fr(2)
    by (intro exI [of _ ?f] exI [of _ "?f\<lparr>sv_thread := False, sv_workers := [], sv_connections := []\<rparr>"])
       (simp add: server_is_running_def set_worker_def unregister_pending_def add_connection_def sv_conn_def)
qed

theorem connection_survives_stop_witness:
  "\<exists>sv1 sv2. server_run mem_acc (mem_sv_env (bytes_of_string (build_client_request ''h'' ''80'' ''/'' ''a2V5'' [])) (\<lambda>i. []))
      (stop_begin mem_acc (mem_sv_env (bytes_of_string (build_client_request ''h'' ''80'' ''/'' ''a2V5'' [])) (\<lambda>i. []))
        ((server_new None ())\<lparr>sv_is_running := True, sv_workers := [W_new 3]\<rparr>)) sv1 \<and>
     stop_end sv1 = Some sv2 \<and> c_is_open (sv_conn sv2 0)"
proof -
  let ?bs = "bytes_of_string (build_client_request ''h'' ''80'' ''/'' ''a2V5'' [])"
  let ?sv = "(server_new None ())\<lparr>sv_is_running := True, sv_workers := [W_new 3]\<rparr> :: (mem_world ls, unit) server"
  have "tr_adopt (e_tr (se_env (mem_sv_env ?bs (\<lambda>i. [])))) (se_socket (mem_sv_env ?bs (\<lambda>i. [])) (length (sv_objects ?sv))) 3
      = (no_error, mem_sock ?bs 4)"
    by (simp add: mem_sv_env_def mem_env_def linux_transport_def ls_adopt_def ls_close_def close_fd_def mem_sock_def linux_socket_new_def
        mem_os_def ls_is_open_def Let_def)
  moreover have "sv_is_running ?sv" "sv_workers ?sv = [W_new 3]" "\<not> sv_ssl_enabled ?sv" "\<not> sv_on_connection ?sv"
      "length (sv_objects ?sv) = 0"
    by (simp_all add: server_new_def)
  moreover have "line_text ''/''" "header_value (host_value ''h'' ''80'')" "header_value ''a2V5''" "header_value []"
    by (simp_all add: header_value_def line_text_def host_value_def cr_def lf_def)
  moreover have "ls_live mem_connected (mem_sock ?bs 4)" "ls_stream mem_in (mem_sock ?bs 4) = ?bs @ []"
    by (simp_all add: mem_sock_live)
  ultimately show ?thesis
    using connection_survives_stop [OF mem_server.server_stream_axioms, of ?sv 3 ?bs "\<lambda>i. []" "mem_sock ?bs 4"
        "''h''" "''80''" "''/''" "''a2V5''" "[]" "[]" mem_acc] by simp blast
qed

end
