(* ===== verification/Server_Accept.thy ===== *)
theory Server_Accept
  imports Server_Steps
begin

text \<open>
  \<open>handle_accept\<close> as one piece: the function that runs it without interruption is one of the runs of the
  transition system, the one in which no other thread acts while the worker is busy.
\<close>

section \<open>The worker list plays no part\<close>

lemma set_conn_workers: "set_conn i k (sv\<lparr>sv_workers := ws\<rparr>) = (set_conn i k sv)\<lparr>sv_workers := ws\<rparr>"
  by (cases sv) (simp add: set_conn_def)

lemma sv_conn_workers [simp]: "sv_conn (sv\<lparr>sv_workers := ws\<rparr>) i = sv_conn sv i"
  by (simp add: sv_conn_def)

lemma server_error_workers: "server_error i msg (sv\<lparr>sv_workers := ws\<rparr>) = (server_error i msg sv)\<lparr>sv_workers := ws\<rparr>"
  by (cases sv) (simp add: server_error_def)

lemma server_react_workers [simp]: "server_react E (sv\<lparr>sv_workers := ws\<rparr>) i = server_react E sv i"
  by (rule ext) (simp add: server_react_def reaches_user_def split: event.split)

lemma server_callback_workers: "server_callback i ev (sv\<lparr>sv_workers := ws\<rparr>) = (server_callback i ev sv)\<lparr>sv_workers := ws\<rparr>"
  by (cases sv; cases ev) (simp_all add: remove_connection_def Let_def)

lemma fold_workers:
  assumes "\<And>x sv. f x (sv\<lparr>sv_workers := ws\<rparr>) = (f x sv)\<lparr>sv_workers := ws\<rparr>"
  shows "fold f xs (sv\<lparr>sv_workers := ws\<rparr>) = (fold f xs sv)\<lparr>sv_workers := ws\<rparr>"
  by (induction xs arbitrary: sv) (simp_all add: assms)

lemma on_conn_workers: "on_conn E i f (sv\<lparr>sv_workers := ws\<rparr>) = (on_conn E i f sv)\<lparr>sv_workers := ws\<rparr>"
  by (simp add: on_conn_def Let_def server_callbacks_def set_conn_workers
      fold_workers [of "server_callback i" ws, OF server_callback_workers])

lemma run_conn_op_workers: "run_conn_op E i op (sv\<lparr>sv_workers := ws\<rparr>) = (run_conn_op E i op sv)\<lparr>sv_workers := ws\<rparr>"
  by (cases op; simp add: set_conn_workers on_conn_workers)

lemma accept_activate_workers: "accept_activate E i (sv\<lparr>sv_workers := ws\<rparr>) = (accept_activate E i sv)\<lparr>sv_workers := ws\<rparr>"
proof -
  let ?e = "sv_events sv @ [Sv_connection i]"
  have e: "sv\<lparr>sv_workers := ws, sv_events := ?e\<rparr> = sv\<lparr>sv_events := ?e, sv_workers := ws\<rparr>" by (cases sv) simp
  have "fold (run_conn_op E i) xs (sv\<lparr>sv_workers := ws, sv_events := ?e\<rparr>)
      = (fold (run_conn_op E i) xs (sv\<lparr>sv_events := ?e\<rparr>))\<lparr>sv_workers := ws\<rparr>" for xs
    unfolding e by (rule fold_workers) (rule run_conn_op_workers)
  then show ?thesis by (simp add: accept_activate_def Let_def on_conn_workers)
qed

lemma server_handshake_workers:
  "server_handshake E i (sv\<lparr>sv_workers := ws\<rparr>) =
     map_option (\<lambda>(ok, sv1). (ok, sv1\<lparr>sv_workers := ws\<rparr>)) (server_handshake E i sv)"
  by (simp add: server_handshake_def Let_def case_prod_unfold set_conn_workers server_error_workers option.map_comp
      split: option.split)

lemma list_changes_workers:
  "unregister_pending i (sv\<lparr>sv_workers := ws\<rparr>) = (unregister_pending i sv)\<lparr>sv_workers := ws\<rparr>"
  "add_connection i (sv\<lparr>sv_workers := ws\<rparr>) = (add_connection i sv)\<lparr>sv_workers := ws\<rparr>"
  by (cases sv; simp add: unregister_pending_def add_connection_def)+

section \<open>One piece\<close>

lemma handle_accept_works:
  assumes "i < length (sv_workers sv)" and "sv_workers sv ! i = W_new fd" and "handle_accept E fd sv = Some sv1"
  shows "(work_step E)\<^sup>*\<^sup>* sv (set_worker i W_returned sv1)"
proof -
  let ?n = "length (sv_objects sv)" and ?ws = "sv_workers sv"
  obtain ok sv2 where s: "accept_setup E fd sv = (ok, sv2)" by (cases "accept_setup E fd sv")
  have w2: "sv_workers sv2 = ?ws" using accept_setup_change [OF s] by (simp add: setup_change_def)
  show ?thesis
  proof (cases ok)
    case False
    then have "work_step E sv (set_worker i W_returned sv1)"
      using sv_setup_failed [OF assms(1,2), of E sv2] s assms(3) by (auto simp: handle_accept_def Let_def)
    then show ?thesis by simp
  next
    case True
    then obtain ok2 sv3 where h: "server_handshake E ?n sv2 = Some (ok2, sv3)"
      using assms(3) s by (auto simp: handle_accept_def Let_def split: option.splits)
    let ?p = "set_worker i (W_pending ?n) sv2"
    have p: "?p = sv2\<lparr>sv_workers := ?ws[i := W_pending ?n]\<rparr>" by (simp add: set_worker_def w2)
    have w3: "sv_workers sv3 = ?ws" using server_handshake_change [OF h] w2
      by (simp add: socket_change_def conn_change_def same_frame_def)
    have step1: "work_step E sv ?p" using sv_setup [OF assms(1,2)] s True by simp
    have hp: "server_handshake E ?n ?p = Some (ok2, sv3\<lparr>sv_workers := ?ws[i := W_pending ?n]\<rparr>)"
      unfolding p by (simp add: server_handshake_workers h)
    have i: "i < length (sv_workers ?p)" "sv_workers ?p ! i = W_pending ?n" using assms(1) by (simp_all add: p)
    show ?thesis
    proof (cases ok2)
      case False
      then have "sv1 = unregister_pending ?n sv3" using assms(3) s True h by (simp add: handle_accept_def Let_def)
      then have "set_worker i W_returned sv1 = set_worker i W_returned (unregister_pending ?n (sv3\<lparr>sv_workers := ?ws[i := W_pending ?n]\<rparr>))"
        by (simp add: set_worker_def list_changes_workers) (simp add: unregister_pending_def w3)
      then have "work_step E ?p (set_worker i W_returned sv1)"
        using sv_handshake_failed [OF i, of E "sv3\<lparr>sv_workers := ?ws[i := W_pending ?n]\<rparr>"] hp False by simp
      with step1 show ?thesis by (rule converse_rtranclp_into_rtranclp [OF _ r_into_rtranclp])
    next
      case True
      let ?a = "accept_activate E ?n sv3"
      have wa: "sv_workers ?a = ?ws" using accept_activate_change [of ?n sv3 E] w3 by (simp add: conn_change_def same_frame_def)
      have v1: "sv1 = unregister_pending ?n (add_connection ?n ?a)"
        using assms(3) s \<open>ok\<close> h True by (simp add: handle_accept_def Let_def)
      let ?q = "?a\<lparr>sv_workers := ?ws[i := W_active ?n]\<rparr>"
      have "work_step E ?p ?q"
        using sv_handshake [OF i, of E "sv3\<lparr>sv_workers := ?ws[i := W_pending ?n]\<rparr>"] hp True
        by (simp add: accept_activate_workers set_worker_def)
      moreover have "work_step E ?q (set_worker i W_returned (unregister_pending ?n (add_connection ?n ?q)))"
        using assms(1) by (intro sv_add) simp_all
      moreover have "set_worker i W_returned (unregister_pending ?n (add_connection ?n ?q)) = set_worker i W_returned sv1"
        by (simp add: v1 list_changes_workers set_worker_def)
           (simp add: unregister_pending_def add_connection_def wa)
      ultimately show ?thesis using step1 by (auto intro: converse_rtranclp_into_rtranclp)
    qed
  qed
qed

section \<open>Runs\<close>

text \<open>
  \<open>handle_accept\<close>, run as one piece, is a run of the transition system: when it returns, the steps of the
  worker lead from the same state to the same result.  Whatever holds in every reachable state of the
  transition system therefore holds after \<open>handle_accept\<close>.
\<close>

lemma handle_accept_run:
  assumes "i < length (sv_workers sv)" and "sv_workers sv ! i = W_new fd" and "handle_accept E fd sv = Some sv1"
  shows "server_run A E sv (set_worker i W_returned sv1)"
  using handle_accept_works [OF assms] unfolding server_run_def
  by (rule rtranclp_mono [THEN predicate2D, rotated]) (auto intro: sv_work)

lemma mem_adopt: "tr_adopt (e_tr (se_env (mem_sv_env bs g))) (se_socket (mem_sv_env bs g) i) 3 = (no_error, mem_sock bs 4)"
  by (simp add: mem_sv_env_def mem_env_def linux_transport_def ls_adopt_def ls_close_def close_fd_def mem_sock_def
      linux_socket_new_def mem_os_def ls_is_open_def Let_def)

text \<open>The first connection of a server over the in-memory system, with a request on its stream.\<close>

lemma mem_handle_accept:
  fixes sv :: "(mem_world ls, unit) server"
  assumes "bs = bytes_of_string (build_client_request ''h'' ''80'' ''/'' ''a2V5'' [])" and "\<not> sv_ssl_enabled sv"
  shows "handle_accept (mem_sv_env bs g) 3 sv \<noteq> None"
proof -
  let ?E = "mem_sv_env bs g" and ?n = "length (sv_objects sv)"
  obtain sv2 where s: "accept_setup ?E 3 sv = (True, sv2)" "length (sv_objects sv2) = Suc ?n"
      "sv_conn sv2 ?n = (co_conn (accept_object ?E ?n))\<lparr>c_socket := mem_sock bs 4\<rparr>"
    using accept_setup_plain [OF mem_adopt assms(2)] by blast
  have f: "line_text ''/''" "header_value (host_value ''h'' ''80'')" "header_value ''a2V5''" "header_value []"
    by (simp_all add: header_value_def line_text_def host_value_def cr_def lf_def)
  have "ls_live mem_connected (c_socket (sv_conn sv2 ?n))"
      "ls_stream mem_in (c_socket (sv_conn sv2 ?n)) =
        bytes_of_string (http_head (request_line ''/'') (request_fields ''h'' ''80'' ''a2V5'' [])) @ []"
    using s(3) assms(1) by (simp_all add: mem_sock_live build_client_request_head)
  from mem_server.server_handshake_head [OF _ this start_lines_ok(1) [OF f(1)] start_lines_ok(2) request_fields_ok [OF f(2-4)]
      validate_request_fields fields_map_request(4), of bs g]
  have "server_handshake ?E ?n sv2 \<noteq> None" using s(2) by auto
  then show ?thesis using s(1) by (auto simp: handle_accept_def Let_def)
qed

lemma handle_accept_run_witness:
  "\<exists>sv1. handle_accept (mem_sv_env (bytes_of_string (build_client_request ''h'' ''80'' ''/'' ''a2V5'' [])) (\<lambda>i. [])) 3
       ((server_new None ())\<lparr>sv_workers := [W_new 3]\<rparr>) = Some sv1 \<and>
     server_run mem_acc (mem_sv_env (bytes_of_string (build_client_request ''h'' ''80'' ''/'' ''a2V5'' [])) (\<lambda>i. []))
       ((server_new None ())\<lparr>sv_workers := [W_new 3]\<rparr>) (set_worker 0 W_returned sv1)"
proof -
  let ?bs = "bytes_of_string (build_client_request ''h'' ''80'' ''/'' ''a2V5'' [])"
  let ?E = "mem_sv_env ?bs (\<lambda>i. [])"
  let ?sv = "(server_new None ())\<lparr>sv_workers := [W_new 3]\<rparr> :: (mem_world ls, unit) server"
  obtain sv1 where "handle_accept ?E 3 ?sv = Some sv1"
    using mem_handle_accept [of ?bs ?sv "\<lambda>i. []"] by (auto simp: server_new_def)
  then show ?thesis using handle_accept_run [of 0 ?sv 3 ?E sv1 mem_acc] by auto
qed

end
