(* ===== verification/Asio_Socket.thy ===== *)
theory Asio_Socket
  imports Client
begin

text \<open>
  The transport over standalone ASIO (\<open>class asio_socket::impl\<close>, \<open>src/net/asio_socket.cpp\<close>).  ASIO is the
  parameter \<open>asio\<close>: its operations on a TCP socket and on a TLS stream, both named by a number, with the
  state \<open>'w\<close> of the library and the network.  What its documentation promises of the synchronous
  operations is the locale \<open>asio_stream\<close>; it makes the transport a \<open>byte_stream\<close>, but not an
  \<open>exact_stream\<close>: \<open>read_until\<close> may take octets behind the delimiter into the buffer.
\<close>

section \<open>Model\<close>

record 'w asio =
  as_resolve :: "'w \<Rightarrow> string \<Rightarrow> string \<Rightarrow> error_code \<times> nat list \<times> 'w"
  as_connect_any :: "'w \<Rightarrow> nat \<Rightarrow> nat list \<Rightarrow> error_code \<times> 'w"
  as_connect :: "'w \<Rightarrow> nat \<Rightarrow> tcp_endpoint \<Rightarrow> error_code \<times> 'w"
  as_shutdown :: "'w \<Rightarrow> nat \<Rightarrow> error_code \<times> 'w"
  as_close :: "'w \<Rightarrow> nat \<Rightarrow> error_code \<times> 'w"
  as_is_open :: "'w \<Rightarrow> nat \<Rightarrow> bool"
  as_write :: "'w \<Rightarrow> nat \<Rightarrow> bytes \<Rightarrow> nat \<times> error_code \<times> 'w"
  as_read :: "'w \<Rightarrow> nat \<Rightarrow> nat \<Rightarrow> bytes \<times> error_code \<times> 'w"
  as_read_some :: "'w \<Rightarrow> nat \<Rightarrow> nat \<Rightarrow> bytes \<times> error_code \<times> 'w"
  as_read_until :: "'w \<Rightarrow> nat \<Rightarrow> bytes \<Rightarrow> bytes \<Rightarrow> (bytes \<times> error_code \<times> 'w) option"
  as_would_block :: error_code
  as_ssl_new :: "'w \<Rightarrow> nat \<Rightarrow> nat \<Rightarrow> nat \<times> 'w"
  as_ssl_shutdown :: "'w \<Rightarrow> nat \<Rightarrow> error_code \<times> 'w"
  as_ssl_write :: "'w \<Rightarrow> nat \<Rightarrow> bytes \<Rightarrow> nat \<times> error_code \<times> 'w"
  as_ssl_read :: "'w \<Rightarrow> nat \<Rightarrow> nat \<Rightarrow> bytes \<times> error_code \<times> 'w"
  as_ssl_read_some :: "'w \<Rightarrow> nat \<Rightarrow> nat \<Rightarrow> bytes \<times> error_code \<times> 'w"
  as_ssl_read_until :: "'w \<Rightarrow> nat \<Rightarrow> bytes \<Rightarrow> bytes \<Rightarrow> (bytes \<times> error_code \<times> 'w) option"
  as_ssl_set_host_name :: "'w \<Rightarrow> nat \<Rightarrow> string \<Rightarrow> int \<times> 'w"
  as_ssl_handshake :: "'w \<Rightarrow> nat \<Rightarrow> bool \<Rightarrow> error_code \<times> 'w"

record asio_socket =
  az_socket :: nat
  az_ssl_context :: ssl_ctx
  az_ssl :: "nat option"
  az_ssl_enabled :: bool

type_synonym 'w az = "asio_socket \<times> 'w"

definition asio_socket_new :: "nat \<Rightarrow> asio_socket" where
  "asio_socket_new sock = \<lparr>az_socket = sock, az_ssl_context = None, az_ssl = None, az_ssl_enabled = False\<rparr>"

definition az_native_socket :: "'w az \<Rightarrow> nat" where
  "az_native_socket s = az_socket (fst s)"

definition az_connect :: "'w asio \<Rightarrow> 'w az \<Rightarrow> string \<Rightarrow> string \<Rightarrow> error_code \<times> 'w az" where
  "az_connect A s host port =
     (let (k, w) = s; (ec, endpoints, w) = as_resolve A w host port in
      if failed ec then (ec, k, w)
      else let (ec, w) = as_connect_any A w (az_socket k) endpoints in (ec, k, w))"

definition az_connect_ep :: "'w asio \<Rightarrow> 'w az \<Rightarrow> tcp_endpoint \<Rightarrow> error_code \<times> 'w az" where
  "az_connect_ep A s endpoint = (let (k, w) = s; (ec, w) = as_connect A w (az_socket k) endpoint in (ec, k, w))"

text \<open>\<open>adopt\<close> moves the given socket, which is open, into the member.\<close>

definition az_adopt :: "'w az \<Rightarrow> int \<Rightarrow> error_code \<times> 'w az" where
  "az_adopt s sock = (let (k, w) = s in (no_error, k\<lparr>az_socket := nat sock\<rparr>, w))"

definition az_close :: "'w asio \<Rightarrow> 'w az \<Rightarrow> 'w az" where
  "az_close A s =
     (let (k, w) = s;
          w = (case az_ssl k of None \<Rightarrow> w | Some h \<Rightarrow> snd (as_ssl_shutdown A w h));
          w = snd (as_shutdown A w (az_socket k));
          w = snd (as_close A w (az_socket k))
      in (k, w))"

definition az_write :: "'w asio \<Rightarrow> 'w az \<Rightarrow> bytes \<Rightarrow> nat \<times> error_code \<times> 'w az" where
  "az_write A s data =
     (let (k, w) = s;
          (n, ec, w) = (case az_ssl k of None \<Rightarrow> as_write A w (az_socket k) data | Some h \<Rightarrow> as_ssl_write A w h data)
      in (n, ec, k, w))"

definition az_read :: "'w asio \<Rightarrow> 'w az \<Rightarrow> nat \<Rightarrow> bytes \<times> error_code \<times> 'w az" where
  "az_read A s sz =
     (let (k, w) = s;
          (got, ec, w) = (case az_ssl k of None \<Rightarrow> as_read A w (az_socket k) sz | Some h \<Rightarrow> as_ssl_read A w h sz)
      in (got, ec, k, w))"

definition az_read_some :: "'w asio \<Rightarrow> 'w az \<Rightarrow> nat \<Rightarrow> bytes \<times> error_code \<times> 'w az" where
  "az_read_some A s sz =
     (let (k, w) = s;
          (got, ec, w) = (case az_ssl k of None \<Rightarrow> as_read_some A w (az_socket k) sz | Some h \<Rightarrow> as_ssl_read_some A w h sz);
          ec = (if ec = as_would_block A then no_error else ec)
      in (got, ec, k, w))"

definition az_read_until :: "'w asio \<Rightarrow> 'w az \<Rightarrow> bytes \<Rightarrow> bytes \<Rightarrow> (bytes \<times> error_code \<times> 'w az) option" where
  "az_read_until A s buf delim =
     (let (k, w) = s in
      map_option (\<lambda>(buf, ec, w). (buf, ec, k, w))
        (case az_ssl k of None \<Rightarrow> as_read_until A w (az_socket k) buf delim | Some h \<Rightarrow> as_ssl_read_until A w h buf delim))"

definition az_is_open :: "'w asio \<Rightarrow> 'w az \<Rightarrow> bool" where
  "az_is_open A s = (let (k, w) = s in as_is_open A w (az_socket k))"

definition az_enable_ssl :: "'w asio \<Rightarrow> 'w az \<Rightarrow> ssl_ctx \<Rightarrow> error_code \<times> 'w az" where
  "az_enable_ssl A s ctx =
     (let (k, w) = s in
      case ctx of
        None \<Rightarrow> (no_error, s)
      | Some c \<Rightarrow>
          let (h, w) = as_ssl_new A w (az_socket k) c in
          (no_error, k\<lparr>az_ssl := Some h, az_ssl_context := ctx, az_ssl_enabled := True\<rparr>, w))"

definition az_set_ssl_hostname :: "'w asio \<Rightarrow> 'w az \<Rightarrow> string \<Rightarrow> error_code \<times> 'w az" where
  "az_set_ssl_hostname A s host =
     (let (k, w) = s in
      case az_ssl k of
        None \<Rightarrow> (make_error_code ssl_not_enabled, s)
      | Some h \<Rightarrow>
          let (rc, w) = as_ssl_set_host_name A w h host in
          (if rc \<noteq> 1 then make_error_code ssl_io_error else no_error, k, w))"

definition az_ssl_handshake :: "'w asio \<Rightarrow> 'w az \<Rightarrow> bool \<Rightarrow> error_code \<times> 'w az" where
  "az_ssl_handshake A s as_client =
     (let (k, w) = s in
      case az_ssl k of
        None \<Rightarrow> (make_error_code ssl_not_enabled, s)
      | Some h \<Rightarrow> let (ec, w) = as_ssl_handshake A w h as_client in (ec, k, w))"

definition az_is_ssl :: "'w az \<Rightarrow> bool" where
  "az_is_ssl s = az_ssl_enabled (fst s)"

definition asio_transport :: "'w asio \<Rightarrow> 'w az transport" where
  "asio_transport A =
     \<lparr>tr_connect = az_connect A, tr_connect_ep = az_connect_ep A, tr_adopt = az_adopt, tr_close = az_close A,
      tr_write = az_write A, tr_read = az_read A, tr_read_some = az_read_some A, tr_read_until = az_read_until A,
      tr_is_open = az_is_open A, tr_enable_ssl = az_enable_ssl A, tr_set_ssl_hostname = az_set_ssl_hostname A,
      tr_ssl_handshake = az_ssl_handshake A, tr_is_ssl = az_is_ssl\<rparr>"

section \<open>The contract of ASIO\<close>

definition az_live :: "('w \<Rightarrow> nat \<Rightarrow> bool) \<Rightarrow> 'w az \<Rightarrow> bool" where
  "az_live connected s \<longleftrightarrow> az_ssl (fst s) = None \<and> connected (snd s) (az_socket (fst s))"

definition az_stream :: "('w \<Rightarrow> nat \<Rightarrow> bytes) \<Rightarrow> 'w az \<Rightarrow> bytes" where
  "az_stream box s = box (snd s) (az_socket (fst s))"

text \<open>
  \<open>asio::write\<close> transfers all of the data, \<open>asio::read\<close> fills the buffer or fails at the end of the stream;
  \<open>asio::read_until\<close> returns once the buffer contains the delimiter and may have read further: \<open>k\<close> is how
  many octets it took, at least up to the end of the first occurrence.
\<close>

locale asio_stream =
  fixes A :: "'w asio"
    and connected :: "'w \<Rightarrow> nat \<Rightarrow> bool"
    and inbox :: "'w \<Rightarrow> nat \<Rightarrow> bytes"
    and outbox :: "'w \<Rightarrow> nat \<Rightarrow> bytes"
  assumes as_write_all: "connected w sock \<Longrightarrow>
      \<exists>w'. as_write A w sock data = (length data, no_error, w') \<and> connected w' sock \<and>
        outbox w' sock = outbox w sock @ data \<and> inbox w' sock = inbox w sock"
    and as_read_exact: "connected w sock \<Longrightarrow> 0 < n \<Longrightarrow> n \<le> length (inbox w sock) \<Longrightarrow>
      \<exists>w'. as_read A w sock n = (take n (inbox w sock), no_error, w') \<and> connected w' sock \<and>
        inbox w' sock = drop n (inbox w sock) \<and> outbox w' sock = outbox w sock"
    and as_read_eof: "connected w sock \<Longrightarrow> length (inbox w sock) < n \<Longrightarrow>
      \<exists>ec w'. as_read A w sock n = (inbox w sock, ec, w') \<and> failed ec"
    and as_read_until_found: "connected w sock \<Longrightarrow> inbox w sock = front @ delim @ rest \<Longrightarrow>
      delim \<noteq> [] \<Longrightarrow> \<not> contains delim (butlast (front @ delim)) \<Longrightarrow>
      \<exists>k w'. as_read_until A w sock [] delim = Some (take k (inbox w sock), no_error, w') \<and>
        length (front @ delim) \<le> k \<and> k \<le> length (inbox w sock) \<and> connected w' sock \<and>
        inbox w' sock = drop k (inbox w sock) \<and> outbox w' sock = outbox w sock"

context asio_stream
begin

lemma az_read_full:
  assumes "az_live connected s" and "0 < n" and "n \<le> length (az_stream inbox s)"
  shows "\<exists>s'. tr_read (asio_transport A) s n = (take n (az_stream inbox s), no_error, s') \<and> az_live connected s' \<and>
      az_stream inbox s' = drop n (az_stream inbox s) \<and> az_stream outbox s' = az_stream outbox s"
proof -
  obtain k w where kw: "s = (k, w)" "az_ssl k = None" "connected w (az_socket k)"
    using assms(1) by (cases s) (auto simp: az_live_def)
  show ?thesis using as_read_exact [OF kw(3) assms(2)] assms(3) kw
    by (auto simp: asio_transport_def az_read_def az_live_def az_stream_def)
qed

lemma az_read_ended:
  assumes "az_live connected s" and "length (az_stream inbox s) < n"
  shows "\<exists>ec s'. tr_read (asio_transport A) s n = (az_stream inbox s, ec, s') \<and> failed ec"
proof -
  obtain k w where kw: "s = (k, w)" "az_ssl k = None" "connected w (az_socket k)"
    using assms(1) by (cases s) (auto simp: az_live_def)
  show ?thesis using as_read_eof [OF kw(3), of n] assms(2) kw
    by (auto simp: asio_transport_def az_read_def az_stream_def)
qed

lemma az_write_full:
  assumes "az_live connected s"
  shows "\<exists>s'. tr_write (asio_transport A) s data = (length data, no_error, s') \<and> az_live connected s' \<and>
      az_stream outbox s' = az_stream outbox s @ data \<and> az_stream inbox s' = az_stream inbox s"
proof -
  obtain k w where kw: "s = (k, w)" "az_ssl k = None" "connected w (az_socket k)"
    using assms by (cases s) (auto simp: az_live_def)
  show ?thesis using as_write_all [OF kw(3), of data] kw
    by (auto simp: asio_transport_def az_write_def az_live_def az_stream_def)
qed

end

sublocale asio_stream \<subseteq> plain: byte_stream "asio_transport A" "az_live connected" "az_stream inbox" "az_stream outbox"
  "\<lambda>_. True"
proof (unfold_locales, goal_cases)
  case (1 s n)
  then show ?case by (intro az_read_full)
next
  case (2 s n got ec s')
  then show ?case using az_read_full [of s n] az_read_ended [of s n]
    by (cases "n \<le> length (az_stream inbox s)") auto
next
  case (3 s data)
  then show ?case using az_write_full [of s data] by auto
next
  case (6 s data)
  then show ?case by (intro az_write_full)
qed auto

section \<open>A memory stream\<close>

text \<open>ASIO over the in-memory stream, with a \<open>read_until\<close> that takes all that has arrived.\<close>

definition mem_asio :: "mem_world asio" where
  "mem_asio =
     \<lparr>as_resolve = (\<lambda>w h p. (no_error, [0], w)), as_connect_any = (\<lambda>w sock eps. (no_error, w)),
      as_connect = (\<lambda>w sock ep. (no_error, w)), as_shutdown = (\<lambda>w sock. (no_error, w)), as_close = (\<lambda>w sock. (no_error, w)),
      as_is_open = (\<lambda>w sock. True),
      as_write = (\<lambda>w sock d. (length d, no_error, w\<lparr>mw_out := mw_out w @ d\<rparr>)),
      as_read = (\<lambda>w sock n. (take n (mw_in w), if n \<le> length (mw_in w) then no_error else connection_reset, w\<lparr>mw_in := drop n (mw_in w)\<rparr>)),
      as_read_some = (\<lambda>w sock n. (take n (mw_in w), no_error, w\<lparr>mw_in := drop n (mw_in w)\<rparr>)),
      as_read_until = (\<lambda>w sock buf delim.
         if contains delim (mw_in w) then Some (buf @ mw_in w, no_error, w\<lparr>mw_in := []\<rparr>) else Some (buf @ mw_in w, connection_reset, w\<lparr>mw_in := []\<rparr>)),
      as_would_block = system_error 11,
      as_ssl_new = (\<lambda>w sock c. (0, w)), as_ssl_shutdown = (\<lambda>w h. (no_error, w)), as_ssl_write = (\<lambda>w h d. (0, connection_reset, w)),
      as_ssl_read = (\<lambda>w h n. ([], connection_reset, w)), as_ssl_read_some = (\<lambda>w h n. ([], connection_reset, w)),
      as_ssl_read_until = (\<lambda>w h buf delim. Some (buf, connection_reset, w)), as_ssl_set_host_name = (\<lambda>w h host. (0, w)),
      as_ssl_handshake = (\<lambda>w h cl. (connection_reset, w))\<rparr>"

interpretation mem_asio: asio_stream mem_asio "\<lambda>w sock. True" "\<lambda>w sock. mw_in w" "\<lambda>w sock. mw_out w"
proof
  fix w :: mem_world and front delim rest :: bytes
  assume i: "mw_in w = front @ delim @ rest"
  then have "contains delim (mw_in w)" by (auto simp: contains_iff)
  then show "\<exists>k w'. as_read_until mem_asio w sock [] delim = Some (take k (mw_in w), no_error, w') \<and>
      length (front @ delim) \<le> k \<and> k \<le> length (mw_in w) \<and> True \<and> mw_in w' = drop k (mw_in w) \<and> mw_out w' = mw_out w" for sock
    using i by (intro exI [of _ "length (mw_in w)"] exI [of _ "w\<lparr>mw_in := []\<rparr>"]) (simp add: mem_asio_def)
qed (auto simp: mem_asio_def)

section \<open>Properties\<close>

lemma head_no_early_end:
  assumes "line_text start" and "start \<noteq> []" and "list_all field_ok fs"
  shows "\<not> contains (bytes_of_string (crlf @ crlf)) (butlast (bytes_of_string (http_head start fs)))"
proof
  let ?h = "http_head start fs" and ?d = "crlf @ crlf"
  assume "contains (bytes_of_string ?d) (butlast (bytes_of_string ?h))"
  then obtain a b where ab: "butlast (bytes_of_string ?h) = a @ bytes_of_string ?d @ b" by (auto simp: contains_iff)
  let ?j = "length a + length ?d"
  have ne: "?h \<noteq> []" by (simp add: http_head_def)
  have "length ?h - 1 = ?j + length b" using arg_cong [OF ab, of length] by simp
  then have j: "?j < length ?h" using ne by (simp add: less_eq_Suc_le)
  have "take ?j (bytes_of_string ?h) = take ?j (butlast (bytes_of_string ?h))"
    using j by (simp add: take_butlast)
  also have "\<dots> = a @ bytes_of_string ?d" unfolding ab by simp
  finally have "suffix (bytes_of_string ?d) (bytes_of_string (take ?j ?h))"
    by (simp add: take_bytes_of_string suffix_def)
  then show False using http_head_first_end [OF assms j] by (simp only: suffix_bytes_of_string)
qed

text \<open>
  C38: With the ASIO transport the handshake loses what arrives together with the peer's answer.  The answer
  is read into a local buffer; whatever \<open>read_until\<close> took behind the head (\<open>ahead\<close>) goes away with the
  buffer, and the connection starts to read frames behind it.
\<close>

theorem asio_handshake_drops_octets:
  fixes c :: "('w az, 'o) client"
  assumes "asio_stream A connected inbox outbox" and "e_tr (ce_env E) = asio_transport A"
    and "c_socket (cl_connection c) = (k, w)" and "az_ssl k = None" and "connected w (az_socket k)"
    and "inbox w (az_socket k) = bytes_of_string (http_head status fs) @ ahead @ later"
    and "line_text status" and "contains ''101'' status" and "list_all field_ok fs"
    and "as_write A w (az_socket k) (bytes_of_string (client_request E rd info c)) = (n, ec1, w1)"
    and "as_read_until A w1 (az_socket k) [] (bytes_of_string (crlf @ crlf)) =
           Some (bytes_of_string (http_head status fs) @ ahead, ec2, w2)"
  shows "\<exists>c1. client_handshake E rd info c = Some (no_error, c1) \<and>
    az_stream inbox (c_socket (cl_connection c1)) = later \<and>
    c_payload_buffer (cl_connection c1) = c_payload_buffer (cl_connection c) \<and>
    c_message_buffer (cl_connection c1) = c_message_buffer (cl_connection c)"
proof -
  let ?h = "http_head status fs" and ?k = "cl_connection c" and ?d = "bytes_of_string (crlf @ crlf)"
  have ne: "status \<noteq> []" using assms(8) by auto
  have w: "ec1 = no_error" "connected w1 (az_socket k)" "inbox w1 (az_socket k) = bytes_of_string ?h @ ahead @ later"
    using asio_stream.as_write_all [OF assms(1,5), of "bytes_of_string (client_request E rd info c)"] assms(6,10) by auto
  obtain front where front: "?h = front @ crlf @ crlf" using http_head_suffix by (auto simp: suffix_def)
  have i1: "inbox w1 (az_socket k) = bytes_of_string front @ ?d @ (ahead @ later)" unfolding w(3) front by simp
  have i2: "\<not> contains ?d (butlast (bytes_of_string front @ ?d))"
    using head_no_early_end [OF assms(7) ne assms(9)] unfolding front by simp
  have i3: "?d \<noteq> []" by (simp add: bytes_of_string_def)
  obtain m w3 where "as_read_until A w1 (az_socket k) [] ?d = Some (take m (inbox w1 (az_socket k)), no_error, w3)"
      "m \<le> length (inbox w1 (az_socket k))" "inbox w3 (az_socket k) = drop m (inbox w1 (az_socket k))"
    using asio_stream.as_read_until_found [OF assms(1) w(2) i1 i3 i2] by blast
  then have m: "bytes_of_string ?h @ ahead = take m (inbox w1 (az_socket k))" "ec2 = no_error"
      "m \<le> length (inbox w1 (az_socket k))" "inbox w2 (az_socket k) = drop m (inbox w1 (az_socket k))"
    using assms(11) by auto
  have "m = length (bytes_of_string ?h @ ahead)" using arg_cong [OF m(1), of length] m(3) by simp
  then have later: "inbox w2 (az_socket k) = later" using m(4) w(3) by simp
  have pars: "parse_http_headers (string_of_bytes (bytes_of_string ?h @ ahead)) Map.empty = Some (status, fields_map fs)"
    using get_line_text [OF assms(7)] header_loop_fields [OF assms(9), of "string_of_bytes ahead"]
    by (simp add: parse_http_headers_def http_head_def fields_map_def)
  let ?c1 = "c\<lparr>cl_connection := ?k\<lparr>c_socket := (k, w2), c_permessage_deflate := c_permessage_deflate ?k \<or>
      cl_request_deflate c \<and> grants_deflate (fields_map fs)\<rparr>\<rparr>"
  have wr: "tr_write (e_tr (ce_env E)) (c_socket ?k) (bytes_of_string (client_request E rd info c)) = (n, no_error, k, w1)"
    using assms(2-4,10) w(1) by (simp add: asio_transport_def az_write_def)
  have rd: "tr_read_until (e_tr (ce_env E)) (k, w1) [] ?d = Some (bytes_of_string ?h @ ahead, no_error, k, w2)"
    using assms(2,4,11) m(2) by (simp add: asio_transport_def az_read_until_def)
  have "client_handshake E rd info c = Some (no_error, ?c1)"
    using wr rd pars assms(8)
    by (simp add: client_handshake_def client_request_def on_socket_def grants_deflate_def [symmetric] deflate_or [symmetric]
        set_permessage_deflate_def Let_def del: bytes_of_string_append string_of_bytes_append)
  then show ?thesis using later by (intro exI [of _ ?c1]) (simp add: az_stream_def)
qed

text \<open>A client whose peer sends the answer and a text frame in one piece.\<close>

definition asio_cl_env :: "(mem_world az, unit) cl_env" where
  "asio_cl_env =
     \<lparr>ce_env = \<lparr>e_tr = asio_transport mem_asio, e_zlib = rle_zlib, e_alloc = (\<lambda>n. True),
        e_wake = (\<lambda>evs. Some connection_reset)\<rparr>, ce_crypto = mem_crypto,
      ce_openssl = no_openssl\<rparr>"

definition asio_client :: "bytes \<Rightarrow> (mem_world az, unit) client" where
  "asio_client bs = client_new (asio_socket_new 3, \<lparr>mw_in = bs, mw_out = [], mw_chunk = 4\<rparr>) (\<lambda>n. of_nat n) (\<lambda>_. []) ()"

theorem asio_handshake_drops_octets_witness:
  "\<exists>c1. client_handshake asio_cl_env (\<lambda>n. 0) (parse_url ''ws://h'')
      (asio_client (bytes_of_string (http_head ''HTTP/1.1 101 OK'' []) @ [0x81, 0x01, 0x61])) = Some (no_error, c1) \<and>
     az_stream (\<lambda>w sock. mw_in w) (c_socket (cl_connection c1)) = []"
proof -
  let ?head = "bytes_of_string (http_head ''HTTP/1.1 101 OK'' [])"
  let ?cl = "asio_client (?head @ [0x81, 0x01, 0x61])"
  let ?w = "\<lparr>mw_in = ?head @ [0x81, 0x01, 0x61], mw_out = [], mw_chunk = 4\<rparr>"
  let ?r = "bytes_of_string (client_request asio_cl_env (\<lambda>n. 0) (parse_url ''ws://h'') ?cl)"
  have tr: "e_tr (ce_env asio_cl_env) = asio_transport mem_asio" by (simp add: asio_cl_env_def)
  have sk: "c_socket (cl_connection ?cl) = (asio_socket_new 3, ?w)"
    by (simp add: asio_client_def client_new_def set_role_def connection_new_def)
  have ssl: "az_ssl (asio_socket_new 3) = None" by (simp add: asio_socket_new_def)
  have inb: "mw_in ?w = ?head @ [0x81, 0x01, 0x61] @ []" by simp
  have st: "line_text ''HTTP/1.1 101 OK''" "contains ''101'' ''HTTP/1.1 101 OK''" by (simp_all add: cr_def lf_def)
  have wr: "as_write mem_asio ?w (az_socket (asio_socket_new 3)) ?r = (length ?r, no_error, ?w\<lparr>mw_out := mw_out ?w @ ?r\<rparr>)"
    by (simp add: mem_asio_def)
  obtain front where "http_head ''HTTP/1.1 101 OK'' [] = front @ crlf @ crlf"
    using http_head_suffix by (auto simp: suffix_def)
  then have "contains (bytes_of_string (crlf @ crlf)) (?head @ [0x81, 0x01, 0x61])"
    by (auto simp: contains_iff)
  then have rd: "as_read_until mem_asio (?w\<lparr>mw_out := mw_out ?w @ ?r\<rparr>) (az_socket (asio_socket_new 3)) [] (bytes_of_string (crlf @ crlf))
      = Some (?head @ [0x81, 0x01, 0x61], no_error, ?w\<lparr>mw_out := mw_out ?w @ ?r, mw_in := []\<rparr>)"
    by (simp add: mem_asio_def)
  show ?thesis
    using asio_handshake_drops_octets [OF mem_asio.asio_stream_axioms tr sk ssl _ inb st _ wr rd] by auto
qed

end
