(* ===== verification/Server_Asio.thy ===== *)
theory Server_Asio
  imports Server_Accept Asio_Socket
begin

text \<open>
  The server built with ASIO (\<open>src/server.cpp\<close> under \<open>WSCPP_USE_ASIO\<close>): the acceptor is ASIO's, and the
  completion handler of \<open>async_accept\<close> runs \<open>handle_accept\<close> on the one thread that runs the event loop.
  The state is that of the other build; of the acceptor only the library's state is used.  A handler that
  runs \<open>handle_accept\<close> is an entry of \<open>sv_workers\<close>.  Beside the server stand the threads inside
  \<open>io_context::run\<close>: \<open>start\<close> adds one, a handler runs on one of them (ASIO's guarantee for completion handlers),
  and a thread that runs a handler takes up no other before it returns.
\<close>

section \<open>Model\<close>

record 'a acc_asio =
  aa_make_address :: "string \<Rightarrow> error_code \<times> nat"
  aa_open :: "'a \<Rightarrow> nat \<Rightarrow> error_code \<times> 'a"
  aa_reuse_address :: "'a \<Rightarrow> error_code \<times> 'a"
  aa_bind :: "'a \<Rightarrow> nat \<Rightarrow> u16 \<Rightarrow> error_code \<times> 'a"
  aa_listen :: "'a \<Rightarrow> error_code \<times> 'a"
  aa_is_open :: "'a \<Rightarrow> bool"
  aa_close :: "'a \<Rightarrow> error_code \<times> 'a"
  aa_async_accept :: "'a \<Rightarrow> 'a"
  aa_stop :: "'a \<Rightarrow> 'a"

text \<open>An operation of the acceptor that returns an error code.\<close>

definition on_acceptor :: "('a \<Rightarrow> error_code \<times> 'a) \<Rightarrow> ('s, 'a) server \<Rightarrow> error_code \<times> ('s, 'a) server" where
  "on_acceptor f sv =
     (let (fd, a) = sv_acceptor sv; (ec, a) = f a in (ec, sv\<lparr>sv_acceptor := (fd, a)\<rparr>))"

definition start_accept :: "'a acc_asio \<Rightarrow> ('s, 'a) server \<Rightarrow> ('s, 'a) server" where
  "start_accept A sv = sv\<lparr>sv_acceptor := (fst (sv_acceptor sv), aa_async_accept A (snd (sv_acceptor sv)))\<rparr>"

definition asio_listen :: "'a acc_asio \<Rightarrow> string \<Rightarrow> u16 \<Rightarrow> ('s, 'a) server \<Rightarrow> error_code \<times> ('s, 'a) server" where
  "asio_listen A host port sv =
     (let (ec, addr) = aa_make_address A host in
      if failed ec then (ec, sv)
      else and_then (on_acceptor (\<lambda>a. aa_open A a addr) sv) (\<lambda>sv.
           and_then (on_acceptor (aa_reuse_address A) sv) (\<lambda>sv.
           and_then (on_acceptor (\<lambda>a. aa_bind A a addr port) sv) (\<lambda>sv.
           and_then (on_acceptor (aa_listen A) sv) (\<lambda>sv.
           (no_error, start_accept A (sv\<lparr>sv_is_running := True\<rparr>)))))))"

text \<open>The rest of the completion handler: \<open>if (is_running_.load()) start_accept();\<close>\<close>

definition accept_again :: "'a acc_asio \<Rightarrow> ('s, 'a) server \<Rightarrow> ('s, 'a) server" where
  "accept_again A sv = (if sv_is_running sv then start_accept A sv else sv)"

text \<open>
  The completion handler of \<open>async_accept\<close>, run as one piece: \<open>None\<close> when \<open>handle_accept\<close> never returns.
\<close>

definition accept_handler ::
  "'a acc_asio \<Rightarrow> 's sv_env \<Rightarrow> error_code \<Rightarrow> int \<Rightarrow> ('s, 'a) server \<Rightarrow> ('s, 'a) server option" where
  "accept_handler A E ec sock sv =
     (case (if failed ec then Some sv else handle_accept E sock sv) of
        None \<Rightarrow> None
      | Some sv \<Rightarrow> Some (accept_again A sv))"

text \<open>\<open>stop\<close> up to the join of the event loop's thread, and the join.\<close>

definition asio_stop_begin :: "'a acc_asio \<Rightarrow> 's sv_env \<Rightarrow> ('s, 'a) server \<Rightarrow> ('s, 'a) server" where
  "asio_stop_begin A E sv =
     (let sv = sv\<lparr>sv_is_running := False\<rparr>;
          sv = (if aa_is_open A (snd (sv_acceptor sv)) then snd (on_acceptor (aa_close A) sv) else sv);
          sv = sv\<lparr>sv_acceptor := (fst (sv_acceptor sv), aa_stop A (snd (sv_acceptor sv)))\<rparr>;
          sv = shutdown_all_sockets E sv
      in sv\<lparr>sv_connections := []\<rparr>)"

definition asio_stop_end :: "('s, 'a) server \<Rightarrow> ('s, 'a) server option" where
  "asio_stop_end sv =
     (if list_all (\<lambda>w. w = W_returned) (sv_workers sv) then Some (sv\<lparr>sv_thread := False\<rparr>) else None)"

definition asio_stop :: "'a acc_asio \<Rightarrow> 's sv_env \<Rightarrow> ('s, 'a) server \<Rightarrow> ('s, 'a) server option" where
  "asio_stop A E sv = (if \<not> sv_is_running sv then Some sv else asio_stop_end (asio_stop_begin A E sv))"

text \<open>
  The server and the threads inside \<open>io_context::run\<close>: \<open>None\<close> a thread that waits for work, \<open>Some i\<close> one that
  runs the completion handler with number \<open>i\<close>.  A handler without an error runs \<open>handle_accept\<close>, piece by piece as
  the other threads go on, and then the rest of the handler; one with an error runs the rest at once.
\<close>

type_synonym ('s, 'a) asio_server = "('s, 'a) server \<times> nat option list"

inductive asio_step :: "'a acc_asio \<Rightarrow> 's sv_env \<Rightarrow> ('s, 'a) asio_server \<Rightarrow> ('s, 'a) asio_server \<Rightarrow> bool"
  for A :: "'a acc_asio" and E :: "'s sv_env" where
  az_do_listen: "asio_listen A h p sv = (ec, sv1) \<Longrightarrow> asio_step A E (sv, ts) (sv1, ts)"
| az_do_start: "server_start sv = Some (ec, sv1) \<Longrightarrow>
    asio_step A E (sv, ts) (sv1, if failed ec then ts else ts @ [None])"
| az_accepted: "t < length ts \<Longrightarrow> ts ! t = None \<Longrightarrow>
    asio_step A E (sv, ts) (sv\<lparr>sv_workers := sv_workers sv @ [W_new sock]\<rparr>, ts[t := Some (length (sv_workers sv))])"
| az_accept_failed: "t < length ts \<Longrightarrow> ts ! t = None \<Longrightarrow> asio_step A E (sv, ts) (accept_again A sv, ts)"
| az_handled: "t < length ts \<Longrightarrow> ts ! t = Some i \<Longrightarrow> i < length (sv_workers sv) \<Longrightarrow> sv_workers sv ! i = W_returned \<Longrightarrow>
    asio_step A E (sv, ts) (accept_again A sv, ts[t := None])"
| az_stop: "sv_is_running sv \<Longrightarrow> asio_step A E (sv, ts) (asio_stop_begin A E sv, ts)"
| az_stopped: "\<not> sv_is_running sv \<Longrightarrow> list_all (\<lambda>t. t = None) ts \<Longrightarrow> asio_stop_end sv = Some sv1 \<Longrightarrow>
    asio_step A E (sv, ts) (sv1, [])"
| az_join: "list_all (\<lambda>t. t = None) ts \<Longrightarrow> asio_step A E (sv, ts) (server_join sv, [])"
| az_work: "work_step E sv sv1 \<Longrightarrow> asio_step A E (sv, ts) (sv1, ts)"

definition asio_run :: "'a acc_asio \<Rightarrow> 's sv_env \<Rightarrow> ('s, 'a) asio_server \<Rightarrow> ('s, 'a) asio_server \<Rightarrow> bool" where
  "asio_run A E = (asio_step A E)\<^sup>*\<^sup>*"

text \<open>
  There is one thread inside \<open>io_context::run\<close> at most, as long as the thread object of the server is joinable, and
  a \<open>handle_accept\<close> that has not returned runs on one of these threads.
\<close>

definition threads_ok :: "('s, 'a) asio_server \<Rightarrow> bool" where
  "threads_ok p \<longleftrightarrow>
     (let (sv, ts) = p in
      length ts \<le> 1 \<and> (sv_thread sv \<longleftrightarrow> ts \<noteq> []) \<and>
      (\<forall>i<length (sv_workers sv). sv_workers sv ! i \<noteq> W_returned \<longrightarrow> Some i \<in> set ts))"

section \<open>The invariant\<close>

lemma on_acceptor_eq: "on_acceptor f sv = (fst (f (snd (sv_acceptor sv))), sv\<lparr>sv_acceptor := (fst (sv_acceptor sv), snd (f (snd (sv_acceptor sv))))\<rparr>)"
  by (simp add: on_acceptor_def case_prod_unfold Let_def)

lemma asio_listen_inv:
  assumes "asio_listen A h p sv = (ec, sv1)"
  shows "server_inv sv1 = server_inv sv \<and> sv_workers sv1 = sv_workers sv \<and> sv_thread sv1 = sv_thread sv"
  using assms
  by (auto simp: asio_listen_def and_then_def on_acceptor_eq start_accept_def Let_def case_prod_unfold inv_acceptor
      split: if_splits)

lemma start_inv:
  "server_start sv = Some (ec, sv1) \<Longrightarrow> server_inv sv1 = server_inv sv \<and> sv_workers sv1 = sv_workers sv \<and>
     (if failed ec then sv_thread sv1 = sv_thread sv else \<not> sv_thread sv \<and> sv_thread sv1)"
  by (auto simp: server_start_def inv_acceptor split: if_splits)

lemma accept_again_inv:
  "server_inv (accept_again A sv) = server_inv sv" "sv_workers (accept_again A sv) = sv_workers sv"
  "sv_thread (accept_again A sv) = sv_thread sv"
  by (simp_all add: accept_again_def start_accept_def inv_acceptor)

lemma inv_clear: "server_inv sv \<Longrightarrow> server_inv (sv\<lparr>sv_connections := []\<rparr>)"
  by (auto simp: server_inv_def sv_conn_def)

lemma asio_stop_begin_inv:
  fixes sv :: "('s, 'a) server"
  shows
  "server_inv sv \<Longrightarrow> server_inv (asio_stop_begin A E sv)" "sv_workers (asio_stop_begin A E sv) = sv_workers sv"
  "sv_thread (asio_stop_begin A E sv) = sv_thread sv"
proof -
  have "sv_thread (shutdown_all_sockets E sv) = sv_thread sv" for sv :: "('s, 'a) server"
    by (simp add: shutdown_all_sockets_def close_sockets_frame Let_def)
  then show "sv_thread (asio_stop_begin A E sv) = sv_thread sv"
    by (simp add: asio_stop_begin_def Let_def on_acceptor_eq)
qed (simp_all add: asio_stop_begin_def Let_def on_acceptor_eq inv_clear inv_shutdown inv_acceptor shutdown_frame)

lemma work_step_workers:
  "work_step E sv sv1 \<Longrightarrow> sv_thread sv1 = sv_thread sv \<and> (sv_workers sv1 = sv_workers sv \<or>
     (\<exists>i w. i < length (sv_workers sv) \<and> sv_workers sv ! i \<noteq> W_returned \<and> sv_workers sv1 = (sv_workers sv)[i := w]))"
proof (induction rule: work_step.induct)
  case (sv_setup i sv fd sv1)
  then show ?case using accept_setup_change [OF sv_setup(3)] by (auto simp: setup_change_def set_worker_def)
next
  case (sv_setup_failed i sv fd sv1)
  then show ?case using accept_setup_change [OF sv_setup_failed(3)]
    by (auto simp: setup_change_def set_worker_def unregister_pending_def)
next
  case (sv_handshake i sv j sv1)
  then show ?case using server_handshake_change [OF sv_handshake(3)] accept_activate_change [of j sv1 E]
    by (auto simp: socket_change_def conn_change_def same_frame_def set_worker_def)
next
  case (sv_handshake_failed i sv j sv1)
  then show ?case using server_handshake_change [OF sv_handshake_failed(3)]
    by (auto simp: socket_change_def conn_change_def same_frame_def set_worker_def unregister_pending_def)
next
  case (sv_add i sv j)
  then show ?case by (auto simp: set_worker_def unregister_pending_def add_connection_def)
next
  case (sv_read j sv)
  then show ?case using on_conn_change by (auto simp: conn_change_def same_frame_def server_read_def)
next
  case (sv_call j sv a)
  then show ?case using on_conn_change by (auto simp: conn_change_def same_frame_def)
qed

lemma threads_cases:
  assumes "threads_ok (sv, ts)" and "t < length ts"
  shows "ts = [ts ! t]" and "t = 0"
  using assms by (auto simp: threads_ok_def length_Suc_conv le_Suc_eq)

lemma threads_ok_same:
  "threads_ok (sv, ts) \<Longrightarrow> sv_workers sv1 = sv_workers sv \<Longrightarrow> sv_thread sv1 = sv_thread sv \<Longrightarrow> threads_ok (sv1, ts)"
  by (simp add: threads_ok_def)

lemma asio_step_inv:
  assumes "server_inv sv" and "threads_ok (sv, ts)" and "asio_step A E (sv, ts) (sv1, ts1)"
  shows "server_inv sv1 \<and> threads_ok (sv1, ts1)"
  using assms(3)
proof cases
  case (az_do_listen h p ec)
  then show ?thesis using asio_listen_inv [OF az_do_listen(2)] assms(1) threads_ok_same [OF assms(2), of sv1] by simp
next
  case (az_do_start ec)
  then show ?thesis using start_inv [OF az_do_start(2)] assms(1,2)
    by (cases "failed ec") (auto simp: threads_ok_def)
next
  case (az_accepted t sock)
  have "sv\<lparr>sv_acceptor := sv_acceptor sv, sv_workers := sv_workers sv @ [W_new sock]\<rparr> = sv1"
    using az_accepted(1) by (cases sv) simp
  then have i: "server_inv sv1" using inv_new_worker [OF assms(1), where q = "sv_acceptor sv" and fd = sock] by simp
  have ts: "ts = [None]" "t = 0" using threads_cases [OF assms(2) az_accepted(3)] az_accepted(4) by simp_all
  then have "threads_ok (sv1, ts1)" using assms(2) az_accepted(1,2)
    by (auto simp: threads_ok_def nth_append less_Suc_eq)
  then show ?thesis using i by simp
next
  case (az_accept_failed t)
  then show ?thesis using assms(1) threads_ok_same [OF assms(2), of sv1] by (simp add: accept_again_inv)
next
  case (az_handled t i)
  have "ts = [Some i]" "t = 0" using threads_cases [OF assms(2) az_handled(3)] az_handled(4) by simp_all
  then show ?thesis using assms(1,2) az_handled by (auto simp: threads_ok_def accept_again_inv)
next
  case az_stop
  then show ?thesis using assms(1) threads_ok_same [OF assms(2), of sv1] by (simp add: asio_stop_begin_inv)
next
  case az_stopped
  then show ?thesis using assms(1)
    by (auto simp: asio_stop_end_def inv_acceptor threads_ok_def list_all_length split: if_splits)
next
  case az_join
  then have "\<forall>i<length (sv_workers sv). sv_workers sv ! i = W_returned"
    using assms(2) by (auto simp: threads_ok_def list_all_iff)
  then show ?thesis using az_join assms(1) by (simp add: server_join_def inv_acceptor threads_ok_def)
next
  case az_work
  then have "sv_thread sv1 = sv_thread sv" "\<forall>i<length (sv_workers sv1). sv_workers sv1 ! i \<noteq> W_returned \<longrightarrow>
      i < length (sv_workers sv) \<and> sv_workers sv ! i \<noteq> W_returned"
    using work_step_workers [OF az_work(2)] by (auto simp: nth_list_update split: if_splits)
  then show ?thesis using az_work work_step_inv [OF assms(1)] assms(2) by (auto simp: threads_ok_def)
qed

lemma asio_run_inv:
  assumes "asio_run A E (server_new ctx a, []) (sv, ts)"
  shows "server_inv sv \<and> threads_ok (sv, ts)"
  using assms unfolding asio_run_def
proof (induction "(sv, ts)" arbitrary: sv ts rule: rtranclp_induct)
  case base
  then show ?case by (simp add: server_inv_def server_new_def busy_def workers_ok_def threads_ok_def)
next
  case (step q)
  then show ?case using asio_step_inv by (cases q) blast
qed

text \<open>
  The completion handler run as one piece is one of the runs: the one in which no other thread acts between
  the completion of the accept and the return of the handler.
\<close>

lemma handle_accept_workers:
  assumes "handle_accept E fd sv = Some sv1"
  shows "sv_workers sv1 = sv_workers sv"
proof -
  let ?n = "length (sv_objects sv)"
  obtain ok sv2 where s: "accept_setup E fd sv = (ok, sv2)" by (cases "accept_setup E fd sv")
  have w2: "sv_workers sv2 = sv_workers sv" using accept_setup_change [OF s] by (simp add: setup_change_def)
  have w3: "sv_workers sv3 = sv_workers sv" "sv_workers (accept_activate E ?n sv3) = sv_workers sv"
    if "server_handshake E ?n sv2 = Some (ok2, sv3)" for ok2 sv3
    using server_handshake_change [OF that] accept_activate_change [of ?n sv3 E] w2
    by (simp_all add: socket_change_def conn_change_def same_frame_def)
  show ?thesis using assms s w2 w3
    by (auto simp: handle_accept_def Let_def unregister_pending_def add_connection_def split: if_splits option.splits)
qed

lemma accept_handler_runs:
  assumes "t < length ts" and "ts ! t = None" and "\<not> failed ec"
    and "accept_handler A E ec sock (sv\<lparr>sv_workers := sv_workers sv @ [W_new sock]\<rparr>) = Some sv1"
  shows "asio_run A E (sv, ts) (set_worker (length (sv_workers sv)) W_returned sv1, ts)"
proof -
  let ?n = "length (sv_workers sv)" and ?sv0 = "sv\<lparr>sv_workers := sv_workers sv @ [W_new sock]\<rparr>"
  obtain sv2 where sv2: "handle_accept E sock ?sv0 = Some sv2" "sv1 = accept_again A sv2"
    using assms(3,4) by (auto simp: accept_handler_def split: option.splits)
  let ?sv3 = "set_worker ?n W_returned sv2"
  have "(work_step E)\<^sup>*\<^sup>* ?sv0 ?sv3" using handle_accept_works [OF _ _ sv2(1), of ?n] by simp
  then have w: "(asio_step A E)\<^sup>*\<^sup>* (?sv0, ts1) (?sv3, ts1)" for ts1
    by (induction rule: rtranclp_induct) (auto intro: rtranclp.rtrancl_into_rtrancl az_work)
  have "asio_step A E (sv, ts) (?sv0, ts[t := Some ?n])" by (rule az_accepted [OF assms(1,2)])
  moreover have "asio_step A E (?sv3, ts[t := Some ?n]) (accept_again A ?sv3, (ts[t := Some ?n])[t := None])"
    using assms(1) handle_accept_workers [OF sv2(1)] by (intro az_handled [where i = ?n]) (simp_all add: set_worker_def)
  moreover have "accept_again A ?sv3 = set_worker ?n W_returned sv1" "(ts[t := Some ?n])[t := None] = ts"
    using assms(2) by (cases sv2; simp add: sv2(2) accept_again_def start_accept_def set_worker_def)
      (metis list_update_id list_update_overwrite assms(2))
  ultimately show ?thesis using w [of "ts[t := Some ?n]"] unfolding asio_run_def
    by (metis (no_types, lifting) converse_rtranclp_into_rtranclp rtranclp.rtrancl_into_rtrancl)
qed

section \<open>Properties\<close>

text \<open>
  C17: The server built with ASIO keeps the same invariant in every reachable state.  Because \<open>start\<close> makes one
  thread run the event loop, and cannot make a second one while the first is not joined, at most one
  \<open>handle_accept\<close> is under way, and as long as it has not returned no step of the server takes up another peer: a
  peer that connects and sends nothing keeps every later one waiting.
\<close>

theorem asio_server_invariant:
  assumes "asio_run A E (server_new ctx a, []) (sv, ts)"
  shows "server_inv sv \<and>
    (\<forall>i i'. i < length (sv_workers sv) \<and> i' < length (sv_workers sv) \<and>
       sv_workers sv ! i \<noteq> W_returned \<and> sv_workers sv ! i' \<noteq> W_returned \<longrightarrow> i = i') \<and>
    (\<forall>i q. i < length (sv_workers sv) \<and> sv_workers sv ! i \<noteq> W_returned \<and> asio_step A E (sv, ts) q \<longrightarrow>
       length (sv_workers (fst q)) = length (sv_workers sv))"
proof (intro conjI allI impI)
  note inv = asio_run_inv [OF assms]
  then show "server_inv sv" by simp
  have ts: "ts = [Some i]" if "i < length (sv_workers sv)" "sv_workers sv ! i \<noteq> W_returned" for i
    using that inv by (cases ts) (auto simp: threads_ok_def)
  show "i = i'" if "i < length (sv_workers sv) \<and> i' < length (sv_workers sv) \<and>
       sv_workers sv ! i \<noteq> W_returned \<and> sv_workers sv ! i' \<noteq> W_returned" for i i'
    using ts [of i] ts [of i'] that by simp
  show "length (sv_workers (fst q)) = length (sv_workers sv)"
    if "i < length (sv_workers sv) \<and> sv_workers sv ! i \<noteq> W_returned \<and> asio_step A E (sv, ts) q" for i q
  proof -
    have t: "ts = [Some i]" using ts that by blast
    have "asio_step A E (sv, ts) q" using that by blast
    then show ?thesis
    proof cases
      case (az_do_listen h p ec sv1)
      then show ?thesis using asio_listen_inv by fastforce
    next
      case (az_do_start ec sv1)
      then show ?thesis using start_inv by fastforce
    next
      case (az_work sv1)
      then show ?thesis using work_step_workers by fastforce
    qed (use t in \<open>auto simp: accept_again_inv asio_stop_begin_inv server_join_def\<close>)
  qed
qed

text \<open>An acceptor on which every call succeeds.\<close>

definition mem_acc_asio :: "unit acc_asio" where
  "mem_acc_asio =
     \<lparr>aa_make_address = (\<lambda>h. (no_error, 0)), aa_open = (\<lambda>a p. (no_error, a)), aa_reuse_address = (\<lambda>a. (no_error, a)),
      aa_bind = (\<lambda>a addr port. (no_error, a)), aa_listen = (\<lambda>a. (no_error, a)), aa_is_open = (\<lambda>a. True),
      aa_close = (\<lambda>a. (no_error, a)), aa_async_accept = (\<lambda>a. a), aa_stop = (\<lambda>a. a)\<rparr>"

theorem asio_server_invariant_witness:
  "let sv = (server_new None () :: (mem_world ls, unit) server)
       \<lparr>sv_is_running := True, sv_thread := True, sv_workers := [W_new 3]\<rparr>
   in server_inv sv \<and> \<not> asio_step mem_acc_asio (mem_sv_env [] (\<lambda>i. [])) (sv, [Some 0])
        (sv\<lparr>sv_workers := [W_new 3, W_new 4]\<rparr>, [Some 0])"
proof -
  let ?E = "mem_sv_env [] (\<lambda>i. [])"
  let ?sv = "server_new None () :: (mem_world ls, unit) server"
  let ?l = "?sv\<lparr>sv_is_running := True\<rparr>"
  let ?t = "?l\<lparr>sv_thread := True\<rparr>"
  have "asio_listen mem_acc_asio ''0.0.0.0'' 80 ?sv = (no_error, ?l)"
    by (simp add: asio_listen_def mem_acc_asio_def and_then_def on_acceptor_eq start_accept_def server_new_def)
  then have "asio_step mem_acc_asio ?E (?sv, []) (?l, [])" by (rule az_do_listen)
  moreover have "server_start ?l = Some (no_error, ?t)" by (simp add: server_start_def server_new_def)
  from az_do_start [OF this, of mem_acc_asio ?E "[]"] have "asio_step mem_acc_asio ?E (?l, []) (?t, [None])" by simp
  moreover have "asio_step mem_acc_asio ?E (?t, [None]) (?t\<lparr>sv_workers := [W_new 3]\<rparr>, [Some 0])"
    using az_accepted [of 0 "[None]" mem_acc_asio ?E ?t 3] by (simp add: server_new_def)
  ultimately have "asio_run mem_acc_asio ?E (?sv, []) (?t\<lparr>sv_workers := [W_new 3]\<rparr>, [Some 0])"
    unfolding asio_run_def by (blast intro: converse_rtranclp_into_rtranclp)
  from asio_server_invariant [OF this] show ?thesis by (fastforce simp: Let_def)
qed

end
