(* ===== verification/Asio_Context.thy ===== *)
theory Asio_Context
  imports Client
begin

text \<open>
  TLS contexts of the ASIO build: the class \<open>crypto::ssl_context\<close> (\<open>src/crypto/ssl_context.cpp\<close>) around an
  \<open>asio::ssl::context\<close>, and the default context of the client.  ASIO is the parameter \<open>asio_ssl\<close>, with its own
  state \<open>'x\<close>; a context is named by a number.
\<close>

section \<open>Methods\<close>

datatype tls_method = tls_client | tls_server | tlsv1 | tlsv11 | tlsv12 | tlsv13 | sslv2 | sslv3

datatype asio_method =
  asio_tls_client | asio_tls_server | asio_tlsv12_client | asio_tlsv12_server | asio_tlsv1 | asio_tlsv11 | asio_tlsv12 | asio_tlsv13 | asio_sslv2 | asio_sslv3

fun to_asio_method :: "tls_method \<Rightarrow> asio_method" where
  "to_asio_method tlsv12 = asio_tlsv12"
| "to_asio_method tlsv11 = asio_tlsv11"
| "to_asio_method tlsv13 = asio_tlsv13"
| "to_asio_method sslv2 = asio_sslv2"
| "to_asio_method sslv3 = asio_sslv3"
| "to_asio_method tls_client = asio_tls_client"
| "to_asio_method tls_server = asio_tls_server"
| "to_asio_method _ = asio_tlsv12"

text \<open>TLS 1.0 and TLS 1.2 are the one pair that is mapped to the same method.\<close>

lemma to_asio_method_collision:
  "to_asio_method a = to_asio_method b \<longleftrightarrow> a = b \<or> {a, b} = {tlsv1, tlsv12}"
  by (cases a; cases b; simp add: doubleton_eq_iff)

section \<open>The class\<close>

record 'x asio_ssl =
  xs_make :: "'x \<Rightarrow> asio_method \<Rightarrow> nat \<times> 'x"
  xs_set_options :: "'x \<Rightarrow> nat \<Rightarrow> u32 \<Rightarrow> 'x"
  xs_set_verify_mode :: "'x \<Rightarrow> nat \<Rightarrow> int \<Rightarrow> 'x"
  xs_set_verify_depth :: "'x \<Rightarrow> nat \<Rightarrow> int \<Rightarrow> 'x"
  xs_load_verify_file :: "'x \<Rightarrow> nat \<Rightarrow> string \<Rightarrow> error_code \<times> 'x"
  xs_use_certificate_chain_file :: "'x \<Rightarrow> nat \<Rightarrow> string \<Rightarrow> error_code \<times> 'x"
  xs_use_private_key_file :: "'x \<Rightarrow> nat \<Rightarrow> string \<Rightarrow> error_code \<times> 'x"

text \<open>
  An object is its member \<open>context_\<close>, which is null after a move.  A member function that dereferences it
  then has no defined result: \<open>None\<close>.
\<close>

type_synonym crypto_context = "nat option"

definition crypto_context_new :: "'x asio_ssl \<Rightarrow> tls_method \<Rightarrow> 'x \<Rightarrow> crypto_context \<times> 'x" where
  "crypto_context_new X m x = (let (c, x) = xs_make X x (to_asio_method m) in (Some c, x))"

text \<open>The move constructor and assignment: the new value of the target and of the source.\<close>

definition crypto_context_move :: "crypto_context \<Rightarrow> crypto_context \<times> crypto_context" where
  "crypto_context_move other = (other, None)"

definition native_handle :: "crypto_context \<Rightarrow> nat option" where
  "native_handle ctx = ctx"

definition shared_context :: "crypto_context \<Rightarrow> ssl_ctx" where
  "shared_context ctx = ctx"

definition crypto_set_options :: "'x asio_ssl \<Rightarrow> crypto_context \<Rightarrow> u32 \<Rightarrow> 'x \<Rightarrow> 'x option" where
  "crypto_set_options X ctx options x = map_option (\<lambda>c. xs_set_options X x c options) ctx"

definition crypto_set_verify_mode :: "'x asio_ssl \<Rightarrow> crypto_context \<Rightarrow> int \<Rightarrow> 'x \<Rightarrow> 'x option" where
  "crypto_set_verify_mode X ctx mode x = map_option (\<lambda>c. xs_set_verify_mode X x c mode) ctx"

definition crypto_set_verify_depth :: "'x asio_ssl \<Rightarrow> crypto_context \<Rightarrow> int \<Rightarrow> 'x \<Rightarrow> 'x option" where
  "crypto_set_verify_depth X ctx depth x = map_option (\<lambda>c. xs_set_verify_depth X x c depth) ctx"

text \<open>\<open>return !ec;\<close>\<close>

definition loaded :: "error_code \<times> 'x \<Rightarrow> bool \<times> 'x" where
  "loaded r = (\<not> failed (fst r), snd r)"

definition crypto_load_verify_file :: "'x asio_ssl \<Rightarrow> crypto_context \<Rightarrow> string \<Rightarrow> 'x \<Rightarrow> (bool \<times> 'x) option" where
  "crypto_load_verify_file X ctx path x = map_option (\<lambda>c. loaded (xs_load_verify_file X x c path)) ctx"

definition load_cert_chain :: "'x asio_ssl \<Rightarrow> crypto_context \<Rightarrow> string \<Rightarrow> 'x \<Rightarrow> (bool \<times> 'x) option" where
  "load_cert_chain X ctx path x = map_option (\<lambda>c. loaded (xs_use_certificate_chain_file X x c path)) ctx"

definition load_private_key :: "'x asio_ssl \<Rightarrow> crypto_context \<Rightarrow> string \<Rightarrow> 'x \<Rightarrow> (bool \<times> 'x) option" where
  "load_private_key X ctx path x = map_option (\<lambda>c. loaded (xs_use_private_key_file X x c path)) ctx"

section \<open>The default context of the client\<close>

definition asio_verify_none :: int where "asio_verify_none = 0"

definition asio_ensure_ssl_context :: "'x asio_ssl \<Rightarrow> ('s, 'x) client \<Rightarrow> error_code \<times> ('s, 'x) client" where
  "asio_ensure_ssl_context X c =
     (if cl_ssl_context c \<noteq> None then (no_error, c)
      else let (ctx, x) = xs_make X (cl_openssl c) asio_tlsv12_client;
               x = xs_set_verify_mode X x ctx asio_verify_none
           in (no_error, c\<lparr>cl_ssl_context := Some ctx, cl_openssl := x\<rparr>))"

section \<open>Facts\<close>

text \<open>A moved-from object supports no member function; the target of the move supports all.\<close>

lemma moved_from_undefined:
  assumes "crypto_context_move (fst (crypto_context_new X m x)) = (target, source)"
  shows "crypto_set_options X source opts y = None \<and> load_cert_chain X source path y = None \<and>
    load_private_key X source path y = None \<and> crypto_set_options X target opts y \<noteq> None \<and>
    load_cert_chain X target path y \<noteq> None \<and> load_private_key X target path y \<noteq> None"
  using assms by (auto simp: crypto_context_move_def crypto_context_new_def crypto_set_options_def load_cert_chain_def
      load_private_key_def case_prod_unfold Let_def)

text \<open>With ASIO a context is always available, and a client's own is not replaced.\<close>

lemma asio_ensure_context:
  assumes "asio_ensure_ssl_context X c = (ec, c1)"
  shows "ec = no_error \<and> cl_ssl_context c1 \<noteq> None \<and> cl_connection c1 = cl_connection c \<and>
    (cl_ssl_context c \<noteq> None \<longrightarrow> c1 = c)"
  using assms by (auto simp: asio_ensure_ssl_context_def case_prod_unfold Let_def split: if_splits)

end
