(* ===== verification/Tls.thy ===== *)
theory Tls
  imports Client
begin

text \<open>
  The POSIX socket under TLS: \<open>write\<close>, \<open>read\<close> and \<open>read_until\<close> of \<open>linux_socket\<close> when \<open>ssl_\<close> is set, and
  the client on a \<open>wss\<close> URL.  The contract of \<open>SSL_write\<close> and \<open>SSL_read\<close> on an established session is the
  locale \<open>tls_session\<close>; sizes reach them as \<open>int\<close>, which bounds what one call of \<open>write\<close> can send.
\<close>

section \<open>The contract of OpenSSL's transfer functions\<close>

text \<open>
  On an established blocking session \<open>SSL_write\<close> takes a non-empty prefix of the data, at most \<open>num\<close>
  octets of it, and \<open>SSL_read\<close> returns a non-empty prefix of what the peer has sent; \<open>SSL_ERROR_ZERO_RETURN\<close>
  (6) is reported when the peer has closed its side.  A negative or zero \<open>num\<close> is refused before the session
  is touched.
\<close>

locale tls_session =
  fixes os :: "'w os"
    and established :: "'w \<Rightarrow> nat \<Rightarrow> bool"
    and inbox :: "'w \<Rightarrow> nat \<Rightarrow> bytes"
    and outbox :: "'w \<Rightarrow> nat \<Rightarrow> bytes"
  assumes ssl_write_some: "established w h \<Longrightarrow> 0 < num \<Longrightarrow> num \<le> int (length data) \<Longrightarrow> num < 2 ^ 31 \<Longrightarrow>
      \<exists>n w'. ssl_write os w h data num = (int n, w') \<and> 0 < n \<and> int n \<le> num \<and>
        established w' h \<and> outbox w' h = outbox w h @ take n data \<and> inbox w' h = inbox w h"
    and ssl_write_refused: "established w h \<Longrightarrow> num \<le> 0 \<Longrightarrow>
      \<exists>r w'. ssl_write os w h data num = (r, w') \<and> r \<le> 0 \<and>
        established w' h \<and> outbox w' h = outbox w h \<and> inbox w' h = inbox w h"
    and ssl_read_some: "established w h \<Longrightarrow> inbox w h \<noteq> [] \<Longrightarrow> 0 < num \<Longrightarrow> num < 2 ^ 31 \<Longrightarrow>
      \<exists>bs w'. ssl_read os w h num = (Inr bs, w') \<and> bs \<noteq> [] \<and> int (length bs) \<le> num \<and>
        established w' h \<and> inbox w h = bs @ inbox w' h \<and> outbox w' h = outbox w h"
    and ssl_read_eof: "established w h \<Longrightarrow> inbox w h = [] \<Longrightarrow> 0 < num \<Longrightarrow> num < 2 ^ 31 \<Longrightarrow>
      \<exists>r w'. ssl_read os w h num = (Inl r, w') \<and> ssl_get_error os w' h r = 6"
    and ssl_read_refused: "established w h \<Longrightarrow> num \<le> 0 \<Longrightarrow>
      \<exists>r w'. ssl_read os w h num = (r, w') \<and> (r = Inr [] \<or> (\<exists>e. r = Inl e))"

text \<open>An open socket with an established session, and its streams of application data.\<close>

definition tls_up :: "('w \<Rightarrow> nat \<Rightarrow> bool) \<Rightarrow> linux_socket \<Rightarrow> 'w \<Rightarrow> bool" where
  "tls_up established k w \<longleftrightarrow> (case ls_ssl k of None \<Rightarrow> False | Some h \<Rightarrow> established w h)"

definition tls_box :: "('w \<Rightarrow> nat \<Rightarrow> bytes) \<Rightarrow> linux_socket \<Rightarrow> 'w \<Rightarrow> bytes" where
  "tls_box box k w = (case ls_ssl k of None \<Rightarrow> [] | Some h \<Rightarrow> box w h)"

definition tls_live :: "('w \<Rightarrow> nat \<Rightarrow> bool) \<Rightarrow> 'w ls \<Rightarrow> bool" where
  "tls_live established s \<longleftrightarrow> ls_is_open s \<and> ls_is_ssl s \<and> tls_up established (fst s) (snd s)"

definition tls_stream :: "('w \<Rightarrow> nat \<Rightarrow> bytes) \<Rightarrow> 'w ls \<Rightarrow> bytes" where
  "tls_stream box s = tls_box box (fst s) (snd s)"

lemmas tls_defs = tls_up_def tls_box_def tls_live_def tls_stream_def

text \<open>The sizes that survive \<open>static_cast<int>\<close>.\<close>

definition int_size :: "nat \<Rightarrow> bool" where
  "int_size n \<longleftrightarrow> n < 2 ^ 31"

lemma int_sizeD: "int_size n \<Longrightarrow> to_int n = int n \<and> int n < 2 ^ 31"
  by (simp add: int_size_def to_int_id)

lemma to_int_less: "to_int n < 2 ^ 31"
  using sint_lt [of "of_nat n :: 32 word"] by (simp add: to_int_def)

lemma to_int_le: "to_int n \<le> int n"
  using to_int_less [of n] to_int_id [of n] by (cases "n < 2 ^ 31") auto

lemma to_int_negative:
  assumes "2 ^ 31 \<le> n" and "n < 2 ^ 32"
  shows "to_int n < 0"
proof -
  have "to_int n = signed_take_bit 31 (int n)" by (simp add: to_int_def signed_of_nat)
  also have "\<dots> = (int n + 2 ^ 31) mod 2 ^ 32 - 2 ^ 31" by (subst signed_take_bit_eq_take_bit_shift) (simp add: take_bit_eq_mod)
  also have "\<dots> = int n - 2 ^ 32" using assms by (simp add: mod_pos_geq mod_pos_pos_trivial)
  finally show ?thesis using assms(2) by simp
qed

lemma to_int_mod: "to_int (n mod 2 ^ 32) = to_int n"
proof -
  have "(of_nat (n mod 2 ^ 32) :: 32 word) = of_nat n" by (simp add: word_of_nat_eq_iff take_bit_eq_mod)
  then show ?thesis by (simp add: to_int_def)
qed

text \<open>How many octets of a write of \<open>n\<close> octets get past the cast to \<open>int\<close>.\<close>

definition int_part :: "nat \<Rightarrow> nat" where
  "int_part n = (if n mod 2 ^ 32 < 2 ^ 31 then n mod 2 ^ 32 else 0)"

lemma int_part_to_int: "int_part n = nat (to_int n)"
  using to_int_negative [of "n mod 2 ^ 32"] to_int_id [of "n mod 2 ^ 32"] unfolding int_part_def to_int_mod
  by (cases "n mod 2 ^ 32 < 2 ^ 31") auto

lemma int_part_rest:
  assumes "2 ^ 31 \<le> m" and "n \<le> int_part m"
  shows "2 ^ 31 \<le> m - n \<and> int_part (m - n) = int_part m - n"
proof (cases "m mod 2 ^ 32 < 2 ^ 31")
  case False
  then show ?thesis using assms by (simp add: int_part_def)
next
  case True
  let ?q = "m div 2 ^ 32"
  have n: "n \<le> m mod 2 ^ 32" using assms(2) True by (simp add: int_part_def)
  have m: "m = ?q * 2 ^ 32 + m mod 2 ^ 32" by simp
  have q: "0 < ?q"
  proof (rule ccontr)
    assume "\<not> 0 < ?q"
    then have "m mod 2 ^ 32 = m" using m by simp
    then show False using True assms(1) by simp
  qed
  have d: "m - n = ?q * 2 ^ 32 + (m mod 2 ^ 32 - n)" using n m by linarith
  have l: "m mod 2 ^ 32 - n < 2 ^ 32" by (rule le_less_trans [OF diff_le_self]) simp
  have "(m - n) mod 2 ^ 32 = m mod 2 ^ 32 - n" unfolding d using l by simp
  moreover have "2 ^ 31 \<le> ?q * 2 ^ 32" using q by (cases ?q) simp_all
  ultimately show ?thesis using True d by (auto simp: int_part_def)
qed

lemma ssl_error_failed: "failed (ssl_error os w h r)"
  by (simp add: ssl_error_def Let_def)

context tls_session
begin

lemma tls_once_write:
  assumes "ls_ssl k = Some h" and "established w h" and "data \<noteq> []"
  obtains n w1 where "write_once os k w data = (Inr n, w1)" and "0 < n" and "n \<le> length data"
      and "int n \<le> to_int (length data)"
      and "established w1 h" and "outbox w1 h = outbox w h @ take n data" and "inbox w1 h = inbox w h"
  | ec w1 where "to_int (length data) \<le> 0" and "write_once os k w data = (Inl ec, w1)" and "failed ec"
      and "established w1 h" and "outbox w1 h = outbox w h" and "inbox w1 h = inbox w h"
proof (cases "0 < to_int (length data)")
  case True
  obtain n w1 where n: "ssl_write os w h data (to_int (length data)) = (int n, w1)" "0 < n" "int n \<le> to_int (length data)"
      "established w1 h" "outbox w1 h = outbox w h @ take n data" "inbox w1 h = inbox w h"
    using ssl_write_some [OF assms(2) True to_int_le to_int_less] by blast
  have "n \<le> length data" using n(3) to_int_le [of "length data"] by simp
  then show thesis using n assms(1) by (intro that(1) [of n w1]) (auto simp: write_once_def)
next
  case False
  then obtain r w1 where "ssl_write os w h data (to_int (length data)) = (r, w1)" "r \<le> 0"
      "established w1 h" "outbox w1 h = outbox w h" "inbox w1 h = inbox w h"
    using ssl_write_refused [OF assms(2), of "to_int (length data)" data] by auto
  then show thesis using False assms(1) by (intro that(2) [of "ssl_error os w1 h r" w1]) (auto simp: write_once_def ssl_error_failed)
qed

lemma tls_once_read:
  assumes "ls_ssl k = Some h" and "established w h"
  obtains bs w1 where "read_once os k w sz = (Inr bs, w1)" and "bs \<noteq> []" and "length bs \<le> sz"
      and "established w1 h" and "inbox w h = bs @ inbox w1 h" and "outbox w1 h = outbox w h"
  | w1 where "inbox w h = []" and "0 < to_int sz" and "read_once os k w sz = (Inl connection_reset, w1)"
  | ec w1 where "to_int sz \<le> 0" and "read_once os k w sz = (Inl ec, w1)" and "failed ec"
proof -
  consider "to_int sz \<le> 0" | "0 < to_int sz" "inbox w h = []" | "0 < to_int sz" "inbox w h \<noteq> []" by linarith
  then show thesis
  proof cases
    case 1
    then obtain r w1 where "ssl_read os w h (to_int sz) = (r, w1)" "r = Inr [] \<or> (\<exists>e. r = Inl e)"
      using ssl_read_refused [OF assms(2)] by blast
    then obtain e where "read_once os k w sz = (Inl (ssl_error os w1 h e), w1)"
      using assms(1) by (auto simp: read_once_def)
    then show thesis by (rule that(3) [OF 1 _ ssl_error_failed])
  next
    case 2
    then obtain r w1 where "ssl_read os w h (to_int sz) = (Inl r, w1)" "ssl_get_error os w1 h r = 6"
      using ssl_read_eof [OF assms(2) _ _ to_int_less] by blast
    then show thesis using 2 assms(1) by (intro that(2) [of w1]) (auto simp: read_once_def ssl_error_def)
  next
    case 3
    then obtain bs w1 where bs: "ssl_read os w h (to_int sz) = (Inr bs, w1)" "bs \<noteq> []" "int (length bs) \<le> to_int sz"
        "established w1 h" "inbox w h = bs @ inbox w1 h" "outbox w1 h = outbox w h"
      using ssl_read_some [OF assms(2) _ _ to_int_less] by blast
    have "length bs \<le> sz" using bs(3) to_int_le [of sz] by simp
    then show thesis using bs assms(1) by (intro that(1) [of bs w1]) (auto simp: read_once_def)
  qed
qed

end

lemma tls_upE:
  assumes "tls_up established k w"
  obtains h where "ls_ssl k = Some h" and "established w h"
  using assms by (auto simp: tls_up_def split: option.splits)

sublocale tls_session \<subseteq> io: socket_io os "tls_up established" "tls_box inbox" "tls_box outbox" int_size
proof (unfold_locales, goal_cases)
  case (1 k w data)
  then obtain h where h: "ls_ssl k = Some h" "established w h" by (auto elim: tls_upE)
  have "0 < to_int (length data)" using 1(2,3) int_sizeD by auto
  then show ?case by (cases rule: tls_once_write [OF h 1(2)]) (use h(1) in \<open>auto simp: tls_defs\<close>)
next
  case (2 k w data)
  then obtain h where h: "ls_ssl k = Some h" "established w h" by (auto elim: tls_upE)
  show ?case by (cases rule: tls_once_write [OF h 2(2)]) (use h(1) in \<open>auto simp: tls_defs\<close>)
next
  case (3 k w sz)
  then obtain h where h: "ls_ssl k = Some h" "established w h" by (auto elim: tls_upE)
  have "0 < to_int sz" "inbox w h \<noteq> []" using 3(2-4) int_sizeD h(1) by (auto simp: tls_defs)
  then show ?case by (cases rule: tls_once_read [OF h, of sz]) (use h(1) in \<open>auto simp: tls_defs\<close>)
next
  case (4 k w sz)
  then obtain h where h: "ls_ssl k = Some h" "established w h" by (auto elim: tls_upE)
  have "0 < to_int sz" "inbox w h = []" using 4(2-4) int_sizeD h(1) by (auto simp: tls_defs)
  then show ?case by (cases rule: tls_once_read [OF h, of sz]) (use h(1) in \<open>auto simp: tls_defs\<close>)
next
  case (5 k w sz r w1)
  then obtain h where h: "ls_ssl k = Some h" "established w h" by (auto elim: tls_upE)
  show ?case by (cases rule: tls_once_read [OF h, of sz]) (use h(1) 5(3) in \<open>auto simp: tls_defs\<close>)
qed (auto simp: int_size_def)

context tls_session
begin

lemma tls_write:
  assumes "tls_live established s" and "int_size (length data)"
  shows "\<exists>s'. ls_write os s data = (length data, no_error, s') \<and> tls_live established s' \<and>
    tls_stream outbox s' = tls_stream outbox s @ data \<and> tls_stream inbox s' = tls_stream inbox s"
  using io.sock_write [of s data] assms by (auto simp: tls_stream_def tls_live_def ls_is_open_def ls_is_ssl_def)

lemma tls_write_any:
  assumes "tls_live established s"
  shows "\<exists>n ec s'. ls_write os s data = (n, ec, s') \<and> tls_live established s' \<and>
    prefix (tls_stream outbox s) (tls_stream outbox s') \<and> tls_stream inbox s' = tls_stream inbox s"
  using io.sock_write_any [of s data] assms by (auto simp: tls_stream_def tls_live_def ls_is_open_def ls_is_ssl_def)

lemma tls_read_any:
  assumes "tls_live established s" and "ls_read os s n = (got, ec, s')"
  shows "length got \<le> n \<and> (failed ec \<or> ec = no_error \<and> length got = n \<and> tls_live established s' \<and>
    tls_stream inbox s = got @ tls_stream inbox s' \<and> tls_stream outbox s' = tls_stream outbox s)"
  using io.sock_read_any [of s n got ec s'] assms
  by (auto simp: tls_stream_def tls_live_def ls_is_open_def ls_is_ssl_def)

lemma tls_read:
  assumes "tls_live established s" and "n \<le> length (tls_stream inbox s)" and "int_size n"
  shows "\<exists>s'. ls_read os s n = (take n (tls_stream inbox s), no_error, s') \<and> tls_live established s' \<and>
    tls_stream inbox s' = drop n (tls_stream inbox s) \<and> tls_stream outbox s' = tls_stream outbox s"
  using io.sock_read [of s n] assms by (auto simp: tls_stream_def tls_live_def ls_is_open_def ls_is_ssl_def)

lemma tls_read_short:
  assumes "tls_live established s" and "length (tls_stream inbox s) < n" and "int_size n"
  shows "\<exists>s'. ls_read os s n = (tls_stream inbox s, connection_reset, s')"
  using io.sock_read_short [of s n] assms by (auto simp: tls_stream_def tls_live_def)

lemma tls_read_until:
  assumes "tls_live established s" and "delim \<noteq> []" and "0 < n" and "n \<le> length (tls_stream inbox s)"
    and "suffix delim (buf @ take n (tls_stream inbox s))"
    and "\<forall>j. 0 < j \<longrightarrow> j < n \<longrightarrow> \<not> suffix delim (buf @ take j (tls_stream inbox s))"
  shows "\<exists>s'. ls_read_until os s buf delim = Some (buf @ take n (tls_stream inbox s), no_error, s') \<and>
    tls_live established s' \<and> tls_stream inbox s' = drop n (tls_stream inbox s) \<and>
    tls_stream outbox s' = tls_stream outbox s"
  using io.sock_read_until [of s delim n buf] assms by (auto simp: tls_stream_def tls_live_def ls_is_open_def ls_is_ssl_def)

lemma tls_write_loop_over:
  assumes "ls_ssl k = Some h" and "established w h" and "2 ^ 31 \<le> length data - tot"
  shows "\<exists>ec w'. write_loop os k data tot w = (tot + int_part (length data - tot), ec, w') \<and> failed ec \<and>
    outbox w' h = outbox w h @ take (int_part (length data - tot)) (drop tot data)"
  using assms(2,3)
proof (induction "int_part (length data - tot)" arbitrary: tot w rule: less_induct)
  case less
  let ?d = "drop tot data"
  have "0 < length data - tot" using less.prems(2) by (rule less_le_trans [rotated]) simp
  then have ne: "?d \<noteq> []" and lt: "tot < length data" by simp_all
  show ?case
  proof (cases rule: tls_once_write [OF assms(1) less.prems(1) ne])
    case (1 n w1)
    have n: "n \<le> int_part (length data - tot)" using 1(4) by (simp add: int_part_to_int)
    from int_part_rest [OF less.prems(2) n]
    have r: "2 ^ 31 \<le> length data - (tot + n)" "int_part (length data - (tot + n)) = int_part (length data - tot) - n"
      by simp_all
    have dec: "int_part (length data - (tot + n)) < int_part (length data - tot)" using r(2) 1(2) n by simp
    obtain ec w' where w': "write_loop os k data (tot + n) w1 = (tot + n + int_part (length data - (tot + n)), ec, w')"
        "failed ec" "outbox w' h = outbox w1 h @ take (int_part (length data - (tot + n))) (drop (tot + n) data)"
      using less.hyps [OF dec 1(5) r(1)] by blast
    have "write_loop os k data tot w = (tot + int_part (length data - tot), ec, w')"
      using w'(1) 1(1) lt n r(2) by (simp add: write_loop.simps [of os k data tot w])
    moreover have "outbox w' h = outbox w h @ take (int_part (length data - tot)) ?d"
      using w'(3) 1(6) r(2) n take_add [of n "int_part (length data - tot) - n" ?d] by (simp add: add.commute)
    ultimately show ?thesis using w'(2) by blast
  next
    case (2 ec w1)
    have "int_part (length data - tot) = 0" using 2(1) by (simp add: int_part_to_int)
    then show ?thesis using 2 lt by (simp add: write_loop.simps [of os k data tot w])
  qed
qed

lemma tls_write_over:
  assumes "tls_live established s" and "2 ^ 31 \<le> length data"
  shows "\<exists>ec s'. ls_write os s data = (int_part (length data), ec, s') \<and> failed ec \<and>
    tls_stream outbox s' = tls_stream outbox s @ take (int_part (length data)) data"
proof -
  obtain k w h where s: "s = (k, w)" "ls_ssl k = Some h" "established w h" "ls_is_open s"
    using assms(1) by (cases s) (auto simp: tls_defs split: option.splits)
  from tls_write_loop_over [OF s(2,3), of data 0] assms(2) obtain ec w' where
    "write_loop os k data 0 w = (int_part (length data), ec, w')" "failed ec"
      "outbox w' h = outbox w h @ take (int_part (length data)) data" by auto
  then show ?thesis using s by (simp add: ls_write_def tls_defs)
qed

end

text \<open>
  An established session is a stream socket of the kind the layers above are written against, so all that is
  shown of connections, of the client and of the server over such a socket holds under TLS too, for frames
  below \<open>2 ^ 31\<close> octets.
\<close>

sublocale tls_session \<subseteq> tls: exact_stream "linux_transport os" "tls_live established"
  "tls_stream inbox" "tls_stream outbox" int_size
proof (unfold_locales, goal_cases)
  case (1 s n)
  then show ?case using tls_read [of s n] by (simp add: linux_transport_def)
next
  case (2 s n got ec s')
  then show ?case using tls_read_any [of s n got ec s'] by (simp add: linux_transport_def)
next
  case (3 s data)
  then show ?case using tls_write_any [of s data] by (simp add: linux_transport_def)
next
  case (6 s data)
  then show ?case using tls_write [of s data] by (simp add: linux_transport_def)
next
  case (7 s delim k buf)
  then show ?case using tls_read_until [of s delim k buf] by (simp add: linux_transport_def)
qed (auto simp: int_size_def)

context tls_session
begin

lemmas session_stream = tls.exact_stream_axioms

lemma session_env: "e_tr E = linux_transport os \<Longrightarrow> stream_env E (tls_live established) (tls_stream inbox) (tls_stream outbox) int_size"
  by (rule stream_env.intro) (simp add: tls.byte_stream_axioms)

lemma session_client:
  "e_tr (ce_env E) = linux_transport os \<Longrightarrow>
   client_stream E (tls_live established) (tls_stream inbox) (tls_stream outbox) int_size"
  by (rule client_stream.intro) (simp add: tls.exact_stream_axioms)

end

section \<open>The client on a \<open>wss\<close> URL\<close>

lemma ensure_context: "ensure_ssl_context E c = (no_error, c1) \<Longrightarrow> cl_ssl_context c1 \<noteq> None \<and> cl_connection c1 = cl_connection c"
  by (auto simp: ensure_ssl_context_def make_error_code_def no_error_def Let_def split: if_splits prod.splits
      dest!: make_ssl_context_result)

lemma open_secure:
  assumes "e_tr (ce_env E) = linux_transport os" and "url_secure info"
    and "ensure_ssl_context E c = (no_error, c1)" and "cl_ssl_context c1 = Some x"
    and "ls_connect os (c_socket (cl_connection c1)) (url_host info) (url_port info) = (no_error, k, w1)" and "0 \<le> ls_fd k"
    and "ssl_new os w1 x = (Some h, w2)" and "ssl_set_fd os w2 h (ls_fd k) = (1, w3)"
    and "ssl_set_host_name os w3 h (url_host info) = (1, w4)" and "ssl_connect os w4 h = (1, w5)"
  shows "open_transport E info c = (no_error, c1\<lparr>cl_connection := (cl_connection c1)\<lparr>c_socket :=
    (k\<lparr>ls_ssl_context := Some x, ls_ssl := Some h, ls_ssl_enabled := True\<rparr>, w5)\<rparr>\<rparr>)"
  using assms by (simp add: open_transport_def and_then_def on_socket_def linux_transport_def ls_enable_ssl_def
      ls_set_ssl_hostname_def ls_ssl_handshake_def ls_is_open_def Let_def)

text \<open>Two systems that agree on everything but the plain transfer of octets.\<close>

definition plain_io :: "('w \<Rightarrow> int \<Rightarrow> bytes \<Rightarrow> io_result \<times> 'w) \<Rightarrow> ('w \<Rightarrow> int \<Rightarrow> nat \<Rightarrow> recv_result \<times> 'w) \<Rightarrow> 'w os \<Rightarrow> 'w os" where
  "plain_io send recv os = os\<lparr>os_send := send, os_recv := recv\<rparr>"

lemma plain_io_simps [simp]:
  "os_getaddrinfo (plain_io f g os) = os_getaddrinfo os" "os_socket (plain_io f g os) = os_socket os"
  "os_connect (plain_io f g os) = os_connect os" "os_shutdown (plain_io f g os) = os_shutdown os"
  "os_close (plain_io f g os) = os_close os" "ssl_new (plain_io f g os) = ssl_new os"
  "ssl_set_fd (plain_io f g os) = ssl_set_fd os" "ssl_free (plain_io f g os) = ssl_free os"
  "ssl_shutdown (plain_io f g os) = ssl_shutdown os" "ssl_write (plain_io f g os) = ssl_write os"
  "ssl_read (plain_io f g os) = ssl_read os" "ssl_get_error (plain_io f g os) = ssl_get_error os"
  "ssl_connect (plain_io f g os) = ssl_connect os" "ssl_accept (plain_io f g os) = ssl_accept os"
  "ssl_set_host_name (plain_io f g os) = ssl_set_host_name os"
  by (simp_all add: plain_io_def)

lemma plain_io_error [simp]: "ssl_error (plain_io f g os) = ssl_error os"
  by (simp add: fun_eq_iff ssl_error_def)

lemma plain_io_connect: "ls_connect (plain_io f g os) = ls_connect os"
proof -
  have c: "close_fd (plain_io f g os) = close_fd os" by (intro ext) (simp add: close_fd_def)
  have a: "connect_addrs (plain_io f g os) as ec w = connect_addrs os as ec w" for as ec w
    by (induction as arbitrary: ec w) (simp_all add: c case_prod_unfold Let_def)
  have h: "connect_host (plain_io f g os) = connect_host os"
    by (simp add: fun_eq_iff connect_host_def a case_prod_unfold Let_def)
  have cl: "ls_close (plain_io f g os) = ls_close os"
    by (simp add: fun_eq_iff ls_close_def c split: option.splits)
  show ?thesis by (simp add: fun_eq_iff ls_connect_def h cl)
qed

lemma plain_io_ssl:
  "ls_enable_ssl (plain_io f g os) = ls_enable_ssl os"
  "ls_set_ssl_hostname (plain_io f g os) = ls_set_ssl_hostname os"
  "ls_ssl_handshake (plain_io f g os) = ls_ssl_handshake os"
  by (simp_all add: fun_eq_iff ls_enable_ssl_def ls_set_ssl_hostname_def ls_ssl_handshake_def case_prod_unfold
      Let_def split: option.splits)

lemma plain_io_once:
  assumes "ls_ssl k = Some h"
  shows "write_once (plain_io f g os) k = write_once os k" and "read_once (plain_io f g os) k = read_once os k"
  by (simp_all add: fun_eq_iff assms write_once_def read_once_def case_prod_unfold Let_def split: sum.splits)

lemma plain_io_write_loop:
  assumes "ls_ssl k = Some h"
  shows "write_loop (plain_io f g os) k data tot w = write_loop os k data tot w"
proof (induction "length data - tot" arbitrary: tot w rule: less_induct)
  case less
  show ?case unfolding write_loop.simps [of "plain_io f g os" k data tot w] write_loop.simps [of os k data tot w]
    using less write_once_pos [of os k w "drop tot data"]
    by (auto simp: plain_io_once [OF assms] split: prod.splits sum.splits)
qed

lemma plain_io_read_raw:
  assumes "ls_ssl k = Some h"
  shows "read_raw (plain_io f g os) k sz ex got w = read_raw os k sz ex got w"
proof (induction "sz - length got" arbitrary: got w rule: less_induct)
  case less
  have ih: "read_raw (plain_io f g os) k sz ex (got @ bs) v = read_raw os k sz ex (got @ bs) v"
    if "length got < sz" "bs \<noteq> []" for bs v
    using that by (intro less) (auto simp: neq_Nil_conv)
  show ?case unfolding read_raw.simps [of "plain_io f g os" k sz ex got w] read_raw.simps [of os k sz ex got w]
    using ih read_once_pos [of os k w "sz - length got"]
    by (auto simp: plain_io_once [OF assms] split: prod.splits sum.splits)
qed

lemma until_loop_agree:
  assumes "until_loop os k delim buf w = Some r" and "\<And>w. read_raw os' k 1 True [] w = read_raw os k 1 True [] w"
  shows "until_loop os' k delim buf w = Some r"
  using assms(2)
proof (induction rule: until_loop.raw_induct [OF _ assms(1)])
  case (1 loop os k delim buf w r)
  obtain got ec w1 where g: "read_raw os k 1 True [] w = (got, ec, w1)" by (cases "read_raw os k 1 True [] w") auto
  then have g2: "read_raw os' k 1 True [] w = (got, ec, w1)" using 1(3) by simp
  show ?case using 1(2) g g2 1(1) [OF _ 1(3)]
    by (auto simp: until_loop.simps [of os' k delim buf w] Let_def split: if_splits)
qed

lemma plain_io_until:
  assumes "ls_ssl k = Some h"
  shows "until_loop (plain_io f g os) k delim buf w = until_loop os k delim buf w"
proof (cases "until_loop os k delim buf w")
  case None
  then show ?thesis using until_loop_agree [of "plain_io f g os" k delim buf w _ os, OF _ plain_io_read_raw [OF assms, symmetric]]
    by (metis option.exhaust)
next
  case (Some r)
  then show ?thesis using until_loop_agree [OF Some plain_io_read_raw [OF assms]] by simp
qed

lemma plain_io_write:
  "ls_ssl (fst s) = Some h \<Longrightarrow> ls_write (plain_io f g os) s data = ls_write os s data"
  by (simp add: ls_write_def plain_io_write_loop case_prod_unfold)

lemma plain_io_read_until:
  "ls_ssl (fst s) = Some h \<Longrightarrow> ls_read_until (plain_io f g os) s buf delim = ls_read_until os s buf delim"
  by (simp add: ls_read_until_def plain_io_until case_prod_unfold)

lemma ls_write_same: "fst (snd (snd (ls_write os s data))) = fst s"
  by (simp add: ls_write_def case_prod_unfold Let_def)

definition on_linux :: "'w os \<Rightarrow> ('w ls, 'o) cl_env \<Rightarrow> ('w ls, 'o) cl_env" where
  "on_linux os E = E\<lparr>ce_env := (ce_env E)\<lparr>e_tr := linux_transport os\<rparr>\<rparr>"

lemma on_linux_simps [simp]:
  "e_tr (ce_env (on_linux os E)) = linux_transport os" "ce_crypto (on_linux os E) = ce_crypto E"
  "ce_openssl (on_linux os E) = ce_openssl E"
  by (simp_all add: on_linux_def)

lemma linux_transport_simps:
  "tr_connect (linux_transport os) = ls_connect os" "tr_write (linux_transport os) = ls_write os"
  "tr_read_until (linux_transport os) = ls_read_until os" "tr_enable_ssl (linux_transport os) = ls_enable_ssl os"
  "tr_set_ssl_hostname (linux_transport os) = ls_set_ssl_hostname os"
  "tr_ssl_handshake (linux_transport os) = ls_ssl_handshake os"
  by (simp_all add: linux_transport_def)

lemma open_secure_plain_io:
  "url_secure info \<Longrightarrow> open_transport (on_linux (plain_io f g os) E) info c = open_transport (on_linux os E) info c"
  by (simp add: open_transport_def ensure_ssl_context_def linux_transport_simps plain_io_connect plain_io_ssl)

lemma open_secure_ssl:
  assumes "open_transport (on_linux os E) info c = (ec, c1)" and "url_secure info" and "\<not> failed ec"
  shows "\<exists>h. ls_ssl (fst (c_socket (cl_connection c1))) = Some h"
  using assms
  by (auto simp: open_transport_def and_then_def on_socket_def linux_transport_def ls_ssl_handshake_def case_prod_unfold
      Let_def split: if_splits option.splits)

lemma open_on_open:
  "open_transport E info c = (ec, c1) \<Longrightarrow> c_on_open (cl_connection c1) = c_on_open (cl_connection c)"
  by (auto simp: open_transport_def and_then_def on_socket_def ensure_ssl_context_def Let_def split: if_splits prod.splits)

lemma handshake_on_open:
  "client_handshake E rd info c = Some (ec, c1) \<Longrightarrow> c_on_open (cl_connection c1) = c_on_open (cl_connection c)"
  by (auto simp: client_handshake_def on_socket_def set_permessage_deflate_def Let_def
      split: if_splits prod.splits option.splits)

lemma handshake_plain_io:
  assumes "ls_ssl (fst (c_socket (cl_connection c))) = Some h"
  shows "client_handshake (on_linux (plain_io f g os) E) rd info c = client_handshake (on_linux os E) rd info c"
proof -
  let ?r = "bytes_of_string (build_client_request (url_host info) (url_port info) (url_path info)
    (generate_key (ce_crypto E) rd) (if cl_request_deflate c then permessage_deflate_offer else []))"
  obtain n ec s where w: "ls_write os (c_socket (cl_connection c)) ?r = (n, ec, s)" by (metis prod_cases3)
  then have w': "ls_write (plain_io f g os) (c_socket (cl_connection c)) ?r = (n, ec, s)"
    using plain_io_write [OF assms] by metis
  have "ls_ssl (fst s) = Some h" using ls_write_same [of os "c_socket (cl_connection c)" ?r] w assms by simp
  then have r: "ls_read_until (plain_io f g os) s [] d = ls_read_until os s [] d" for d by (rule plain_io_read_until)
  show ?thesis unfolding client_handshake_def Let_def on_linux_simps on_socket_def linux_transport_simps w w'
    by (cases "failed ec") (simp_all add: r)
qed

section \<open>A TLS session in memory\<close>

definition mem_ssl_write :: "mem_world \<Rightarrow> nat \<Rightarrow> bytes \<Rightarrow> int \<Rightarrow> int \<times> mem_world" where
  "mem_ssl_write w h data n =
     (if n \<le> 0 then (-1, w)
      else let d = take (min (Suc (mw_chunk w)) (nat n)) data in (int (length d), w\<lparr>mw_out := mw_out w @ d\<rparr>))"

definition mem_ssl_read :: "mem_world \<Rightarrow> nat \<Rightarrow> int \<Rightarrow> (int + bytes) \<times> mem_world" where
  "mem_ssl_read w h n =
     (if n \<le> 0 then (Inl (-1), w)
      else if mw_in w = [] then (Inl 0, w)
      else let m = min (nat n) (Suc (mw_chunk w)) in (Inr (take m (mw_in w)), w\<lparr>mw_in := drop m (mw_in w)\<rparr>))"

definition mem_tls :: "mem_world os" where
  "mem_tls = mem_os\<lparr>ssl_new := (\<lambda>w c. (Some 1, w)), ssl_set_fd := (\<lambda>w h fd. (1, w)), ssl_write := mem_ssl_write,
     ssl_read := mem_ssl_read, ssl_get_error := (\<lambda>w h r. if r = 0 then 6 else 1), ssl_connect := (\<lambda>w h. (1, w)),
     ssl_accept := (\<lambda>w h. (1, w)), ssl_set_host_name := (\<lambda>w h host. (1, w))\<rparr>"

interpretation mem_tls: tls_session mem_tls "\<lambda>w h. True" "\<lambda>w h. mw_in w" "\<lambda>w h. mw_out w"
proof (unfold_locales, goal_cases)
  case (1 w h num data)
  then show ?case
    by (intro exI [of _ "length (take (min (Suc (mw_chunk w)) (nat num)) data)"])
       (auto simp: mem_tls_def mem_ssl_write_def Let_def min_def)
next
  case (2 w h num data)
  then show ?case by (simp add: mem_tls_def mem_ssl_write_def)
next
  case (3 w h sz)
  then show ?case by (auto simp: mem_tls_def mem_ssl_read_def Let_def)
next
  case (4 w h sz)
  then show ?case by (simp add: mem_tls_def mem_ssl_read_def)
next
  case (5 w h num)
  then show ?case by (simp add: mem_tls_def mem_ssl_read_def)
qed

definition mem_tls_sock :: "bytes \<Rightarrow> nat \<Rightarrow> mem_world ls" where
  "mem_tls_sock bs c =
     (linux_socket_new\<lparr>ls_fd := 3, ls_ssl := Some 1, ls_ssl_enabled := True\<rparr>, \<lparr>mw_in = bs, mw_out = [], mw_chunk = c\<rparr>)"

lemma mem_tls_sock_live [simp]: "tls_live (\<lambda>w h. True) (mem_tls_sock bs c)"
  by (simp add: mem_tls_sock_def tls_defs ls_is_open_def ls_is_ssl_def)

lemma mem_tls_sock_streams [simp]:
  "tls_stream (\<lambda>w h. mw_in w) (mem_tls_sock bs c) = bs" "tls_stream (\<lambda>w h. mw_out w) (mem_tls_sock bs c) = []"
  by (simp_all add: mem_tls_sock_def tls_defs)

section \<open>Properties\<close>

text \<open>
  C20: Under TLS the socket transfers as it does without, but the size of a transfer passes through an
  \<open>int\<close>.  A \<open>write\<close> of fewer than \<open>2 ^ 31\<close> octets puts all of them into the session, in order and once.  Every
  larger \<open>write\<close> fails, after it has sent the first \<open>length mod 2 ^ 32\<close> octets if that number is below \<open>2 ^ 31\<close>, and
  none otherwise, and returns the number of octets sent.  A \<open>read\<close> of fewer than \<open>2 ^ 31\<close> octets returns
  exactly the next octets, or an error when the peer has closed before.
\<close>

theorem tls_transfer:
  fixes data :: bytes
  assumes "tls_session os established inbox outbox" and "tls_live established s"
  defines "sent \<equiv> if length data mod 2 ^ 32 < 2 ^ 31 then length data mod 2 ^ 32 else 0"
  shows "(if length data < 2 ^ 31
          then \<exists>s'. ls_write os s data = (length data, no_error, s') \<and> tls_live established s' \<and>
                 tls_stream outbox s' = tls_stream outbox s @ data \<and> tls_stream inbox s' = tls_stream inbox s
          else \<exists>ec s'. ls_write os s data = (sent, ec, s') \<and> failed ec \<and>
                 tls_stream outbox s' = tls_stream outbox s @ take sent data) \<and>
         (n < 2 ^ 31 \<longrightarrow>
            (if n \<le> length (tls_stream inbox s)
             then \<exists>s'. ls_read os s n = (take n (tls_stream inbox s), no_error, s') \<and> tls_live established s' \<and>
                    tls_stream inbox s' = drop n (tls_stream inbox s) \<and> tls_stream outbox s' = tls_stream outbox s
             else \<exists>s'. ls_read os s n = (tls_stream inbox s, connection_reset, s')))"
  using tls_session.tls_write [OF assms(1,2), of data] tls_session.tls_write_over [OF assms(1,2), of data]
    tls_session.tls_read [OF assms(1,2), of n] tls_session.tls_read_short [OF assms(1,2), of n]
  unfolding sent_def int_part_def [symmetric] by (simp add: int_size_def)

theorem tls_transfer_witness:
  "(\<exists>s'. ls_write mem_tls (mem_tls_sock [7, 8, 9] 1) [1, 2, 3, 4, 5] = (5, no_error, s') \<and>
      tls_stream (\<lambda>w h. mw_out w) s' = [1, 2, 3, 4, 5]) \<and>
   (\<exists>ec s'. ls_write mem_tls (mem_tls_sock [] 1) (replicate (2 ^ 31) 0) = (0, ec, s') \<and> failed ec) \<and>
   (\<exists>ec s'. ls_write mem_tls (mem_tls_sock [] 1) (replicate (2 ^ 32 + 5) 0) = (5, ec, s') \<and> failed ec) \<and>
   (\<exists>s'. ls_read mem_tls (mem_tls_sock [7, 8, 9] 1) 4 = ([7, 8, 9], connection_reset, s'))"
  using tls_transfer [OF mem_tls.tls_session_axioms mem_tls_sock_live [of "[7, 8, 9]" 1], of "[1, 2, 3, 4, 5]" 4]
    tls_transfer [OF mem_tls.tls_session_axioms mem_tls_sock_live [of "[]" 1], of "replicate (2 ^ 31) 0" 0]
    tls_transfer [OF mem_tls.tls_session_axioms mem_tls_sock_live [of "[]" 1], of "replicate (2 ^ 32 + 5) 0" 0]
  by auto

text \<open>
  C19: Connecting to a \<open>wss\<close> URL over the POSIX socket.  When the TCP connection, the TLS session with the
  server name of the URL and the TLS handshake come about and the peer answers the request with \<open>101\<close>,
  \<open>connect\<close> succeeds: the client is open and under TLS, the request has been sent inside the session, \<open>on_open_\<close>
  has been called once, permessage-deflate is on only if it was requested and granted, and the connection is
  ready on exactly the octets behind the head of the answer.
\<close>

theorem wss_connect_succeeds:
  fixes c c1 :: "('w ls, 'o) client"
  assumes "tls_session os established inbox outbox" and "e_tr (ce_env E) = linux_transport os"
    and "parse_url url = info" and "url_secure info"
    and "\<not> cl_is_open c" and "\<not> c_is_closing (cl_connection c)" and "buffers_ok (cl_connection c)"
    and "ensure_ssl_context E c = (no_error, c1)" and "cl_ssl_context c1 = Some x"
    and "ls_connect os (c_socket (cl_connection c)) (url_host info) (url_port info) = (no_error, k, w1)" and "0 \<le> ls_fd k"
    and "ssl_new os w1 x = (Some h, w2)" and "ssl_set_fd os w2 h (ls_fd k) = (1, w3)"
    and "ssl_set_host_name os w3 h (url_host info) = (1, w4)" and "ssl_connect os w4 h = (1, w5)"
    and "established w5 h" and "inbox w5 h = bytes_of_string (http_head status fs) @ rest"
    and "line_text status" and "contains ''101'' status" and "list_all field_ok fs"
    and "length (client_request E rd info c) < 2 ^ 31"
  shows "\<exists>c2. client_connect E rd url c = Some (no_error, c2) \<and> client_is_open c2 \<and> client_is_ssl E c2 \<and>
    conn_ready (tls_live established) (cl_connection c2) \<and> tls_stream inbox (c_socket (cl_connection c2)) = rest \<and>
    prefix (outbox w5 h @ bytes_of_string (client_request E rd info c)) (tls_stream outbox (c_socket (cl_connection c2))) \<and>
    (c_permessage_deflate (cl_connection c2) \<longleftrightarrow>
       c_permessage_deflate (cl_connection c) \<or> cl_request_deflate c \<and> grants_deflate (fields_map fs)) \<and>
    c_events (cl_connection c2) = c_events (cl_connection c) @ (if c_on_open (cl_connection c) then [Ev_open] else [])"
proof -
  let ?k = "k\<lparr>ls_ssl_context := Some x, ls_ssl := Some h, ls_ssl_enabled := True\<rparr>"
  let ?c = "c1\<lparr>cl_connection := (cl_connection c1)\<lparr>c_socket := (?k, w5)\<rparr>\<rparr>"
  have c1: "cl_connection c1 = cl_connection c" "cl_request_deflate c1 = cl_request_deflate c" "cl_is_open c1 = cl_is_open c"
    using ensure_context [OF assms(8)] assms(8) by (auto simp: ensure_ssl_context_def case_prod_unfold Let_def split: if_splits)
  have op: "open_transport E info c = (no_error, ?c)"
    using open_secure [OF assms(2,4,8,9) _ assms(11-15)] assms(10) c1 by simp
  have rq: "client_request E rd info ?c = client_request E rd info c" using c1 by (simp add: client_request_def)
  have d: "\<not> cl_is_open ?c" "\<not> c_is_closing (cl_connection ?c)" "buffers_ok (cl_connection ?c)"
      "tls_live established (c_socket (cl_connection ?c))"
      "tls_stream inbox (c_socket (cl_connection ?c)) = bytes_of_string (http_head status fs) @ rest"
      "int_size (length (client_request E rd info ?c))" "tls_stream outbox (c_socket (cl_connection ?c)) = outbox w5 h"
    using assms(5-7,11,16,17,21) c1 rq by (simp_all add: buffers_ok_def tls_defs ls_is_open_def ls_is_ssl_def int_size_def)
  from connect_opened [OF tls_session.session_client [OF assms(1,2)] assms(3) op d(1-5) assms(18-20) d(6)]
  obtain c2 where "client_connect E rd url c = Some (no_error, c2)" "client_is_open c2"
      "conn_ready (tls_live established) (cl_connection c2)" "tls_stream inbox (c_socket (cl_connection c2)) = rest"
      "prefix (outbox w5 h @ bytes_of_string (client_request E rd info c)) (tls_stream outbox (c_socket (cl_connection c2)))"
      "c_permessage_deflate (cl_connection c2) \<longleftrightarrow>
         c_permessage_deflate (cl_connection c) \<or> cl_request_deflate c \<and> grants_deflate (fields_map fs)"
      "c_events (cl_connection c2) = c_events (cl_connection c) @ (if c_on_open (cl_connection c) then [Ev_open] else [])"
    unfolding d(7) rq using c1 by auto
  moreover from this(3) have "client_is_ssl E c2"
    using assms(2) by (simp add: conn_ready_def tls_live_def client_is_ssl_def linux_transport_def)
  ultimately show ?thesis by blast
qed

theorem wss_connect_succeeds_witness:
  "\<exists>c2. client_connect (on_linux mem_tls mem_cl_env) (\<lambda>n. 0) ''wss://h''
      (client_set_ssl_context (Some 5)
        (mem_client (\<lambda>_. []) (bytes_of_string (http_head ''HTTP/1.1 101 OK'' []) @ [0x89, 0])))
      = Some (no_error, c2) \<and> client_is_open c2 \<and> client_is_ssl (on_linux mem_tls mem_cl_env) c2 \<and>
    c_events (cl_connection c2) = [Ev_open]"
proof -
  let ?E = "on_linux mem_tls mem_cl_env"
  let ?in = "bytes_of_string (http_head ''HTTP/1.1 101 OK'' []) @ [0x89, 0]"
  let ?w = "\<lparr>mw_in = ?in, mw_out = [], mw_chunk = 4\<rparr>"
  let ?c = "client_set_ssl_context (Some 5) (mem_client (\<lambda>_. []) ?in)"
  let ?u = "\<lparr>url_scheme = ''wss'', url_host = ''h'', url_port = ''443'', url_path = ''/'', url_secure = True\<rparr>"
  have u: "parse_url ''wss://h'' = ?u" by code_simp
  have s: "c_socket (cl_connection ?c) = (linux_socket_new, ?w)" "cl_ssl_context ?c = Some 5" "cl_request_deflate ?c = False"
      "\<not> cl_is_open ?c" "\<not> c_is_closing (cl_connection ?c)" "buffers_ok (cl_connection ?c)"
      "c_on_open (cl_connection ?c)" "c_events (cl_connection ?c) = []"
    by (simp_all add: buffers_ok_def builder_new_def client_set_ssl_context_def mem_client_def client_set_on_open_def client_new_def set_on_open_def
        set_role_def connection_new_def)
  have e: "ensure_ssl_context ?E ?c = (no_error, ?c)" by (simp add: ensure_ssl_context_def s(2))
  have cn: "ls_connect mem_tls (c_socket (cl_connection ?c)) (url_host ?u) (url_port ?u) = (no_error, linux_socket_new\<lparr>ls_fd := 3\<rparr>, ?w)"
    by (simp add: s(1) ls_connect_def connect_host_def mem_tls_def mem_os_def linux_socket_new_def ls_is_open_def)
  have "length (client_request ?E (\<lambda>n. 0) ?u ?c) < 2 ^ 31"
    by (simp add: client_request_def s(3) build_client_request_def generate_key_def base64_encode_def mem_cl_env_def
        mem_crypto_def Let_def)
  moreover have "line_text ''HTTP/1.1 101 OK''" "contains ''101'' ''HTTP/1.1 101 OK''"
    by (simp_all add: cr_def lf_def)
  ultimately show ?thesis
    using wss_connect_succeeds [OF mem_tls.tls_session_axioms on_linux_simps(1) u _ s(4-6) e s(2) cn,
        of 1 ?w ?w ?w ?w "''HTTP/1.1 101 OK''" "[]" "[0x89, 0]" "\<lambda>n. 0"]
    s(7,8) by (auto simp: mem_tls_def)
qed

text \<open>
  C16: On a \<open>wss\<close> URL nothing of the opening handshake passes outside TLS.  Whatever becomes of the
  connection, \<open>connect\<close> takes the same course and has the same result when the plain transfer functions
  \<open>send\<close> and \<open>recv\<close> are replaced by any others: neither the request nor the answer goes through them.  The client
  has no \<open>on_open_\<close>, which could send frames before \<open>connect\<close> returns.
\<close>

theorem wss_no_plaintext:
  assumes "url_secure (parse_url url)" and "\<not> c_on_open (cl_connection c)"
  shows "client_connect (on_linux (plain_io f g os) E) rd url c = client_connect (on_linux os E) rd url c"
proof -
  let ?i = "parse_url url"
  obtain ec c1 where o: "open_transport (on_linux os E) ?i c = (ec, c1)" by (cases "open_transport (on_linux os E) ?i c")
  have o': "open_transport (on_linux (plain_io f g os) E) ?i c = (ec, c1)"
    using open_secure_plain_io [OF assms(1)] o by metis
  have a: "client_activate (on_linux (plain_io f g os) E) d = client_activate (on_linux os E) d"
    if "\<not> c_on_open (cl_connection d)" for d
    using that by (simp add: client_activate_def)
  show ?thesis
  proof (cases "failed ec")
    case True
    then show ?thesis using o o' by (simp add: client_connect_def)
  next
    case False
    obtain h where h: "ls_ssl (fst (c_socket (cl_connection c1))) = Some h"
      using open_secure_ssl [OF o assms(1) False] by blast
    then show ?thesis using False o o' handshake_plain_io [OF h, of f g os E rd ?i] open_on_open [OF o] assms(2) a
      by (auto simp: client_connect_def Let_def split: option.splits dest: handshake_on_open)
  qed
qed

theorem wss_no_plaintext_witness:
  "client_connect (on_linux (plain_io (\<lambda>w fd data. (Io_error 5, w)) (\<lambda>w fd n. (Recv_error 5, w)) mem_tls) mem_cl_env)
     (\<lambda>n. 0) ''wss://h'' (client_new (linux_socket_new, \<lparr>mw_in = [72], mw_out = [], mw_chunk = 4\<rparr>) (\<lambda>n. 0) (\<lambda>_. []) ()) =
   client_connect (on_linux mem_tls mem_cl_env)
     (\<lambda>n. 0) ''wss://h'' (client_new (linux_socket_new, \<lparr>mw_in = [72], mw_out = [], mw_chunk = 4\<rparr>) (\<lambda>n. 0) (\<lambda>_. []) ())"
proof -
  have "url_secure (parse_url ''wss://h'')" by code_simp
  then show ?thesis by (rule wss_no_plaintext) (simp add: client_new_def set_role_def connection_new_def)
qed

end
