(* ===== verification/Dialogue.thy ===== *)
theory Dialogue
  imports Server_Steps Tls
begin

text \<open>
  A whole dialogue: \<open>client::connect\<close> at one end, \<open>server::impl::handle_accept\<close> at the other, and then data
  frames in both directions.  The two ends may use different transports; the witness runs it over TLS.
\<close>

section \<open>The connection of an accepted peer\<close>

lemma accept_tls_result:
  assumes "accept_tls E i sv = (ec, sv1)" and "i < length (sv_objects sv)"
  shows "sv_conn sv1 i = (sv_conn sv i)\<lparr>c_socket := c_socket (sv_conn sv1 i)\<rparr> \<and>
    length (sv_objects sv1) = length (sv_objects sv) \<and> sv_on_connection sv1 = sv_on_connection sv"
  using assms by (auto simp: accept_tls_def Let_def case_prod_unfold sv_conn_def set_conn_def split: if_splits)

lemma accept_setup_conn:
  fixes sv :: "('s, 'a) server"
  defines "j \<equiv> length (sv_objects sv)"
  assumes "accept_setup E fd sv = (True, sv1)"
  shows "sv_conn sv1 j = (co_conn (accept_object E j))\<lparr>c_socket := c_socket (sv_conn sv1 j)\<rparr> \<and>
    length (sv_objects sv1) = Suc j \<and> sv_on_connection sv1 = sv_on_connection sv"
proof -
  let ?sv0 = "register_pending j (sv\<lparr>sv_objects := sv_objects sv @ [accept_object E j]\<rparr>)"
  have sv0: "sv_conn ?sv0 j = co_conn (accept_object E j)" "length (sv_objects ?sv0) = Suc j"
      "sv_on_connection ?sv0 = sv_on_connection sv"
    by (simp_all add: sv_conn_def register_pending_def j_def)
  obtain ec k where ad: "adopt (se_env E) fd (sv_conn ?sv0 j) = (ec, k)" by (cases "adopt (se_env E) fd (sv_conn ?sv0 j)")
  obtain s where k: "k = (co_conn (accept_object E j))\<lparr>c_socket := s\<rparr>"
  proof (cases "c_is_open (co_conn (accept_object E j))")
    case True
    then show thesis using ad sv0(1) by (intro that [of "c_socket (co_conn (accept_object E j))"]) (simp add: adopt_def)
  next
    case False
    then show thesis using ad sv0(1) by (intro that) (auto simp: adopt_def Let_def case_prod_unfold)
  qed
  obtain ec2 sv2 where tls: "accept_tls E j (set_conn j k ?sv0) = (ec2, sv2)" by (cases "accept_tls E j (set_conn j k ?sv0)")
  have "sv2 = sv1" using assms(2) ad tls by (auto simp: accept_setup_def j_def [symmetric] Let_def split: if_splits)
  moreover have "sv_conn (set_conn j k ?sv0) j = k" "length (sv_objects (set_conn j k ?sv0)) = Suc j"
      "sv_on_connection (set_conn j k ?sv0) = sv_on_connection sv"
    using sv0 by (simp_all add: set_conn_def sv_conn_def)
  ultimately show ?thesis using accept_tls_result [OF tls] k by simp
qed

section \<open>Messages from one connection to another\<close>

text \<open>
  \<open>carries\<close>: whatever legal data frames \<open>a\<close> sends, if they are what \<open>b\<close> has to read, then sending succeeds
  and the reader of \<open>b\<close> calls \<open>on_message_\<close> with the messages they make up, in order.
\<close>

definition carries ::
  "'s env \<Rightarrow> ('s \<Rightarrow> bytes) \<Rightarrow> (nat \<Rightarrow> bool) \<Rightarrow> 's connection \<Rightarrow>
   't env \<Rightarrow> ('t \<Rightarrow> bytes) \<Rightarrow> (nat \<Rightarrow> bool) \<Rightarrow> 't connection \<Rightarrow> bool" where
  "carries E aout afits a F inbound fits b \<longleftrightarrow>
     (\<forall>fs ec a1 st ms rest. send_all E fs a = (ec, a1) \<and>
        inbound (c_socket b) = drop (length (aout (c_socket a))) (aout (c_socket a1)) @ rest \<and>
        assemble None fs = Some (st, ms) \<and> list_all message_ok ms \<and>
        (\<forall>(opc, fin, d) \<in> set fs. d \<noteq> [] \<and> length d < 2 ^ 63 \<and> e_alloc F (length d) \<and>
           afits (length d + 14) \<and> fits (length d)) \<longrightarrow>
        ec = no_error \<and> (\<exists>b1. read_loop F b = read_loop F b1 \<and> c_events b1 = c_events b @ map message_event ms))"

lemma carriesI:
  assumes "stream_env E alive ain aout afits" and "stream_env F live inbound outbound fits"
    and "conn_ready alive a" and "\<not> c_permessage_deflate a" and "c_role a \<noteq> c_role b"
    and "conn_ready live b" and "sends_only b" and "c_on_message b" and "\<not> c_message_compressed b" and "pending b = None"
  shows "carries E aout afits a F inbound fits b"
  unfolding carries_def
proof (intro allI impI, elim conjE)
  fix fs ec a1 st ms rest
  assume h: "send_all E fs a = (ec, a1)" "inbound (c_socket b) = drop (length (aout (c_socket a))) (aout (c_socket a1)) @ rest"
    "assemble None fs = Some (st, ms)" "list_all message_ok ms"
    "\<forall>(opc, fin, d) \<in> set fs. d \<noteq> [] \<and> length d < 2 ^ 63 \<and> e_alloc F (length d) \<and> afits (length d + 14) \<and> fits (length d)"
  show "ec = no_error \<and> (\<exists>b1. read_loop F b = read_loop F b1 \<and> c_events b1 = c_events b @ map message_event ms)"
    using frames_arrive [OF assms(1-5) h(1) assms(6-9) h(2) _ h(4,5)] assms(10) h(3) by auto
qed

section \<open>Both ends\<close>

text \<open>Calls of \<open>on_connection_\<close> that only replace callbacks, all of which the server has already set.\<close>

definition sets_callback :: "conn_op \<Rightarrow> bool" where
  "sets_callback op \<longleftrightarrow> op \<in> {Op_on_message, Op_on_close, Op_on_error}"

definition has_callbacks :: "'s connection \<Rightarrow> bool" where
  "has_callbacks k \<longleftrightarrow> c_on_message k \<and> c_on_close k \<and> c_on_error k"

lemma set_callback_same:
  "c_on_message k \<Longrightarrow> set_on_message True k = k" "c_on_close k \<Longrightarrow> set_on_close True k = k"
  "c_on_error k \<Longrightarrow> set_on_error True k = k"
  by (cases k; simp add: set_on_message_def set_on_close_def set_on_error_def)+

lemma run_callback_op:
  assumes "sets_callback op" and "has_callbacks (sv_conn sv i)" and "i < length (sv_objects sv)"
  shows "sv_conn (run_conn_op E i op sv) i = sv_conn sv i \<and>
    length (sv_objects (run_conn_op E i op sv)) = length (sv_objects sv) \<and>
    (co_own_message (sv_objects (run_conn_op E i op sv) ! i) \<longleftrightarrow> co_own_message (sv_objects sv ! i) \<and> op \<noteq> Op_on_message)"
  using assms by (cases op) (simp_all add: sets_callback_def has_callbacks_def set_callback_same sv_conn_def)

lemma run_callback_ops:
  assumes "list_all sets_callback ops" and "has_callbacks (sv_conn sv i)" and "i < length (sv_objects sv)"
  shows "sv_conn (fold (run_conn_op E i) ops sv) i = sv_conn sv i \<and>
    length (sv_objects (fold (run_conn_op E i) ops sv)) = length (sv_objects sv) \<and>
    (co_own_message (sv_objects (fold (run_conn_op E i) ops sv) ! i) \<longleftrightarrow>
       co_own_message (sv_objects sv ! i) \<and> Op_on_message \<notin> set ops)"
  using assms
proof (induction ops arbitrary: sv)
  case (Cons op ops)
  then show ?case using run_callback_op [of op sv i E] by auto
qed simp

lemma activate_after_greet:
  assumes "sv_on_connection sv \<longrightarrow> list_all sets_callback (se_greet E i)" and "has_callbacks (sv_conn sv i)"
    and "i < length (sv_objects sv)" and "\<not> c_on_open (sv_conn sv i)" and "\<not> c_reader_running (sv_conn sv i)"
  shows "\<exists>react. sv_conn (accept_activate E i sv) i = (sv_conn sv i)\<lparr>c_react := react, c_is_open := True,
      c_reader_running := True, c_reader_thread := True\<rparr> \<and>
    (\<forall>evs. react evs = [] \<or> react evs = se_react E i evs) \<and>
    (sv_on_connection sv \<and> Op_on_message \<in> set (se_greet E i) \<longrightarrow>
       (\<forall>evs d opc. react (evs @ [Ev_message d opc]) = se_react E i (evs @ [Ev_message d opc])))"
proof -
  let ?g = "if sv_on_connection sv
    then fold (run_conn_op E i) (se_greet E i) (sv\<lparr>sv_events := sv_events sv @ [Sv_connection i]\<rparr>) else sv"
  have g: "sv_conn ?g i = sv_conn sv i" "i < length (sv_objects ?g)"
      "sv_on_connection sv \<and> Op_on_message \<in> set (se_greet E i) \<longrightarrow> \<not> co_own_message (sv_objects ?g ! i)"
    using run_callback_ops [of "se_greet E i" "sv\<lparr>sv_events := sv_events sv @ [Sv_connection i]\<rparr>" i E] assms(1-3)
    by (simp_all add: sv_conn_def)
  have "sv_conn (accept_activate E i sv) i = (sv_conn sv i)\<lparr>c_react := server_react E ?g i, c_is_open := True,
      c_reader_running := True, c_reader_thread := True\<rparr>"
    unfolding accept_activate_def Let_def using g(1,2) assms(4,5)
    by (simp add: on_conn_frame(4) activate_def open_and_start_reader_def fire_def start_reader_thread_def)
  moreover have "\<forall>evs. server_react E ?g i evs = [] \<or> server_react E ?g i evs = se_react E i evs"
    by (simp add: server_react_def)
  moreover have "sv_on_connection sv \<and> Op_on_message \<in> set (se_greet E i) \<longrightarrow>
      (\<forall>evs d opc. server_react E ?g i (evs @ [Ev_message d opc]) = se_react E i (evs @ [Ev_message d opc]))"
    using g(3) by (simp add: server_react_def reaches_user_def)
  ultimately show ?thesis by blast
qed

text \<open>A client on which nothing has happened yet, and texts that can stand in a request and its answer.\<close>

definition fresh_client :: "('s, 'o) client \<Rightarrow> bool" where
  "fresh_client c \<longleftrightarrow> \<not> cl_is_open c \<and> \<not> cl_request_deflate c \<and>
     (let k = cl_connection c in \<not> c_is_closing k \<and> buffers_ok k \<and> c_role k = role_client \<and>
        \<not> c_permessage_deflate k \<and> \<not> c_message_compressed k \<and> pending k = None)"

definition texts_ok :: "('s, 'o) cl_env \<Rightarrow> 't sv_env \<Rightarrow> (nat \<Rightarrow> u32) \<Rightarrow> url_info \<Rightarrow> bool" where
  "texts_ok E F rd info \<longleftrightarrow> line_text (url_path info) \<and> header_value (host_value (url_host info) (url_port info)) \<and>
     header_value (generate_key (ce_crypto E) rd) \<and>
     header_value (compute_accept (se_crypto F) (generate_key (ce_crypto E) rd))"

definition accepted :: "('s \<Rightarrow> bool) \<Rightarrow> 's connection \<Rightarrow> bool" where
  "accepted live b \<longleftrightarrow> conn_ready live b \<and> c_role b = role_server \<and> \<not> c_permessage_deflate b \<and> c_on_message b \<and>
     \<not> c_message_compressed b \<and> pending b = None \<and> c_events b = []"

lemma handle_accept_ready:
  fixes sv :: "('t, 'a) server" and d :: "('s, 'o) client"
  defines "j \<equiv> length (sv_objects sv)"
  assumes "server_stream F slive sin sout sfits" and "texts_ok E F rd info" and "\<not> cl_request_deflate d"
    and "accept_setup F fd sv = (True, sv1)" and "slive (c_socket (sv_conn sv1 j))"
    and "sv_on_connection sv \<longrightarrow> list_all sets_callback (se_greet F j)"
    and "sin (c_socket (sv_conn sv1 j)) = bytes_of_string (client_request E rd info d) @ rest"
    and "sfits (length (server_response F (generate_key (ce_crypto E) rd) False))"
  shows "\<exists>sv2 b. handle_accept F fd sv = Some sv2 \<and> j \<in> set (sv_connections sv2) \<and> sv_conn sv2 j = b \<and>
    accepted slive b \<and> sin (c_socket b) = rest \<and>
    (\<forall>evs. c_react b evs = [] \<or> c_react b evs = se_react F j evs) \<and>
    (sv_on_connection sv \<and> Op_on_message \<in> set (se_greet F j) \<longrightarrow>
       (\<forall>evs x opc. c_react b (evs @ [Ev_message x opc]) = se_react F j (evs @ [Ev_message x opc]))) \<and>
    sout (c_socket b) = sout (c_socket (sv_conn sv1 j)) @
      bytes_of_string (server_response F (generate_key (ce_crypto E) rd) False)"
proof -
  note set = accept_setup_conn [OF assms(5), folded j_def]
  have jl: "j < length (sv_objects sv1)" using set by simp
  obtain s where s: "slive s" "sin s = rest" "sout s = sout (c_socket (sv_conn sv1 j)) @
        bytes_of_string (server_response F (generate_key (ce_crypto E) rd) False)"
      "server_handshake F j sv1 = Some (True, set_conn j ((sv_conn sv1 j)\<lparr>c_socket := s,
        c_permessage_deflate := c_permessage_deflate (sv_conn sv1 j)\<rparr>) sv1)" (is "_ = Some (_, ?h)")
    using request_accepted [OF assms(2) _ _ _ jl assms(6,8)] assms(3,4,9) by (auto simp: texts_ok_def)
  let ?k0 = "co_conn (accept_object F j)"
  have base: "\<not> c_is_open ?k0" "\<not> c_is_closing ?k0" "buffers_ok ?k0" "c_role ?k0 = role_server" "\<not> c_permessage_deflate ?k0"
      "has_callbacks ?k0" "\<not> c_on_open ?k0" "\<not> c_reader_running ?k0" "\<not> c_message_compressed ?k0" "\<not> c_fragmented ?k0"
      "c_events ?k0 = []"
    by (simp_all add: has_callbacks_def accept_object_def set_on_error_def set_on_close_def set_on_message_def set_role_def
        connection_new_def buffers_ok_def builder_new_def)
  obtain s0 where k0: "sv_conn sv1 j = ?k0\<lparr>c_socket := s0\<rparr>" using set by blast
  have hc: "sv_conn ?h j = ?k0\<lparr>c_socket := s\<rparr>" and hl: "j < length (sv_objects ?h)"
    using jl by (simp_all add: k0)
  have on: "sv_on_connection ?h = sv_on_connection sv" using set by (simp add: set_conn_def)
  have "has_callbacks (sv_conn ?h j)" "\<not> c_on_open (sv_conn ?h j)" "\<not> c_reader_running (sv_conn ?h j)"
    unfolding hc using base(6-8) by (simp_all add: has_callbacks_def)
  from activate_after_greet [OF assms(7) [folded on] this(1) hl this(2,3), unfolded on] obtain react where
    b: "sv_conn (accept_activate F j ?h) j = ?k0\<lparr>c_socket := s, c_react := react, c_is_open := True,
          c_reader_running := True, c_reader_thread := True\<rparr>" (is "_ = ?b")
      "\<forall>evs. react evs = [] \<or> react evs = se_react F j evs"
      "sv_on_connection sv \<and> Op_on_message \<in> set (se_greet F j) \<longrightarrow>
         (\<forall>evs d opc. react (evs @ [Ev_message d opc]) = se_react F j (evs @ [Ev_message d opc]))"
    unfolding hc by blast
  let ?sv2 = "unregister_pending j (add_connection j (accept_activate F j ?h))"
  have "handle_accept F fd sv = Some ?sv2"
    using assms(5) s(4) by (simp add: handle_accept_def j_def [symmetric])
  moreover have "j \<in> set (sv_connections ?sv2)" by (simp add: unregister_pending_def add_connection_def set_insort_insert)
  moreover have "sv_conn ?sv2 j = ?b" using b(1) by (simp add: unregister_pending_def add_connection_def sv_conn_def)
  moreover have "accepted slive ?b" using s(1) base(2-6,9-11)
    by (simp add: accepted_def conn_ready_def buffers_ok_def has_callbacks_def pending_def)
  ultimately show ?thesis using s(2,3) b(2,3) by (intro exI [of _ ?sv2] exI [of _ ?b]) simp
qed

lemma meet:
  fixes c d :: "('s, 'o) client" and sv :: "('t, 'a) server"
  defines "j \<equiv> length (sv_objects sv)"
  assumes "client_stream E clive cin cout cfits" and "server_stream F slive sin sout sfits"
    and "parse_url url = info" and "texts_ok E F rd info"
    and "open_transport E info c = (no_error, d)" and "clive (c_socket (cl_connection d))" and "fresh_client d"
    and "\<not> c_on_open (cl_connection d)" and "c_on_message (cl_connection d)" and "sends_only (cl_connection d)"
    and "accept_setup F fd sv = (True, sv1)" and "slive (c_socket (sv_conn sv1 j))"
    and "sv_on_connection sv \<longrightarrow> list_all sets_callback (se_greet F j)"
    and "sin (c_socket (sv_conn sv1 j)) = bytes_of_string (client_request E rd info d) @ up"
    and "cin (c_socket (cl_connection d)) =
           bytes_of_string (server_response F (generate_key (ce_crypto E) rd) False) @ down"
    and "cfits (length (client_request E rd info d))"
    and "sfits (length (server_response F (generate_key (ce_crypto E) rd) False))"
  shows "\<exists>c1 sv2 b. client_connect E rd url c = Some (no_error, c1) \<and> client_is_open c1 \<and>
    conn_ready clive (cl_connection c1) \<and> fresh_client (c1\<lparr>cl_is_open := False, cl_request_deflate := False\<rparr>) \<and>
    c_on_message (cl_connection c1) \<and> sends_only (cl_connection c1) \<and>
    c_events (cl_connection c1) = c_events (cl_connection d) \<and> cin (c_socket (cl_connection c1)) = down \<and>
    handle_accept F fd sv = Some sv2 \<and> j \<in> set (sv_connections sv2) \<and> sv_conn sv2 j = b \<and>
    accepted slive b \<and> sin (c_socket b) = up \<and>
    (\<forall>evs. c_react b evs = [] \<or> c_react b evs = se_react F j evs) \<and>
    (sv_on_connection sv \<and> Op_on_message \<in> set (se_greet F j) \<longrightarrow>
       (\<forall>evs x opc. c_react b (evs @ [Ev_message x opc]) = se_react F j (evs @ [Ev_message x opc])))"
proof -
  have d: "\<not> cl_is_open d" "\<not> cl_request_deflate d" "\<not> c_is_closing (cl_connection d)" "buffers_ok (cl_connection d)"
      "c_role (cl_connection d) = role_client" "\<not> c_permessage_deflate (cl_connection d)"
      "\<not> c_message_compressed (cl_connection d)" "pending (cl_connection d) = None"
    using assms(8) by (simp_all add: fresh_client_def Let_def)
  obtain sv2 b where b: "handle_accept F fd sv = Some sv2" "j \<in> set (sv_connections sv2)" "sv_conn sv2 j = b"
      "accepted slive b" "sin (c_socket b) = up"
      "\<forall>evs. c_react b evs = [] \<or> c_react b evs = se_react F j evs"
      "sv_on_connection sv \<and> Op_on_message \<in> set (se_greet F j) \<longrightarrow>
         (\<forall>evs x opc. c_react b (evs @ [Ev_message x opc]) = se_react F j (evs @ [Ev_message x opc]))"
    using handle_accept_ready [OF assms(3,5) d(2) assms(12) assms(13-15) [unfolded j_def] assms(18), folded j_def] by blast
  obtain gs where gs: "server_response F (generate_key (ce_crypto E) rd) False = http_head ''HTTP/1.1 101 Switching Protocols'' gs"
      "list_all field_ok gs" "grants_deflate (fields_map gs) = False"
    using response_head assms(5) unfolding texts_ok_def by metis
  have st: "contains ''101'' ''HTTP/1.1 101 Switching Protocols''" by simp
  from connect_opened [OF assms(2,4,6) d(1,3,4) assms(7) assms(16) [unfolded gs(1)] start_lines_ok(3) st gs(2) assms(17)]
  obtain c1 where c1: "client_connect E rd url c = Some (no_error, c1)" "client_is_open c1"
      "conn_ready clive (cl_connection c1)" "cin (c_socket (cl_connection c1)) = down"
      "\<not> c_permessage_deflate (cl_connection c1)" "c_events (cl_connection c1) = c_events (cl_connection d)"
      and t: "touched ((cl_connection d)\<lparr>c_permessage_deflate := c_permessage_deflate (cl_connection c1)\<rparr>) (cl_connection c1)"
    using d(2,6) assms(9) by auto
  have k: "c_role (cl_connection c1) = role_client" "sends_only (cl_connection c1)" "c_on_message (cl_connection c1)"
      "\<not> c_message_compressed (cl_connection c1)" "pending (cl_connection c1) = None"
    using touchedD [OF t] d(5,7,8) assms(10,11) by (simp_all add: sends_only_def pending_def split: if_splits)
  have "fresh_client (c1\<lparr>cl_is_open := False, cl_request_deflate := False\<rparr>)"
    using k(1,4,5) c1(3,5) by (simp add: fresh_client_def conn_ready_def)
  then show ?thesis using b c1 k(2,3) by blast
qed

text \<open>
  C3: A whole dialogue.  A client connects to a URL and a server accepts the peer: if each reads what the
  other sends, \<open>connect\<close> and \<open>handle_accept\<close> both succeed, the client is open, the server lists the
  connection, and from then on every legal sequence of data frames sent by either side is delivered to the
  other as the messages it makes up, if no payload is empty and the texts are UTF-8.  The transports may
  differ, and either may be under TLS; the callbacks of both sides may send, and \<open>on_connection_\<close> may replace
  callbacks.  The client has not asked for permessage-deflate and has no \<open>on_open_\<close>.
\<close>

theorem dialogue:
  fixes c d :: "('s, 'o) client" and sv :: "('t, 'a) server"
  defines "j \<equiv> length (sv_objects sv)"
  assumes "client_stream E clive cin cout cfits" and "server_stream F slive sin sout sfits"
    and "parse_url url = info" and "texts_ok E F rd info"
    and "open_transport E info c = (no_error, d)" and "clive (c_socket (cl_connection d))" and "fresh_client d"
    and "\<not> c_on_open (cl_connection d)" and "c_on_message (cl_connection d)" and "sends_only (cl_connection d)"
    and "accept_setup F fd sv = (True, sv1)" and "slive (c_socket (sv_conn sv1 j))"
    and "sv_on_connection sv \<longrightarrow> list_all sets_callback (se_greet F j)"
    and "sin (c_socket (sv_conn sv1 j)) = bytes_of_string (client_request E rd info d) @ up"
    and "cin (c_socket (cl_connection d)) =
           bytes_of_string (server_response F (generate_key (ce_crypto E) rd) False) @ down"
    and "cfits (length (client_request E rd info d))"
    and "sfits (length (server_response F (generate_key (ce_crypto E) rd) False))"
    and "\<And>evs. list_all (\<lambda>a. \<not> is_close_call a) (se_react F j evs)"
  shows "\<exists>c1 sv2. client_connect E rd url c = Some (no_error, c1) \<and> client_is_open c1 \<and>
    handle_accept F fd sv = Some sv2 \<and> j \<in> set (sv_connections sv2) \<and>
    conn_ready clive (cl_connection c1) \<and> accepted slive (sv_conn sv2 j) \<and>
    c_events (cl_connection c1) = c_events (cl_connection d) \<and>
    cin (c_socket (cl_connection c1)) = down \<and> sin (c_socket (sv_conn sv2 j)) = up \<and>
    carries (ce_env E) cout cfits (cl_connection c1) (se_env F) sin sfits (sv_conn sv2 j) \<and>
    carries (se_env F) sout sfits (sv_conn sv2 j) (ce_env E) cin cfits (cl_connection c1)"
proof -
  from meet [OF assms(2-12) assms(13-15) [unfolded j_def] assms(16-18), folded j_def] obtain c1 sv2 b where
    c1: "client_connect E rd url c = Some (no_error, c1)" "client_is_open c1" "conn_ready clive (cl_connection c1)"
      "fresh_client (c1\<lparr>cl_is_open := False, cl_request_deflate := False\<rparr>)" "c_on_message (cl_connection c1)"
      "sends_only (cl_connection c1)" "c_events (cl_connection c1) = c_events (cl_connection d)"
      "cin (c_socket (cl_connection c1)) = down" and
    b: "handle_accept F fd sv = Some sv2" "j \<in> set (sv_connections sv2)" "sv_conn sv2 j = b" "accepted slive b"
      "sin (c_socket b) = up" and react: "\<forall>evs. c_react b evs = [] \<or> c_react b evs = se_react F j evs"
    by blast
  have sb: "sends_only b" unfolding sends_only_def using react assms(19) by (metis list.pred_inject(1))
  have k: "c_role (cl_connection c1) \<noteq> c_role b" "\<not> c_permessage_deflate (cl_connection c1)"
      "\<not> c_message_compressed (cl_connection c1)" "pending (cl_connection c1) = None"
    using c1(4) b(4) by (simp_all add: fresh_client_def accepted_def Let_def)
  have E: "stream_env (ce_env E) clive cin cout cfits" and F: "stream_env (se_env F) slive sin sout sfits"
    using assms(2,3) by (simp_all add: client_stream_def server_stream_def exact_stream_def stream_env_def)
  have "carries (ce_env E) cout cfits (cl_connection c1) (se_env F) sin sfits b"
    using b(4) by (intro carriesI [OF E F c1(3) k(2,1) _ sb]) (simp_all add: accepted_def)
  moreover have "carries (se_env F) sout sfits b (ce_env E) cin cfits (cl_connection c1)"
    using b(4) k(1) by (intro carriesI [OF F E _ _ _ c1(3,6,5) k(3,4)]) (simp_all add: accepted_def)
  ultimately show ?thesis using b c1 by (intro exI [of _ c1] exI [of _ sv2]) simp
qed

section \<open>A dialogue over TLS in memory\<close>

context tls_session
begin

lemma session_server:
  "e_tr (se_env F) = linux_transport os \<Longrightarrow>
   server_stream F (tls_live established) (tls_stream inbox) (tls_stream outbox) int_size"
  by (rule server_stream.intro) (simp add: session_stream)

end

definition wss_sock :: "bytes \<Rightarrow> mem_world ls" where
  "wss_sock bs = (linux_socket_new, \<lparr>mw_in = bs, mw_out = [], mw_chunk = 4\<rparr>)"

definition wss_cl_env :: "(mem_world ls, unit) cl_env" where
  "wss_cl_env = on_linux mem_tls mem_cl_env"

definition wss_sv_env :: "bytes \<Rightarrow> mem_world ls sv_env" where
  "wss_sv_env bs = (mem_sv_env [] (\<lambda>i. []))\<lparr>se_env := mem_env\<lparr>e_tr := linux_transport mem_tls\<rparr>, se_socket := (\<lambda>i. wss_sock bs)\<rparr>"

interpretation wss_client: client_stream wss_cl_env "tls_live (\<lambda>w h. True)" "tls_stream (\<lambda>w h. mw_in w)"
  "tls_stream (\<lambda>w h. mw_out w)" int_size
  by (rule mem_tls.session_client) (simp add: wss_cl_env_def)

interpretation wss_server: server_stream "wss_sv_env bs" "tls_live (\<lambda>w h. True)" "tls_stream (\<lambda>w h. mw_in w)"
  "tls_stream (\<lambda>w h. mw_out w)" int_size
  by (rule mem_tls.session_server) (simp add: wss_sv_env_def)

definition wss_client :: "bytes \<Rightarrow> (mem_world ls, unit) client" where
  "wss_client bs = client_set_ssl_context (Some 5) (client_set_on_message True
     (client_new (wss_sock bs) (\<lambda>n. of_nat n) (\<lambda>_. []) ()))"

definition wss_server :: "(mem_world ls, unit) server" where
  "wss_server = (server_new (Some 5) ())\<lparr>sv_ssl_enabled := True\<rparr>"

text \<open>The URL, the request and the answer of this dialogue.\<close>

definition wss_url :: url_info where
  "wss_url = \<lparr>url_scheme = ''wss'', url_host = ''h'', url_port = ''443'', url_path = ''/'', url_secure = True\<rparr>"

definition wss_request :: bytes where
  "wss_request = bytes_of_string (client_request wss_cl_env (\<lambda>n. 0) wss_url (wss_client []))"

definition wss_answer :: bytes where
  "wss_answer = bytes_of_string (server_response (wss_sv_env []) (generate_key mem_crypto (\<lambda>n. 0)) False)"

definition wss_open :: "bytes \<Rightarrow> mem_world ls" where
  "wss_open bs = (linux_socket_new\<lparr>ls_fd := 3, ls_ssl_context := Some 5, ls_ssl := Some 1, ls_ssl_enabled := True\<rparr>,
     \<lparr>mw_in = bs, mw_out = [], mw_chunk = 4\<rparr>)"

lemma wss_opens:
  "open_transport wss_cl_env wss_url (wss_client bs) =
     (no_error, (wss_client bs)\<lparr>cl_connection := (cl_connection (wss_client bs))\<lparr>c_socket := wss_open bs\<rparr>\<rparr>)"
proof -
  let ?c = "wss_client bs" and ?w = "\<lparr>mw_in = bs, mw_out = [], mw_chunk = 4\<rparr>"
  have s: "c_socket (cl_connection ?c) = (linux_socket_new, ?w)" "cl_ssl_context ?c = Some 5"
    by (simp_all add: wss_client_def wss_sock_def client_set_ssl_context_def client_set_on_message_def client_new_def
        set_on_message_def set_role_def connection_new_def)
  have e: "ensure_ssl_context wss_cl_env ?c = (no_error, ?c)" by (simp add: ensure_ssl_context_def s(2))
  have tr: "e_tr (ce_env wss_cl_env) = linux_transport mem_tls" by (simp add: wss_cl_env_def)
  have cn: "ls_connect mem_tls (c_socket (cl_connection ?c)) (url_host wss_url) (url_port wss_url) =
      (no_error, linux_socket_new\<lparr>ls_fd := 3\<rparr>, ?w)"
    by (simp add: s(1) ls_connect_def connect_host_def mem_tls_def mem_os_def linux_socket_new_def ls_is_open_def)
  show ?thesis
    using open_secure [OF tr _ e s(2) cn, of 1 ?w ?w ?w ?w]
    by (simp add: mem_tls_def wss_open_def wss_url_def linux_socket_new_def)
qed

lemma wss_open_live: "tls_live (\<lambda>w h. True) (wss_open bs)" "tls_stream (\<lambda>w h. mw_in w) (wss_open bs) = bs"
  by (simp_all add: wss_open_def tls_defs ls_is_open_def ls_is_ssl_def)

lemmas wss_accept_defs = accept_setup_def accept_tls_def wss_server_def server_new_def wss_sv_env_def register_pending_def
  sv_conn_def set_conn_def adopt_def accept_object_def set_on_error_def set_on_close_def set_on_message_def set_role_def
  connection_new_def linux_transport_def ls_adopt_def wss_sock_def linux_socket_new_def ls_is_open_def ls_enable_ssl_def
  ls_ssl_handshake_def mem_tls_def wss_open_def Let_def

lemma wss_accepts:
  "\<exists>sv1. accept_setup (wss_sv_env bs) 3 wss_server = (True, sv1) \<and> c_socket (sv_conn sv1 0) = wss_open bs"
  by (simp add: wss_accept_defs)

lemma wire_single: "wire_frames False [(opc, fin, d)] bs \<Longrightarrow> bs = encode_frame fin False opc None d"
  by (auto elim!: wire_frames.cases) (metis option.exhaust)

lemma wss_texts:
  "texts_ok wss_cl_env (wss_sv_env bs) (\<lambda>n. 0) wss_url"
  "int_size (length (client_request wss_cl_env (\<lambda>n. 0) wss_url (wss_client [])))"
  "int_size (length (server_response (wss_sv_env bs) (generate_key (ce_crypto wss_cl_env) (\<lambda>n. 0)) False))"
  by (simp_all add: texts_ok_def wss_url_def header_value_def line_text_def host_value_def cr_def lf_def wss_sv_env_def mem_sv_env_def
      wss_cl_env_def mem_cl_env_def mem_crypto_def generate_key_def compute_accept_def base64_encode_def int_size_def
      client_request_def wss_client_def client_set_ssl_context_def client_set_on_message_def client_new_def
      build_client_request_def server_response_def build_server_response_def Let_def)

lemma wss_fresh:
  "fresh_client ((wss_client bs)\<lparr>cl_connection := (cl_connection (wss_client bs))\<lparr>c_socket := s\<rparr>\<rparr>)"
  "\<not> c_on_open (cl_connection (wss_client bs)\<lparr>c_socket := s\<rparr>)" "c_on_message (cl_connection (wss_client bs)\<lparr>c_socket := s\<rparr>)"
  "sends_only (cl_connection (wss_client bs)\<lparr>c_socket := s\<rparr>)" "c_events (cl_connection (wss_client bs)\<lparr>c_socket := s\<rparr>) = []"
  by (simp_all add: fresh_client_def wss_client_def client_set_ssl_context_def client_set_on_message_def client_new_def
      set_on_message_def set_role_def connection_new_def buffers_ok_def builder_new_def pending_def sends_only_def)

lemma wss_request_same:
  "client_request wss_cl_env (\<lambda>n. 0) wss_url ((wss_client bs)\<lparr>cl_connection := k\<rparr>) =
   client_request wss_cl_env (\<lambda>n. 0) wss_url (wss_client [])"
  by (simp add: client_request_def wss_client_def client_set_ssl_context_def client_set_on_message_def client_new_def)

theorem dialogue_witness:
  "\<exists>c1 sv2 k. client_connect wss_cl_env (\<lambda>n. 0) ''wss://h'' (wss_client (wss_answer @ encode_frame True False TEXT None [72, 105]))
      = Some (no_error, c1) \<and> client_is_open c1 \<and>
    handle_accept (wss_sv_env wss_request) 3 wss_server = Some sv2 \<and> 0 \<in> set (sv_connections sv2) \<and>
    read_loop (ce_env wss_cl_env) (cl_connection c1) = read_loop (ce_env wss_cl_env) k \<and>
    c_events k = [Ev_message [72, 105] TEXT]"
proof -
  let ?f = "encode_frame True False TEXT None [72, 105]" and ?fs = "[(TEXT, True, [72, 105])]"
  let ?c = "wss_client (wss_answer @ ?f)" and ?F = "wss_sv_env wss_request"
  let ?d = "?c\<lparr>cl_connection := (cl_connection ?c)\<lparr>c_socket := wss_open (wss_answer @ ?f)\<rparr>\<rparr>"
  have u: "parse_url ''wss://h'' = wss_url" unfolding wss_url_def by code_simp
  obtain sv1 where sv1: "accept_setup ?F 3 wss_server = (True, sv1)" "c_socket (sv_conn sv1 0) = wss_open wss_request"
    using wss_accepts by blast
  have d: "fresh_client ?d" "\<not> c_on_open (cl_connection ?d)" "c_on_message (cl_connection ?d)"
      "sends_only (cl_connection ?d)" "c_events (cl_connection ?d) = []" by (simp_all add: wss_fresh)
  have lv: "tls_live (\<lambda>w h. True) (c_socket (cl_connection ?d))"
      "tls_live (\<lambda>w h. True) (c_socket (sv_conn sv1 (length (sv_objects wss_server))))"
    using sv1(2) wss_open_live by (simp_all add: wss_server_def server_new_def)
  have rq: "client_request wss_cl_env (\<lambda>n. 0) wss_url ?d = client_request wss_cl_env (\<lambda>n. 0) wss_url (wss_client [])"
    by (rule wss_request_same)
  have sv: "sv_on_connection wss_server \<longrightarrow> list_all sets_callback (se_greet ?F (length (sv_objects wss_server)))" "length (sv_objects wss_server) = 0"
      "list_all (\<lambda>a. \<not> is_close_call a) (se_react ?F i evs)" for i evs
    by (simp_all add: wss_server_def server_new_def wss_sv_env_def mem_sv_env_def)
  have up: "tls_stream (\<lambda>w h. mw_in w) (c_socket (sv_conn sv1 (length (sv_objects wss_server)))) =
      bytes_of_string (client_request wss_cl_env (\<lambda>n. 0) wss_url ?d) @ []"
    using sv1(2) wss_open_live(2) unfolding rq sv(2) by (simp add: wss_request_def)
  have resp: "server_response ?F key g = server_response (wss_sv_env []) key g" for key g
    by (simp add: server_response_def wss_sv_env_def)
  have crypto: "ce_crypto wss_cl_env = mem_crypto" by (simp add: wss_cl_env_def mem_cl_env_def)
  have down: "tls_stream (\<lambda>w h. mw_in w) (c_socket (cl_connection ?d)) =
      bytes_of_string (server_response ?F (generate_key (ce_crypto wss_cl_env) (\<lambda>n. 0)) False) @ ?f"
    unfolding resp crypto using wss_open_live(2) by (simp add: wss_answer_def)
  from dialogue [OF wss_client.client_stream_axioms wss_server.server_stream_axioms u wss_texts(1) wss_opens lv(1) d(1-4)
      sv1(1) lv(2) sv(1) up down wss_texts(2) [folded rq] wss_texts(3) sv(3)]
  obtain c1 sv2 where c1: "client_connect wss_cl_env (\<lambda>n. 0) ''wss://h'' ?c = Some (no_error, c1)" "client_is_open c1"
      "handle_accept ?F 3 wss_server = Some sv2" "0 \<in> set (sv_connections sv2)" "c_events (cl_connection c1) = []"
      "accepted (tls_live (\<lambda>w h. True)) (sv_conn sv2 0)" "tls_stream (\<lambda>w h. mw_in w) (c_socket (cl_connection c1)) = ?f"
      "carries (se_env ?F) (tls_stream (\<lambda>w h. mw_out w)) int_size (sv_conn sv2 0) (ce_env wss_cl_env)
         (tls_stream (\<lambda>w h. mw_in w)) int_size (cl_connection c1)"
    using d(5) sv(2) by auto
  obtain ec b where b: "send_all (se_env ?F) ?fs (sv_conn sv2 0) = (ec, b)" by fastforce
  have sz: "\<forall>(opc, fin, d) \<in> set ?fs. length d < 2 ^ 64 \<and> int_size (length d + 14)" by (simp add: int_size_def)
  obtain bs where bs: "tls_stream (\<lambda>w h. mw_out w) (c_socket b) = tls_stream (\<lambda>w h. mw_out w) (c_socket (sv_conn sv2 0)) @ bs"
      "wire_frames False ?fs bs"
    using stream_env.sent_frames [OF wss_server.conn.stream_env_axioms _ _ b sz] c1(6) by (auto simp: accepted_def)
  have i: "tls_stream (\<lambda>w h. mw_in w) (c_socket (cl_connection c1)) =
      drop (length (tls_stream (\<lambda>w h. mw_out w) (c_socket (sv_conn sv2 0)))) (tls_stream (\<lambda>w h. mw_out w) (c_socket b)) @ []"
    using bs(1) wire_single [OF bs(2)] c1(7) by simp
  have ok: "is_valid_utf8 [72, 105]" by code_simp
  have "\<exists>k. read_loop (ce_env wss_cl_env) (cl_connection c1) = read_loop (ce_env wss_cl_env) k \<and>
      c_events k = c_events (cl_connection c1) @ map message_event [(TEXT, [72, 105])]"
    using c1(8) [unfolded carries_def, rule_format, of ?fs ec b "[]" None "[(TEXT, [72, 105])]"] b i ok
    by (auto simp: message_ok_def int_size_def wss_cl_env_def on_linux_def mem_cl_env_def mem_env_def)
  then show ?thesis using c1(1-5) by (auto simp: message_event_def)
qed

end
