(* ===== verification/Client_Steps.thy ===== *)
theory Client_Steps
  imports Client
begin

text \<open>
  The client as a transition system: the calls of its public class, the rounds of its reader thread and
  the end of \<open>connect\<close>, which sets \<open>is_open_\<close> only after the reader has been started.  The callbacks of a
  client reach the connection through the client, whose two flags decide what becomes of a \<open>close\<close>.
\<close>

section \<open>The public class\<close>

datatype cl_request =
    Cl_connect string
  | Cl_close u16 string
  | Cl_send_text string bool
  | Cl_send_binary bytes bool
  | Cl_send_continuation string bool
  | Cl_set_on_open bool
  | Cl_set_on_message bool
  | Cl_set_on_close bool
  | Cl_set_on_error bool
  | Cl_is_open
  | Cl_is_ssl
  | Cl_run
  | Cl_stop
  | Cl_set_ssl_context ssl_ctx
  | Cl_enable_permessage_deflate bool

primrec client_api ::
  "('s, 'o) cl_env \<Rightarrow> (nat \<Rightarrow> u32) \<Rightarrow> bool \<Rightarrow> cl_request \<Rightarrow> ('s, 'o) client \<Rightarrow> (reply \<times> ('s, 'o) client) option" where
  "client_api E rd r (Cl_connect url) c = map_option returns_code (client_connect E rd url c)"
| "client_api E rd r (Cl_close status_code reason) c = Some (Re_void, client_close E r status_code reason c)"
| "client_api E rd r (Cl_send_text txt fin) c = Some (returns_code (client_send_text E txt fin c))"
| "client_api E rd r (Cl_send_binary data fin) c = Some (returns_code (client_send_binary E data fin c))"
| "client_api E rd r (Cl_send_continuation data fin) c = Some (returns_code (client_send_continuation E data fin c))"
| "client_api E rd r (Cl_set_on_open cb) c = Some (Re_void, client_set_on_open cb c)"
| "client_api E rd r (Cl_set_on_message cb) c = Some (Re_void, client_set_on_message cb c)"
| "client_api E rd r (Cl_set_on_close cb) c = Some (Re_void, client_set_on_close cb c)"
| "client_api E rd r (Cl_set_on_error cb) c = Some (Re_void, client_set_on_error cb c)"
| "client_api E rd r Cl_is_open c = Some (Re_bool (client_is_open c), c)"
| "client_api E rd r Cl_is_ssl c = Some (Re_bool (client_is_ssl E c), c)"
| "client_api E rd r Cl_run c = Some (Re_void, client_run c)"
| "client_api E rd r Cl_stop c = Some (Re_void, client_stop c)"
| "client_api E rd r (Cl_set_ssl_context ctx) c = Some (Re_void, client_set_ssl_context ctx c)"
| "client_api E rd r (Cl_enable_permessage_deflate enable) c = Some (Re_void, enable_permessage_deflate enable c)"

section \<open>The reader of a client\<close>

text \<open>
  What the calls of a callback come to at the connection: \<open>may_close\<close> says that the client's flags admit a
  \<open>close\<close>, the first of which changes them.
\<close>

fun through_client :: "bool \<Rightarrow> api_call list \<Rightarrow> api_call list" where
  "through_client may_close [] = []"
| "through_client may_close (Call_close status reason # as) =
     (if may_close then Call_close status reason # through_client False as else through_client False as)"
| "through_client may_close (Call_send_ping data # as) = through_client may_close as"
| "through_client may_close (a # as) = a # through_client may_close as"

definition client_may_close :: "('s, 'o) client \<Rightarrow> bool" where
  "client_may_close c \<longleftrightarrow> cl_is_open c \<and> \<not> cl_is_closing c"

text \<open>Some callback after the first \<open>n\<close> and up to the first \<open>m\<close> of the events \<open>evs\<close> calls \<open>close\<close>.\<close>

definition close_called :: "(event list \<Rightarrow> api_call list) \<Rightarrow> nat \<Rightarrow> nat \<Rightarrow> event list \<Rightarrow> bool" where
  "close_called react n m evs \<longleftrightarrow> list_ex (\<lambda>j. list_ex is_close_call (react (take j evs))) [Suc n..<Suc m]"

definition client_react :: "('s, 'o) client \<Rightarrow> event list \<Rightarrow> api_call list" where
  "client_react c evs =
     (let k = cl_connection c in
      through_client
        (client_may_close c \<and> \<not> close_called (c_react k) (length (c_events k)) (length evs - 1) evs)
        (c_react k evs))"

text \<open>One round of the loop of the reader thread, with the callbacks it makes.\<close>

definition client_read :: "('s, 'o) cl_env \<Rightarrow> ('s, 'o) client \<Rightarrow> exn + bool \<times> ('s, 'o) client" where
  "client_read E c =
     (let k = cl_connection c in
      case read_one_frame (ce_env E) (k\<lparr>c_react := client_react c\<rparr>) of
        Inl e \<Rightarrow> Inl e
      | Inr (again, k1) \<Rightarrow>
          let c1 = c\<lparr>cl_connection := k1\<lparr>c_react := c_react k\<rparr>\<rparr>;
              closes = client_may_close c \<and>
                close_called (c_react k) (length (c_events k)) (length (c_events k1)) (c_events k1)
          in Inr (again, if closes then c1\<lparr>cl_is_closing := True, cl_is_open := False\<rparr> else c1))"

text \<open>
  A session of the client; the flag says that \<open>connect\<close> has started the reader and not yet set \<open>is_open_\<close>.
\<close>

definition in_client_session :: "cl_request \<Rightarrow> bool" where
  "in_client_session rq \<longleftrightarrow> (case rq of Cl_connect _ \<Rightarrow> False | _ \<Rightarrow> True)"

inductive client_step :: "('s, 'o) cl_env \<Rightarrow> bool \<times> ('s, 'o) client \<Rightarrow> bool \<times> ('s, 'o) client \<Rightarrow> bool"
  for E :: "('s, 'o) cl_env" where
  ck_call: "in_client_session rq \<Longrightarrow> client_api E rd False rq c = Some (re, c1) \<Longrightarrow> client_step E (b, c) (b, c1)"
| ck_read: "c_is_open (cl_connection c) \<Longrightarrow> \<not> c_is_closing (cl_connection c) \<Longrightarrow>
    client_read E c = Inr (again, c1) \<Longrightarrow> client_step E (b, c) (b, c1)"
| ck_opened: "client_step E (True, c) (False, c\<lparr>cl_is_open := True\<rparr>)"

inductive_cases client_stepE: "client_step E p q"

definition client_session :: "('s, 'o) cl_env \<Rightarrow> bool \<times> ('s, 'o) client \<Rightarrow> bool \<times> ('s, 'o) client \<Rightarrow> bool" where
  "client_session E = (client_step E)\<^sup>*\<^sup>*"

definition client_inv :: "('s \<Rightarrow> bool) \<Rightarrow> bool \<times> ('s, 'o) client \<Rightarrow> bool" where
  "client_inv live p \<longleftrightarrow>
     (let (connecting, c) = p in
      conn_inv live (cl_connection c) \<and> c_role (cl_connection c) = role_client \<and>
      (connecting \<longrightarrow> \<not> cl_is_open c \<and> \<not> cl_is_closing c) \<and>
      (cl_is_closing c \<longrightarrow> \<not> cl_is_open c \<and> \<not> c_is_open (cl_connection c)))"

section \<open>Calls through the client\<close>

lemma close_not_open: "flags_ok k \<Longrightarrow> \<not> c_is_open (close E r status reason k)"
  by (cases "c_is_open k") (simp_all add: flags_ok_def close_flags, simp_all add: close_def)

text \<open>The reduction is what \<open>client_calls\<close> does.\<close>

lemma client_calls_through:
  "client_calls E r as c =
     (let c1 = c\<lparr>cl_connection := run_calls (ce_env E) r (through_client (client_may_close c) as) (cl_connection c)\<rparr> in
      if client_may_close c \<and> list_ex is_close_call as then c1\<lparr>cl_is_closing := True, cl_is_open := False\<rparr> else c1)"
proof (induction as arbitrary: c)
  case Nil
  then show ?case by simp
next
  case (Cons a as)
  show ?case
    by (cases a; cases "client_may_close c")
       (auto simp: Cons client_send_text_def client_send_binary_def client_send_continuation_def forward_def
         client_close_def client_may_close_def is_close_call_def case_prod_unfold Let_def)
qed

lemma through_client_close: "list_ex is_close_call (through_client b as) \<longleftrightarrow> b \<and> list_ex is_close_call as"
  by (induction b as rule: through_client.induct) (auto simp: is_close_call_def)

section \<open>Rounds of the reader that leave the connection open\<close>

text \<open>A callback that calls \<open>close\<close> leaves a connection that is not open.\<close>

lemma run_calls_open:
  "flags_ok k \<Longrightarrow> c_is_open (run_calls E r as k) \<Longrightarrow>
   \<not> list_ex is_close_call as \<and> c_events (run_calls E r as k) = c_events k"
proof (induction as arbitrary: k)
  case (Cons a as)
  have nc: "\<not> is_close_call a"
  proof
    assume "is_close_call a"
    then obtain st re where "a = Call_close st re" by (auto simp: is_close_call_def split: api_call.splits)
    then show False using Cons.prems close_not_open [of k E r st re] by (simp add: run_calls_not_open)
  qed
  then show ?case using Cons.IH [OF flags_run_call [OF Cons.prems(1)]] Cons.prems(2) run_call_events [OF nc] by simp
qed simp

lemma fire_open:
  assumes "flags_ok k" and "c_is_open (fire E r b ev k)"
  shows "c_events (fire E r b ev k) = c_events k @ (if b then [ev] else [])"
    and "b \<Longrightarrow> \<not> list_ex is_close_call (c_react k (c_events k @ [ev]))"
proof -
  have "flags_ok (log_event True ev k)" using assms(1) by (simp add: flags_ok_def log_event_def)
  note r = run_calls_open [OF this, of E r "c_react k (c_events k @ [ev])"]
  show "c_events (fire E r b ev k) = c_events k @ (if b then [ev] else [])"
    using r assms(2) by (auto simp: fire_def log_event_def)
  show "\<not> list_ex is_close_call (c_react k (c_events k @ [ev]))" if b
    using r assms(2) that by (simp add: fire_def log_event_def)
qed

text \<open>What is left open has seen at most one callback, and that one did not close.\<close>

definition calm :: "'s connection \<Rightarrow> 's connection \<Rightarrow> bool" where
  "calm k k1 \<longleftrightarrow>
     c_events k1 = c_events k \<or>
     (\<exists>ev. c_events k1 = c_events k @ [ev] \<and> \<not> list_ex is_close_call (c_react k (c_events k @ [ev])))"

lemma calm_fire: "flags_ok k \<Longrightarrow> c_is_open (fire E r b ev k) \<Longrightarrow> calm k (fire E r b ev k)"
  using fire_open [of k E r b ev] by (cases b) (auto simp: calm_def)

lemma calm_same: "c_events k1 = c_events k \<Longrightarrow> calm k k1"
  by (simp add: calm_def)

lemma calm_update:
  "c_events d = c_events k1 \<Longrightarrow> c_events k0 = c_events k \<Longrightarrow> c_react k0 = c_react k \<Longrightarrow> calm k0 k1 \<Longrightarrow> calm k d"
  by (simp add: calm_def)

lemma deliver_calm:
  assumes "flags_ok k" and "c_is_open (snd (deliver_message E d opc b k))"
  shows "calm k (snd (deliver_message E d opc b k))"
  using assms calm_fire [OF assms(1)]
  by (auto simp: deliver_message_def Let_def fail_protocol_def split: if_splits option.splits)

lemma handle_frame_calm:
  assumes "flags_ok k" and "c_is_open (handle_frame E k)"
  shows "calm k (handle_frame E k)"
proof -
  let ?h = "c_current_header k"
  let ?m = "k\<lparr>c_message_buffer := c_message_buffer k @ c_payload_buffer k\<rparr>"
  have fm: "flags_ok ?m" using assms(1) by (simp add: flags_ok_def)
  have cl: "\<not> c_is_open (handle_close_frame E k)"
    by (simp add: handle_close_frame_def Let_def fire_not_open log_event_def)
  have ping: "calm k (handle_ping_frame E k)" if "c_is_open (handle_ping_frame E k)"
  proof (cases "c_is_closing k \<or> \<not> c_is_open k")
    case True
    then show ?thesis by (simp add: handle_ping_frame_def calm_same)
  next
    case False
    let ?b = "build_frame PONG (c_payload_buffer k) True False k"
    let ?w = "snd (write_frame E ?b)"
    have "flags_ok ?w" using assms(1) by (simp add: flags_ok_def)
    note fw = calm_fire [OF this, of E True]
    have t: "touched k ?w" by (rule touched_trans [of _ ?b]) simp_all
    have w: "c_events ?w = c_events k" "c_react ?w = c_react k" using touchedD(17) [OF t] by simp_all
    have "calm k d = calm ?w d" for d unfolding calm_def w by simp
    then show ?thesis using that False fw
      by (auto simp: handle_ping_frame_def emit_error_ec_def Let_def case_prod_unfold calm_same split: if_splits)
  qed
  show ?thesis
    using assms cl ping deliver_calm [OF assms(1)] deliver_calm [OF fm]
    by (auto simp: handle_frame_def Let_def case_prod_unfold reset_fragment_state_def calm_same
        intro: calm_update [of _ _ ?m] calm_update [of _ _ k] split: if_splits)
qed

text \<open>\<open>quiet k k1\<close>: only the reader's own fields differ.\<close>

definition quiet :: "'s connection \<Rightarrow> 's connection \<Rightarrow> bool" where
  "quiet k k1 \<longleftrightarrow> c_events k1 = c_events k \<and> c_react k1 = c_react k \<and> c_role k1 = c_role k \<and>
     flags_ok k1 = flags_ok k"

lemma quiet_refl [simp]: "quiet k k"
  by (simp add: quiet_def)

lemma quiet_trans: "quiet k k1 \<Longrightarrow> quiet k1 k2 \<Longrightarrow> quiet k k2"
  by (simp add: quiet_def)

lemma quiet_update [simp]:
  "quiet k (d\<lparr>c_socket := s\<rparr>) = quiet k d" "quiet k (d\<lparr>c_header_buffer := b\<rparr>) = quiet k d"
  "quiet k (d\<lparr>c_ext_payload_buffer := b\<rparr>) = quiet k d" "quiet k (d\<lparr>c_masking_key_buffer := b\<rparr>) = quiet k d"
  "quiet k (d\<lparr>c_current_header := h\<rparr>) = quiet k d" "quiet k (d\<lparr>c_payload_buffer := b\<rparr>) = quiet k d"
  by (simp_all add: quiet_def flags_ok_def)

lemma quiet_read:
  "read_exact E buf n k = (ok, b, ec, k1) \<Longrightarrow> quiet k k1"
  "read_extended_length E k = (ok, ec, k1) \<Longrightarrow> quiet k k1"
  "read_masking_key E ec0 k = (ok, ec, k1) \<Longrightarrow> quiet k k1"
  by (auto simp: read_exact_def read_extended_length_def read_masking_key_def Let_def split: prod.splits if_splits)

lemma handle_frame_role: "c_role (handle_frame E k) = c_role k"
proof -
  let ?m = "k\<lparr>c_message_buffer := c_message_buffer k @ c_payload_buffer k\<rparr>"
  note t = touchedD(2)
  show ?thesis
    using t [OF fail_protocol_closed(2) [of k E]] t [OF deliver_touched [of k E]] t [OF deliver_touched [of ?m E]]
      t [OF handle_ping_touched [of k E]] t [OF handle_close_touched [of k E]]
    by (auto simp: handle_frame_def Let_def case_prod_unfold reset_fragment_state_def)
qed

text \<open>A round ends with the connection closed, or with the handling of a frame.\<close>

lemma read_payload_round:
  assumes "read_payload E k = Inr (ec, k1)"
  shows "quiet k k1 \<or> (\<exists>e. quiet k e \<and> k1 = handle_frame E e)"
proof (cases "fh_payload_len (c_current_header k) = 0")
  case True
  then have "k1 = handle_frame E k" using assms by (simp add: read_payload_def)
  then show ?thesis using quiet_refl by blast
next
  case False
  then obtain buf where b: "vec_resize (e_alloc E) (unat (fh_payload_len (c_current_header k))) (c_payload_buffer k) = Inr buf"
    using assms by (auto simp: read_payload_def split: sum.splits)
  obtain ok b2 ec2 k2 where r: "read_exact E buf (length buf) k = (ok, b2, ec2, k2)"
    by (cases "read_exact E buf (length buf) k") auto
  have q: "quiet k k2" by (rule quiet_read(1) [OF r])
  show ?thesis
  proof (cases ok)
    case True
    then have "k1 = handle_frame E (if fh_mask (c_current_header k2)
        then k2\<lparr>c_payload_buffer := apply_mask b2 (fh_masking_key (c_current_header k2))\<rparr> else k2\<lparr>c_payload_buffer := b2\<rparr>)"
      using assms False b r by (auto simp: read_payload_def Let_def)
    then show ?thesis using q by (metis quiet_update(6))
  next
    case nok: False
    then have "k1 = k2\<lparr>c_payload_buffer := b2\<rparr>" using assms False b r by (simp add: read_payload_def)
    then show ?thesis using q by simp
  qed
qed

lemma parse_header_round:
  assumes "parse_header E k = Inr (ec, k1)"
  shows "c_role k1 = c_role k \<and> (\<not> c_is_open k1 \<or> quiet k k1 \<or> (\<exists>k2. quiet k k2 \<and> k1 = handle_frame E k2))"
proof -
  let ?k = "k\<lparr>c_current_header :=
    decode_first_octets (c_header_buffer k ! 0) (c_header_buffer k ! 1) (c_current_header k)\<rparr>"
  obtain ok1 ec1 k2 where r1: "read_extended_length E ?k = (ok1, ec1, k2)" by (cases "read_extended_length E ?k") auto
  obtain ok2 ec2 k3 where r2: "read_masking_key E ec1 k2 = (ok2, ec2, k3)" by (cases "read_masking_key E ec1 k2") auto
  obtain valid k4 where r3: "validate_frame_header E k3 = (valid, k4)" by (cases "validate_frame_header E k3") auto
  have "quiet k ?k" by simp
  then have q2: "quiet k k2" by (rule quiet_trans) (rule quiet_read(2) [OF r1])
  then have q3: "quiet k k3" by (rule quiet_trans) (rule quiet_read(3) [OF r2])
  have v: "if valid then k4 = k3 else c_role k4 = c_role k3 \<and> \<not> c_is_open k4"
    using r3 touchedD(2) [OF fail_protocol_closed(2) [of k3 E]]
    by (auto simp: validate_frame_header_def Let_def split: if_splits)
  have "c_role k1 = c_role k \<and>
    (\<not> c_is_open k1 \<or> quiet k k1 \<or> (\<exists>e. quiet k e \<and> k1 = handle_frame E e))"
  proof (cases "ok1 \<and> ok2 \<and> valid")
    case True
    then have "read_payload E k3 = Inr (ec, k1)" using assms r1 r2 r3 v by (simp add: parse_header_def)
    from read_payload_round [OF this] have "quiet k k1 \<or> (\<exists>e. quiet k e \<and> k1 = handle_frame E e)"
      using quiet_trans [OF q3] by blast
    then show ?thesis by (auto simp: quiet_def handle_frame_role)
  next
    case False
    then have "k1 = k2 \<or> k1 = k3 \<or> k1 = k4 \<and> \<not> valid" using assms r1 r2 r3
      by (auto simp: parse_header_def split: if_splits)
    then show ?thesis using q2 q3 v by (auto simp: quiet_def)
  qed
  then show ?thesis by blast
qed

lemma read_round:
  assumes "read_one_frame E k = Inr (again, k1)" and "flags_ok k"
  shows "c_role k1 = c_role k \<and> (c_is_open k1 \<longrightarrow> calm k k1)"
proof (cases "c_is_open k")
  case False
  then show ?thesis using assms by (simp add: read_one_frame_def)
next
  case op: True
  obtain ok b ec k2 where r: "read_exact E (c_header_buffer k) 2 k = (ok, b, ec, k2)"
    by (cases "read_exact E (c_header_buffer k) 2 k") auto
  let ?k = "k2\<lparr>c_header_buffer := b\<rparr>"
  have q: "quiet k ?k" using quiet_read(1) [OF r] by simp
  have err: "c_role ((emit_error_ec E True e d)\<lparr>c_is_open := False\<rparr>) = c_role d" for e d
    using touchedD(2) [OF emit_error_touched(2)] by simp
  show ?thesis
  proof (cases ok)
    case False
    then show ?thesis using assms(1) op r err q by (auto simp: read_one_frame_def quiet_def)
  next
    case True
    obtain ec2 d where p: "parse_header E ?k = Inr (ec2, d)"
        "k1 = (if failed ec2 then (emit_error_ec E True ec2 d)\<lparr>c_is_open := False\<rparr> else d)"
      using assms(1) op r True by (auto simp: read_one_frame_def split: sum.splits if_splits)
    note pr = parse_header_round [OF p(1)]
    have "calm k d" if "c_is_open d"
    proof -
      from that pr consider "quiet ?k d" | e where "quiet ?k e" "d = handle_frame E e" by blast
      then show ?thesis
      proof cases
        case 1
        then show ?thesis using quiet_trans [OF q 1] by (simp add: quiet_def calm_same)
      next
        case 2
        then have "quiet k e" using quiet_trans [OF q] by blast
        moreover have "calm e d" using handle_frame_calm [of e E] 2 that assms(2) \<open>quiet k e\<close> by (simp add: quiet_def)
        ultimately show ?thesis by (intro calm_update [of d d e k]) (simp_all add: quiet_def)
      qed
    qed
    then show ?thesis using p(2) pr err q by (auto simp: quiet_def)
  qed
qed

section \<open>The invariant\<close>

text \<open>When the connection is still open after a round, no callback of the round called \<open>close\<close>.\<close>

lemma close_called_one: "close_called react (length evs) (Suc (length evs)) (evs @ [ev]) = list_ex is_close_call (react (evs @ [ev]))"
  by (simp add: close_called_def)

lemma close_called_none: "\<not> close_called react n n evs"
  by (simp add: close_called_def)

lemma client_read_closes:
  assumes "read_one_frame (ce_env E) ((cl_connection c)\<lparr>c_react := client_react c\<rparr>) = Inr (again, k1)"
    and "flags_ok (cl_connection c)" and "c_is_open k1" and "client_may_close c"
  shows "\<not> close_called (c_react (cl_connection c)) (length (c_events (cl_connection c))) (length (c_events k1)) (c_events k1)"
proof -
  let ?k = "cl_connection c"
  have "flags_ok (?k\<lparr>c_react := client_react c\<rparr>)" using assms(2) by (simp add: flags_ok_def)
  then have "calm (?k\<lparr>c_react := client_react c\<rparr>) k1" using read_round [OF assms(1)] assms(3) by blast
  then consider "c_events k1 = c_events ?k"
    | ev where "c_events k1 = c_events ?k @ [ev]" "\<not> list_ex is_close_call (client_react c (c_events ?k @ [ev]))"
    by (auto simp: calm_def)
  then show ?thesis
  proof cases
    case 1
    then show ?thesis by (simp add: close_called_none)
  next
    case (2 ev)
    then show ?thesis using assms(4)
      by (simp add: close_called_one client_react_def Let_def through_client_close close_called_none)
  qed
qed

text \<open>Every call of the client other than \<open>connect\<close> is a call of its connection, or none.\<close>

primrec conn_part :: "cl_request \<Rightarrow> conn_request option" where
  "conn_part (Cl_connect url) = None"
| "conn_part (Cl_close status_code reason) = Some (Rq_close status_code reason)"
| "conn_part (Cl_send_text txt fin) = Some (Rq_send_text txt fin)"
| "conn_part (Cl_send_binary data fin) = Some (Rq_send_binary data fin)"
| "conn_part (Cl_send_continuation data fin) = Some (Rq_send_continuation (bytes_of_string data) fin)"
| "conn_part (Cl_set_on_open cb) = Some (Rq_set_on_open cb)"
| "conn_part (Cl_set_on_message cb) = Some (Rq_set_on_message cb)"
| "conn_part (Cl_set_on_close cb) = Some (Rq_set_on_close cb)"
| "conn_part (Cl_set_on_error cb) = Some (Rq_set_on_error cb)"
| "conn_part Cl_is_open = None"
| "conn_part Cl_is_ssl = None"
| "conn_part Cl_run = None"
| "conn_part Cl_stop = None"
| "conn_part (Cl_set_ssl_context ctx) = None"
| "conn_part (Cl_enable_permessage_deflate enable) = None"

lemma client_api_conn:
  assumes "client_api E rd r rq c = Some (re, c1)" and "in_client_session rq"
  shows "(cl_connection c1 = cl_connection c \<or>
      (\<exists>q. conn_part rq = Some q \<and> in_session q \<and> cl_connection c1 = snd (connection_api (ce_env E) r q (cl_connection c)))) \<and>
    (cl_is_open c1 = cl_is_open c \<and> cl_is_closing c1 = cl_is_closing c \<or>
      client_may_close c \<and> \<not> cl_is_open c1 \<and> (\<exists>st t. cl_connection c1 = close (ce_env E) r st t (cl_connection c)))"
  using assms
  by (cases rq) (auto simp: in_client_session_def in_session_def client_send_text_def client_send_binary_def
      client_send_continuation_def forward_def client_close_def client_may_close_def client_set_on_open_def
      client_set_on_message_def client_set_on_close_def client_set_on_error_def client_set_ssl_context_def
      enable_permessage_deflate_def returns_code_def case_prod_unfold Let_def split: if_splits, blast+)

lemma api_role: "in_session q \<Longrightarrow> (\<forall>r. q \<noteq> Rq_set_role r) \<Longrightarrow> c_role (snd (connection_api E b q k)) = c_role k"
  using setting_or_call [of q k E b] touchedD(2) [OF run_call_touched [of k E b]]
  by (auto simp: api_run_call setting_only_def)

lemma api_not_open: "in_session q \<Longrightarrow> \<not> c_is_open k \<Longrightarrow> \<not> c_is_open (snd (connection_api E b q k))"
  using setting_or_call [of q k E b] run_call_not_open [of k E b] by (auto simp: api_run_call setting_only_def)

lemma conn_part_role: "conn_part rq = Some q \<Longrightarrow> q \<noteq> Rq_set_role r"
  by (cases rq) auto

context client_stream
begin

lemma client_call_inv:
  assumes "client_inv live (b, c)" and "in_client_session rq" and "client_api E rd False rq c = Some (re, c1)"
  shows "client_inv live (b, c1)"
proof -
  let ?k = "cl_connection c" and ?k1 = "cl_connection c1"
  have i: "conn_inv live ?k" "c_role ?k = role_client" "flags_ok ?k" using assms(1) by (simp_all add: client_inv_def conn_inv_def)
  note a = client_api_conn [OF assms(3,2)]
  have k1: "conn_inv live ?k1 \<and> c_role ?k1 = role_client \<and> (\<not> c_is_open ?k \<longrightarrow> \<not> c_is_open ?k1)"
    using a conn.api_inv [OF i(1)] api_role api_not_open conn_part_role i(1,2) by metis
  show ?thesis
  proof (cases "cl_is_open c1 = cl_is_open c \<and> cl_is_closing c1 = cl_is_closing c")
    case True
    then show ?thesis using k1 assms(1) by (auto simp: client_inv_def)
  next
    case False
    then obtain st t where "client_may_close c" "\<not> cl_is_open c1" "?k1 = close (ce_env E) False st t ?k"
      using a by blast
    moreover from this(3) have "\<not> c_is_open ?k1" using close_not_open [OF i(3)] by simp
    ultimately show ?thesis using k1 assms(1) by (auto simp: client_inv_def client_may_close_def)
  qed
qed

lemma client_read_inv:
  assumes "client_inv live (b, c)" and "c_is_open (cl_connection c)" and "\<not> c_is_closing (cl_connection c)"
    and "client_read E c = Inr (again, c1)"
  shows "client_inv live (b, c1)"
proof -
  let ?k = "cl_connection c"
  let ?r = "?k\<lparr>c_react := client_react c\<rparr>"
  have react: "conn_inv live (k\<lparr>c_react := f\<rparr>) = conn_inv live k" for k :: "'s connection" and f
    by (simp add: conn_inv_def buffers_ok_def flags_ok_def fragments_ok_def)
  have i: "conn_inv live ?r" "flags_ok ?k" "flags_ok ?r" "c_role ?k = role_client" "\<not> cl_is_closing c" "b \<longrightarrow> \<not> cl_is_open c"
    using assms(1,2) by (auto simp: client_inv_def react) (auto simp: conn_inv_def flags_ok_def)
  obtain k1 where k1: "read_one_frame (ce_env E) ?r = Inr (again, k1)" "cl_connection c1 = k1\<lparr>c_react := c_react ?k\<rparr>"
      "cl_is_open c1 = cl_is_open c \<and> cl_is_closing c1 = cl_is_closing c \<or>
       client_may_close c \<and> \<not> cl_is_open c1 \<and> cl_is_closing c1 \<and>
       close_called (c_react ?k) (length (c_events ?k)) (length (c_events k1)) (c_events k1)"
    using assms(4) by (auto simp: client_read_def Let_def split: sum.splits if_splits)
  have "conn_inv live k1" using conn.conn_step_inv [OF i(1) step_read [OF _ _ k1(1)]] assms(2,3) by simp
  moreover have "c_role k1 = role_client" using read_round [OF k1(1) i(3)] i(4) by simp
  ultimately show ?thesis using k1(2,3) i client_read_closes [OF k1(1) i(2)]
    by (auto simp: client_inv_def client_may_close_def react)
qed

lemma client_step_inv:
  assumes "client_inv live p" and "client_step E p q"
  shows "client_inv live q"
  using assms(2)
proof (rule client_stepE)
  fix rq rd c re c1 b
  assume "p = (b, c)" "q = (b, c1)" "in_client_session rq" "client_api E rd False rq c = Some (re, c1)"
  then show ?thesis using client_call_inv assms(1) by blast
next
  fix c again c1 b
  assume "p = (b, c)" "q = (b, c1)" "c_is_open (cl_connection c)" "\<not> c_is_closing (cl_connection c)"
    "client_read E c = Inr (again, c1)"
  then show ?thesis using client_read_inv assms(1) by blast
next
  fix c
  assume "p = (True, c)" "q = (False, c\<lparr>cl_is_open := True\<rparr>)"
  then show ?thesis using assms(1) by (simp add: client_inv_def)
qed

end

section \<open>Properties\<close>

text \<open>
  C9: An invariant of every session of a client.  However the calls of the public class, the rounds of the
  reader and the end of \<open>connect\<close> interleave, and whatever the callbacks do, the invariant of the connection
  holds, its role stays that of a client (so that every frame it sends is masked), \<open>is_open_\<close> and
  \<open>is_closing_\<close> are never both set, and once \<open>close\<close> has taken effect, from whichever thread, the
  connection is not open.
\<close>

theorem client_invariant:
  assumes "client_stream E live inbound outbound fits" and "client_inv live (connecting, c)"
    and "client_session E (connecting, c) (connecting1, c1)"
  shows "conn_inv live (cl_connection c1) \<and> c_role (cl_connection c1) = role_client \<and>
    (cl_is_closing c1 \<longrightarrow> \<not> client_is_open c1 \<and> \<not> c_is_open (cl_connection c1))"
proof -
  have "client_inv live q" if "client_session E (connecting, c) q" for q
    using that unfolding client_session_def
  proof (induction rule: rtranclp_induct)
    case base
    show ?case by (rule assms(2))
  next
    case (step p q)
    then show ?case using client_stream.client_step_inv [OF assms(1)] by blast
  qed
  from this [OF assms(3)] show ?thesis by (auto simp: client_inv_def client_is_open_def)
qed

theorem client_invariant_witness:
  "\<exists>c1. client_session mem_cl_env
       (True, (client_new (mem_sock [] 4) (\<lambda>n. 0) (\<lambda>_. []) ())\<lparr>cl_connection := mem_conn role_client (\<lambda>_. []) []\<rparr>) (False, c1) \<and>
     cl_is_closing c1 \<and> \<not> c_is_open (cl_connection c1)"
proof -
  let ?c = "(client_new (mem_sock [] 4) (\<lambda>n. 0) (\<lambda>_. []) ())\<lparr>cl_connection := mem_conn role_client (\<lambda>_. []) []\<rparr>"
  let ?o = "?c\<lparr>cl_is_open := True\<rparr>"
  let ?d = "client_close mem_cl_env False 1000 ''bye'' ?o"
  have "client_step mem_cl_env (True, ?c) (False, ?o)" by (rule ck_opened)
  moreover have "client_step mem_cl_env (False, ?o) (False, ?d)"
    by (rule ck_call [of "Cl_close 1000 ''bye''"]) (simp_all add: in_client_session_def)
  ultimately have s: "client_session mem_cl_env (True, ?c) (False, ?d)"
    unfolding client_session_def by (blast intro: converse_rtranclp_into_rtranclp)
  have "conn_inv (ls_live mem_connected) (mem_conn role_client (\<lambda>_. []) [])"
    by (simp add: conn_inv_def mem_sock_live) (simp add: flags_ok_def fragments_ok_def mem_conn_def connection_new_def)
  then have "client_inv (ls_live mem_connected) (True, ?c)" by (simp add: client_inv_def client_new_def)
  from client_invariant [OF mem_client.client_stream_axioms this s] have "cl_is_closing ?d \<longrightarrow> \<not> c_is_open (cl_connection ?d)"
    by blast
  moreover have "cl_is_closing ?d" by (simp add: client_close_def client_new_def)
  ultimately show ?thesis using s by blast
qed

end
