(* ===== verification/Echo.thy ===== *)
theory Echo
  imports Dialogue Client_Steps
begin

text \<open>
  The example programs (\<open>examples/\<close>): an echo server and a client for it, with and without TLS.  Their
  callbacks are values of the parameters \<open>c_react\<close> and \<open>se_greet\<close> that stand for user code elsewhere, so
  that the theorems about connections apply to a whole program.  \<open>main\<close> takes the list \<open>argv\<close>; output on
  the console is left out.
\<close>

section \<open>Arguments\<close>

text \<open>
  \<open>std::atoi\<close>: white space, an optional sign, decimal digits.  The behaviour for a value that no \<open>int\<close>
  holds is undefined: \<open>None\<close>.
\<close>

definition is_space :: "char \<Rightarrow> bool" where
  "is_space ch \<longleftrightarrow> ch \<in> {CHR '' '', CHR 0x09, CHR 0x0A, CHR 0x0B, CHR 0x0C, CHR 0x0D}"

definition is_digit :: "char \<Rightarrow> bool" where
  "is_digit ch \<longleftrightarrow> 48 \<le> (of_char ch :: nat) \<and> (of_char ch :: nat) \<le> 57"

definition digits_value :: "string \<Rightarrow> nat" where
  "digits_value ds = foldl (\<lambda>n ch. 10 * n + (of_char ch - 48)) 0 ds"

definition atoi :: "string \<Rightarrow> int option" where
  "atoi s =
     (let s = dropWhile is_space s;
          neg = (s \<noteq> [] \<and> hd s = CHR ''-'');
          s = (if s \<noteq> [] \<and> (hd s = CHR ''-'' \<or> hd s = CHR ''+'') then drop 1 s else s);
          v = int (digits_value (takeWhile is_digit s));
          v = (if neg then - v else v)
      in if - (2 ^ 31) \<le> v \<and> v < 2 ^ 31 then Some v else None)"

text \<open>\<open>static_cast<uint16_t>(std::atoi(s))\<close>\<close>

definition port_arg :: "string \<Rightarrow> u16 option" where
  "port_arg s = map_option word_of_int (atoi s)"

record tls_options =
  opt_port :: u16
  opt_cert :: string
  opt_key :: string

text \<open>The loop over the arguments of the TLS server: the options, or the exit status after the usage text.\<close>

fun tls_args :: "string list \<Rightarrow> tls_options \<Rightarrow> (int + tls_options) option" where
  "tls_args [] opts = Some (Inr opts)"
| "tls_args (arg # rest) opts =
     (if arg = ''--port'' \<and> rest \<noteq> []
      then case port_arg (hd rest) of None \<Rightarrow> None | Some p \<Rightarrow> tls_args (tl rest) (opts\<lparr>opt_port := p\<rparr>)
      else if arg = ''--cert'' \<and> rest \<noteq> [] then tls_args (tl rest) (opts\<lparr>opt_cert := hd rest\<rparr>)
      else if arg = ''--key'' \<and> rest \<noteq> [] then tls_args (tl rest) (opts\<lparr>opt_key := hd rest\<rparr>)
      else if arg = ''--help'' \<or> arg = ''-h'' then Some (Inl 0)
      else Some (Inl 1))"

definition tls_defaults :: tls_options where
  "tls_defaults = \<lparr>opt_port = 8443, opt_cert = ''cert.pem'', opt_key = ''key.pem''\<rparr>"

section \<open>The servers\<close>

text \<open>The callback on messages that \<open>on_connection\<close> installs, and what else it installs.\<close>

definition echo_text :: "bytes \<Rightarrow> string" where
  "echo_text data = ''Echo: '' @ string_of_bytes data"

definition echo_react :: "event list \<Rightarrow> api_call list" where
  "echo_react evs =
     (if evs = [] then [] else case last evs of Ev_message data opc \<Rightarrow> [Call_send_text (echo_text data) True] | _ \<Rightarrow> [])"

definition echo_greet :: "nat \<Rightarrow> conn_op list" where
  "echo_greet i = [Op_on_message, Op_on_close]"

definition tls_echo_greet :: "nat \<Rightarrow> conn_op list" where
  "tls_echo_greet i = [Op_on_message]"

text \<open>
  \<open>listen\<close>, \<open>start\<close> and \<open>join\<close>: an exit status, or the server that \<open>main\<close> waits for; \<open>None\<close> is undefined
  behaviour of \<open>atoi\<close> or \<open>std::terminate\<close>.
\<close>

definition serve :: "'a acc_os \<Rightarrow> u16 \<Rightarrow> ('s, 'a) server \<Rightarrow> (int + ('s, 'a) server) option" where
  "serve A port sv =
     (let (ec, sv) = server_listen_any A port sv in
      if failed ec then Some (Inl 1)
      else case server_start sv of
             None \<Rightarrow> None
           | Some (ec, sv) \<Rightarrow> if failed ec then Some (Inl 1) else Some (Inr sv))"

definition echo_server_main :: "'a acc_os \<Rightarrow> ssl_ctx \<Rightarrow> 'a \<Rightarrow> string list \<Rightarrow> (int + ('s, 'a) server) option" where
  "echo_server_main A ctx a argv =
     (case (if length argv > 1 then port_arg (argv ! 1) else Some 8080) of
        None \<Rightarrow> None
      | Some port \<Rightarrow>
          let sv = server_new ctx a;
              sv = server_set_on_connection True sv;
              sv = server_set_on_error True sv
          in serve A port sv)"

definition tls_server_main ::
  "'o openssl \<Rightarrow> 'a acc_os \<Rightarrow> ssl_ctx \<Rightarrow> 'o \<Rightarrow> 'a \<Rightarrow> string list \<Rightarrow> (int + ('s, 'a) server) option" where
  "tls_server_main X A ctx x a argv =
     (case tls_args (drop 1 argv) tls_defaults of
        None \<Rightarrow> None
      | Some (Inl status) \<Rightarrow> Some (Inl status)
      | Some (Inr opts) \<Rightarrow>
          let (ec, ssl_ctx, x) = make_ssl_context X ctx_server x in
          if failed ec then Some (Inl 1)
          else let (cert_ok, x) = use_certificate_chain_file X ssl_ctx (opt_cert opts) x in
               if \<not> cert_ok then Some (Inl 1)
               else let (key_ok, x) = use_private_key_file X ssl_ctx (opt_key opts) x in
                    if \<not> key_ok then Some (Inl 1)
                    else let sv = server_new ctx a;
                             sv = server_set_ssl_context ssl_ctx sv;
                             sv = server_set_on_connection True sv
                         in serve A (opt_port opts) sv)"

section \<open>The clients\<close>

definition tls_hello :: string where "tls_hello = ''Hello over TLS!''"

definition greet_react :: "string \<Rightarrow> event list \<Rightarrow> api_call list" where
  "greet_react greeting evs =
     (if evs = [] then []
      else case last evs of
             Ev_open \<Rightarrow> [Call_send_text greeting True]
           | Ev_message data opc \<Rightarrow> [Call_close 1000 []]
           | _ \<Rightarrow> [])"

text \<open>\<open>~client\<close>: \<open>stop\<close>, then the connection is destroyed.\<close>

definition client_destroy :: "('s, 'o) cl_env \<Rightarrow> ('s, 'o) client \<Rightarrow> ('s, 'o) client" where
  "client_destroy E c =
     (let c = client_stop c in c\<lparr>cl_connection := connection_destroy (ce_env E) False (cl_connection c)\<rparr>)"

definition client_callbacks :: "('s, 'o) client \<Rightarrow> ('s, 'o) client" where
  "client_callbacks c =
     client_set_on_error True (client_set_on_close True (client_set_on_message True (client_set_on_open True c)))"

text \<open>Up to \<open>n\<close> rounds of the reader thread; \<open>Inl\<close> an exception that ends the process.\<close>

fun reader_rounds :: "('s, 'o) cl_env \<Rightarrow> nat \<Rightarrow> ('s, 'o) client \<Rightarrow> exn + ('s, 'o) client" where
  "reader_rounds E 0 c = Inr c"
| "reader_rounds E (Suc n) c =
     (if c_is_open (cl_connection c) \<and> \<not> c_is_closing (cl_connection c)
      then case client_read E c of
             Inl e \<Rightarrow> Inl e
           | Inr (again, c1) \<Rightarrow> if again then reader_rounds E n c1 else Inr c1
      else Inr c)"

text \<open>
  \<open>main\<close> of both clients, from the object \<open>cli\<close> on.  The reader thread runs beside \<open>main\<close> from \<open>connect\<close> on until
  the destructor joins it: \<open>n\<close> is the number of rounds it gets to make until then, \<open>run\<close> included.
\<close>

definition client_main ::
  "('s, 'o) cl_env \<Rightarrow> (nat \<Rightarrow> u32) \<Rightarrow> nat \<Rightarrow> string list \<Rightarrow> ('s, 'o) client \<Rightarrow> (int \<times> ('s, 'o) client) option" where
  "client_main E rd n argv c =
     (if length argv < 2 then Some (1, c)
      else case client_connect E rd (argv ! 1) (client_callbacks c) of
             None \<Rightarrow> None
           | Some (ec, c) \<Rightarrow>
               if failed ec then Some (1, client_destroy E c)
               else case reader_rounds E n c of
                      Inl e \<Rightarrow> None
                    | Inr c \<Rightarrow> let c = client_run c in Some (0, client_destroy E c))"


definition tls_client_main ::
  "('s, 'o) cl_env \<Rightarrow> (nat \<Rightarrow> u32) \<Rightarrow> nat \<Rightarrow> string list \<Rightarrow> 's \<Rightarrow> rng \<Rightarrow> 'o \<Rightarrow> (int \<times> ('s, 'o) client) option" where
  "tls_client_main E rd n argv s gen x = client_main E rd n argv (client_new s gen (greet_react tls_hello) x)"

section \<open>Arguments and start\<close>

text \<open>
  A port in decimal is read as itself; a number above 65535 that an \<open>int\<close> still holds is reduced modulo
  \<open>2 ^ 16\<close> without notice.
\<close>

lemma of_char_digit: "n < 10 \<Longrightarrow> (of_char (char_of (48 + n) :: char) :: nat) = 48 + n"
  by (simp add: of_char_of)

lemma nat_digits_value: "digits_value (nat_digits n) = n \<and> list_all is_digit (nat_digits n) \<and> nat_digits n \<noteq> []"
proof (induction n rule: nat_digits.induct)
  case (1 n)
  have d: "(of_char (char_of (48 + n mod 10) :: char) :: nat) = 48 + n mod 10" by (rule of_char_digit) simp
  show ?case
  proof (cases "n < 10")
    case True
    then show ?thesis using of_char_digit [OF True] by (simp add: nat_digits.simps [of n] digits_value_def is_digit_def)
  next
    case False
    then show ?thesis using "1.IH" d by (simp add: nat_digits.simps [of n] digits_value_def is_digit_def)
  qed
qed

lemma digit_start: "is_digit ch \<Longrightarrow> \<not> is_space ch \<and> ch \<noteq> CHR ''-'' \<and> ch \<noteq> CHR ''+''"
  by (auto simp: is_digit_def is_space_def)

lemma port_arg_digits:
  assumes "n < 2 ^ 31"
  shows "port_arg (nat_digits n) = Some (of_nat n)"
proof -
  note v = nat_digits_value [of n]
  obtain ch ds where c: "nat_digits n = ch # ds" using v by (cases "nat_digits n") auto
  have t: "takeWhile is_digit (nat_digits n) = nat_digits n" using v by (simp add: list_all_iff)
  have "is_digit ch" using v c by simp
  from digit_start [OF this] have "dropWhile is_space (nat_digits n) = nat_digits n" "hd (nat_digits n) \<noteq> CHR ''-''"
      "hd (nat_digits n) \<noteq> CHR ''+''" using c by simp_all
  then show ?thesis using v assms by (simp add: port_arg_def atoi_def Let_def t)
qed

lemma port_wraps: "port_arg (nat_digits (65536 + 80)) = Some 80"
  by (subst port_arg_digits) simp_all

text \<open>A server that \<open>main\<close> waits for is listening and has its accept thread.\<close>

lemma serve_running:
  assumes "serve A port sv = Some (Inr sv1)"
  shows "sv_is_running sv1 \<and> sv_thread sv1 \<and> sv_ssl_enabled sv1 = sv_ssl_enabled sv \<and>
    sv_ssl_context sv1 = sv_ssl_context sv \<and> sv_on_connection sv1 = sv_on_connection sv"
  using assms
  by (auto simp: serve_def server_listen_any_def server_listen_def server_start_def Let_def
      split: prod.splits if_splits option.splits)

text \<open>The TLS server of the example never serves without TLS.\<close>

lemma tls_server_main_secure:
  assumes "tls_server_main X A ctx x a argv = Some (Inr sv)"
  shows "sv_is_running sv \<and> sv_thread sv \<and> sv_ssl_enabled sv \<and> sv_ssl_context sv \<noteq> None"
proof -
  obtain c port where "serve A port (server_set_on_connection True (server_set_ssl_context (Some c) (server_new ctx a))) = Some (Inr sv)"
    using assms
    by (auto simp: tls_server_main_def Let_def split: prod.splits if_splits option.splits sum.splits
        dest!: make_ssl_context_result)
  from serve_running [OF this] show ?thesis
    by (simp add: server_set_on_connection_def server_set_ssl_context_def)
qed

section \<open>The callbacks\<close>

lemma echo_sends_only: "list_all (\<lambda>a. \<not> is_close_call a) (echo_react evs)"
  by (simp add: echo_react_def is_close_call_def split: event.splits)

lemma echo_bytes: "bytes_of_string (echo_text data) = bytes_of_string ''Echo: '' @ data"
  unfolding echo_text_def bytes_of_string_append by simp

section \<open>Echoes\<close>

text \<open>A connection whose message callback is that of the example, and the frames it sends back.\<close>

definition echoes :: "'s connection \<Rightarrow> bool" where
  "echoes b \<longleftrightarrow> (\<forall>evs d opc. c_react b (evs @ [Ev_message d opc]) = [Call_send_text (echo_text d) True])"

definition echo_wire :: "message list \<Rightarrow> bytes" where
  "echo_wire ms = concat (map (\<lambda>m. encode_frame True False TEXT None (bytes_of_string (echo_text (snd m)))) ms)"

definition echo_events :: "message list \<Rightarrow> event list" where
  "echo_events ms = map (\<lambda>m. Ev_message (bytes_of_string (echo_text (snd m))) TEXT) ms"

context stream_env
begin

lemma echo_answers:
  assumes "echoes b" and "c_role b = role_server" and "\<not> c_permessage_deflate b"
    and "\<forall>m \<in> set ms. length (echo_text (snd m)) < 2 ^ 63 \<and> fits (length (echo_text (snd m)) + 14)"
  shows "answers b (\<lambda>m. encode_frame True False TEXT None (bytes_of_string (echo_text (snd m)))) ms"
  unfolding answers_def
proof (intro ballI allI impI)
  fix m c
  assume m: "m \<in> set ms" and c: "ready c" "c_role c = c_role b" "c_react c = c_react b"
    "c_permessage_deflate c = c_permessage_deflate b"
  let ?d = "bytes_of_string (echo_text (snd m))"
  let ?k = "log_event True (message_event m) c"
  have k: "ready ?k" "here ?k (inbound (c_socket c)) (outbound (c_socket c))" "\<not> c_permessage_deflate ?k" "c_role ?k = role_server"
    using c assms(2,3) by (auto simp: conn_ready_def buffers_ok_def here_def log_event_def)
  have len: "length ?d < 2 ^ 64" "fits (length ?d + 14)" using assms(4) m by force+
  obtain c1 key where s: "send_data_frame E TEXT ?d True ?k = (no_error, c1)"
      "here c1 (inbound (c_socket c)) (outbound (c_socket c) @ encode_frame True False TEXT key ?d)" "key = None"
    using send_data_frame_sent [OF k(1) len(1) k(2) len(2), of True TEXT] k(3,4) by auto
  have "c_react ?k (c_events ?k) = [Call_send_text (echo_text (snd m)) True]"
    using c(3) assms(1) by (simp add: log_event_def echoes_def message_event_def)
  then have "fire E True True (message_event m) c = c1" using s(1) by (simp add: fire_def send_text_def)
  then show "outbound (c_socket (fire E True True (message_event m) c)) = outbound (c_socket c) @ encode_frame True False TEXT None ?d"
    using s(2,3) by (auto simp: here_def)
qed

end

lemma utf8_echo: "is_valid_utf8 (bytes_of_string ''Echo: '' @ d) = is_valid_utf8 d"
proof -
  have "list_all (\<lambda>b. b \<le> 0x7F) (bytes_of_string ''Echo: '')" by code_simp
  then show ?thesis by (simp add: is_valid_utf8_seqs valid_seqs_ascii list_all_iff)
qed

lemma echo_ne: "bytes_of_string ''Echo: '' \<noteq> []"
  by (simp add: bytes_of_string_def)

text \<open>The echoes on the wire are the frames of the echoed messages.\<close>

lemma wire_echoes:
  "wire_frames False (map (\<lambda>m. (TEXT, True, bytes_of_string (echo_text (snd m)))) ms)
     (concat (map (\<lambda>m. encode_frame True False TEXT None (bytes_of_string (echo_text (snd m)))) ms))"
  by (induction ms) (auto intro!: wire_Nil wire_Cons)

lemma assemble_whole: "assemble None (map (\<lambda>m. (TEXT, True, f m)) ms) = Some (None, map (\<lambda>m. (TEXT, f m)) ms)"
  by (induction ms) simp_all

section \<open>Properties\<close>

text \<open>A client that has sent is as ready to read as before.\<close>

lemma client_after_sending:
  assumes "stream_env E live inbound outbound fits" and "conn_ready live a" and "c_on_message a" and "sends_only a"
    and "c_role a = role_client" and "\<not> c_permessage_deflate a" and "\<not> c_message_compressed a" and "pending a = None"
    and "send_all E fs a = (ec, k)"
    and "\<forall>(opc, fin, d) \<in> set fs. length d < 2 ^ 64 \<and> fits (length d + 14)"
  shows "conn_ready live k \<and> c_on_message k \<and> sends_only k \<and> c_role k = role_client \<and> \<not> c_message_compressed k \<and>
    pending k = None \<and> inbound (c_socket k) = inbound (c_socket a)"
proof -
  have "stream_env.here live inbound outbound a (inbound (c_socket a)) (outbound (c_socket a))"
    using assms(2) by (simp add: stream_env.here_def [OF assms(1)] conn_ready_def)
  from stream_env.send_all_sent [OF assms(1,2) this assms(6,10)] assms(9)
  have k: "touched a k" "conn_ready live k" "inbound (c_socket k) = inbound (c_socket a)"
    by (auto simp: stream_env.here_def [OF assms(1)])
  then show ?thesis using touchedD [OF k(1)] assms(3-5,7,8) by (simp add: sends_only_def pending_def split: if_splits)
qed

lemma echo_frames:
  fixes a :: "'s connection" and b :: "'t connection"
  assumes "stream_env E alive ain aout afits" and "stream_env F live inbound outbound fits"
    and "conn_ready alive a" and "\<not> c_permessage_deflate a" and "c_role a = role_client" and "send_all E fs a = (ec, a1)"
    and "accepted live b" and "echoes b" and "sends_only b"
    and "inbound (c_socket b) = drop (length (aout (c_socket a))) (aout (c_socket a1)) @ rest"
    and "assemble None fs = Some (st, ms)" and "list_all message_ok ms"
    and "\<forall>(opc, fin, d) \<in> set fs. d \<noteq> [] \<and> length d < 2 ^ 63 \<and> e_alloc F (length d) \<and>
      afits (length d + 14) \<and> fits (length d)"
    and "\<forall>m \<in> set ms. length (echo_text (snd m)) < 2 ^ 63 \<and> fits (length (echo_text (snd m)) + 14)"
  shows "ec = no_error \<and> (\<exists>b1. read_loop F b = read_loop F b1 \<and> c_events b1 = map message_event ms \<and>
    outbound (c_socket b1) = outbound (c_socket b) @ echo_wire ms)"
proof -
  have b: "conn_ready live b" "c_on_message b" "\<not> c_message_compressed b" "c_role b = role_server" "\<not> c_permessage_deflate b"
      "c_role a \<noteq> c_role b" "assemble (pending b) fs = Some (st, ms)" "c_events b = []"
    using assms(5,7,11) by (simp_all add: accepted_def)
  from frames_arrive [OF assms(1-4) b(6) assms(6) b(1) assms(9) b(2,3) assms(10) b(7) assms(12,13)]
  obtain b1 where b1: "ec = no_error" "read_loop F b = read_loop F b1" "c_events b1 = map message_event ms"
      "\<forall>reply. stream_env.answers F live outbound b reply ms \<longrightarrow>
         outbound (c_socket b1) = outbound (c_socket b) @ concat (map reply ms)" using b(8) by auto
  from b1(4) stream_env.echo_answers [OF assms(2,8) b(4,5) assms(14)]
  show ?thesis using b1(1-3) unfolding echo_wire_def by blast
qed

lemma echo_received:
  assumes "stream_env E live inbound outbound fits" and "conn_ready live a" and "c_role a = role_client" and "sends_only a"
    and "c_on_message a" and "\<not> c_message_compressed a" and "pending a = None"
    and "inbound (c_socket a) = echo_wire ms @ rest" and "list_all (\<lambda>m. is_valid_utf8 (snd m)) ms"
    and "\<forall>m \<in> set ms. length (echo_text (snd m)) < 2 ^ 63 \<and> e_alloc E (length (echo_text (snd m))) \<and>
      fits (length (echo_text (snd m)))"
  shows "\<exists>a1. read_loop E a = read_loop E a1 \<and> inbound (c_socket a1) = rest \<and> c_events a1 = c_events a @ echo_events ms"
proof -
  let ?es = "map (\<lambda>m. (TEXT, True, bytes_of_string (echo_text (snd m)))) ms"
  have es: "list_all message_ok (map (\<lambda>m. (TEXT, bytes_of_string (echo_text (snd m)))) ms)"
      "\<forall>(opc, fin, d) \<in> set ?es. d \<noteq> [] \<and> length d < 2 ^ 63 \<and> e_alloc E (length d) \<and> fits (length d)"
    using assms(9,10) by (auto simp: list_all_iff message_ok_def echo_bytes utf8_echo echo_ne) (auto simp: echo_text_def)
  have w: "wire_frames (c_role a = role_server) ?es (echo_wire ms)" using wire_echoes assms(3) by (simp add: echo_wire_def)
  from stream_env.read_loop_refines_assembly [OF assms(1) w assms(8,2,4-6) _ es] assms(7) assemble_whole
  show ?thesis by (fastforce simp: message_event_def comp_def echo_events_def)
qed

text \<open>
  C10: The echo programs, end to end.  The server of the examples, plain or TLS, accepts the client's
  connection, made without permessage-deflate.  Whatever legal sequence of data frames with non-empty payloads
  the client then sends, its text messages being UTF-8, the server sends back, for each message they make
  up, in order, one text frame with the message behind \<open>Echo: \<close>, and nothing else.  If the binary messages are
  UTF-8, too, the client's callback is called with exactly these texts.
\<close>

theorem echo_session:
  fixes c d :: "('s, 'o) client" and sv :: "('t, 'a) server"
  defines "j \<equiv> length (sv_objects sv)"
  assumes "client_stream E clive cin cout cfits" and "server_stream F slive sin sout sfits"
    and "parse_url url = info" and "texts_ok E F rd info"
    and "open_transport E info c = (no_error, d)" and "clive (c_socket (cl_connection d))" and "fresh_client d"
    and "\<not> c_on_open (cl_connection d)" and "c_on_message (cl_connection d)" and "sends_only (cl_connection d)"
    and "accept_setup F fd sv = (True, sv1)" and "slive (c_socket (sv_conn sv1 j))"
    and "sv_on_connection sv" and "se_greet F j \<in> {echo_greet j, tls_echo_greet j}" and "se_react F j = echo_react"
    and "sin (c_socket (sv_conn sv1 j)) = bytes_of_string (client_request E rd info d) @ up"
    and "cin (c_socket (cl_connection d)) =
           bytes_of_string (server_response F (generate_key (ce_crypto E) rd) False) @ down"
    and "cfits (length (client_request E rd info d))"
    and "sfits (length (server_response F (generate_key (ce_crypto E) rd) False))"
  shows "\<exists>c1 sv2. client_connect E rd url c = Some (no_error, c1) \<and> handle_accept F fd sv = Some sv2 \<and>
    c_events (cl_connection c1) = c_events (cl_connection d) \<and>
    (\<forall>fs ec k st ms rest rest2. send_all (ce_env E) fs (cl_connection c1) = (ec, k) \<and>
       up = drop (length (cout (c_socket (cl_connection c1)))) (cout (c_socket k)) @ rest \<and>
       assemble None fs = Some (st, ms) \<and> list_all message_ok ms \<and>
       (\<forall>(opc, fin, d) \<in> set fs. d \<noteq> [] \<and> length d < 2 ^ 63 \<and> e_alloc (se_env F) (length d) \<and>
          cfits (length d + 14) \<and> sfits (length d)) \<and>
       (\<forall>m \<in> set ms. length (echo_text (snd m)) < 2 ^ 63 \<and> e_alloc (ce_env E) (length (echo_text (snd m))) \<and>
          sfits (length (echo_text (snd m)) + 14) \<and> cfits (length (echo_text (snd m)))) \<longrightarrow>
       ec = no_error \<and>
       (\<exists>b1. read_loop (se_env F) (sv_conn sv2 j) = read_loop (se_env F) b1 \<and> c_events b1 = map message_event ms \<and>
          sout (c_socket b1) = sout (c_socket (sv_conn sv2 j)) @ echo_wire ms \<and>
          (down = drop (length (sout (c_socket (sv_conn sv2 j)))) (sout (c_socket b1)) @ rest2 \<and>
           list_all (\<lambda>m. is_valid_utf8 (snd m)) ms \<longrightarrow>
             (\<exists>k1. read_loop (ce_env E) k = read_loop (ce_env E) k1 \<and> c_events k1 = c_events k @ echo_events ms))))"
proof -
  have gr: "list_all sets_callback (se_greet F j)" "Op_on_message \<in> set (se_greet F j)"
    using assms(15) by (auto simp: echo_greet_def tls_echo_greet_def sets_callback_def)
  then have gi: "sv_on_connection sv \<longrightarrow> list_all sets_callback (se_greet F (length (sv_objects sv)))" by (simp add: j_def)
  from meet [OF assms(2-12) assms(13) [unfolded j_def] gi assms(17) [unfolded j_def] assms(18-20), folded j_def]
  obtain c1 sv2 b where
    c1: "client_connect E rd url c = Some (no_error, c1)" "conn_ready clive (cl_connection c1)"
      "fresh_client (c1\<lparr>cl_is_open := False, cl_request_deflate := False\<rparr>)" "c_on_message (cl_connection c1)"
      "sends_only (cl_connection c1)" "c_events (cl_connection c1) = c_events (cl_connection d)"
      "cin (c_socket (cl_connection c1)) = down" and
    b: "handle_accept F fd sv = Some sv2" "sv_conn sv2 j = b" "accepted slive b" "sin (c_socket b) = up" and
    react: "\<forall>evs. c_react b evs = [] \<or> c_react b evs = se_react F j evs"
      "\<forall>evs x opc. c_react b (evs @ [Ev_message x opc]) = se_react F j (evs @ [Ev_message x opc])"
    using assms(14) gr(2) by blast
  have eb: "echoes b" using react(2) assms(16) by (simp add: echoes_def echo_react_def)
  have sb: "sends_only b" unfolding sends_only_def using react(1) assms(16) echo_sends_only by (metis list.pred_inject(1))
  have k0: "c_role (cl_connection c1) = role_client" "\<not> c_permessage_deflate (cl_connection c1)"
      "\<not> c_message_compressed (cl_connection c1)" "pending (cl_connection c1) = None"
    using c1(3) by (simp_all add: fresh_client_def Let_def)
  have E: "stream_env (ce_env E) clive cin cout cfits" and F: "stream_env (se_env F) slive sin sout sfits"
    using assms(2,3) by (simp_all add: client_stream_def server_stream_def exact_stream_def stream_env_def)
  show ?thesis
  proof (intro exI [of _ c1] exI [of _ sv2] conjI c1(1,6) b(1), intro allI impI, elim conjE)
    fix fs ec k st ms rest rest2
    assume h: "send_all (ce_env E) fs (cl_connection c1) = (ec, k)"
      "up = drop (length (cout (c_socket (cl_connection c1)))) (cout (c_socket k)) @ rest"
      "assemble None fs = Some (st, ms)" "list_all message_ok ms"
      "\<forall>(opc, fin, d) \<in> set fs. d \<noteq> [] \<and> length d < 2 ^ 63 \<and> e_alloc (se_env F) (length d) \<and>
         cfits (length d + 14) \<and> sfits (length d)"
      and ms: "\<forall>m \<in> set ms. length (echo_text (snd m)) < 2 ^ 63 \<and> e_alloc (ce_env E) (length (echo_text (snd m))) \<and>
         sfits (length (echo_text (snd m)) + 14) \<and> cfits (length (echo_text (snd m)))"
    obtain b1 where b1: "ec = no_error" "read_loop (se_env F) b = read_loop (se_env F) b1" "c_events b1 = map message_event ms"
        "sout (c_socket b1) = sout (c_socket b) @ echo_wire ms"
      using echo_frames [OF E F c1(2) k0(2,1) h(1) b(3) eb sb _ h(3,4,5)] b(4) h(2) ms by blast
    have "\<forall>(opc, fin, d) \<in> set fs. length d < 2 ^ 64 \<and> cfits (length d + 14)" using h(5) by fastforce
    note k = client_after_sending [OF E c1(2,4,5) k0 h(1) this]
    have "\<exists>k1. read_loop (ce_env E) k = read_loop (ce_env E) k1 \<and> c_events k1 = c_events k @ echo_events ms"
      if "down = echo_wire ms @ rest2" "list_all (\<lambda>m. is_valid_utf8 (snd m)) ms"
      using echo_received [OF E, of k ms rest2] k that c1(7) ms by simp blast
    then show "ec = no_error \<and>
       (\<exists>b1. read_loop (se_env F) (sv_conn sv2 j) = read_loop (se_env F) b1 \<and> c_events b1 = map message_event ms \<and>
          sout (c_socket b1) = sout (c_socket (sv_conn sv2 j)) @ echo_wire ms \<and>
          (down = drop (length (sout (c_socket (sv_conn sv2 j)))) (sout (c_socket b1)) @ rest2 \<and>
           list_all (\<lambda>m. is_valid_utf8 (snd m)) ms \<longrightarrow>
             (\<exists>k1. read_loop (ce_env E) k = read_loop (ce_env E) k1 \<and> c_events k1 = c_events k @ echo_events ms)))"
      using b1 unfolding b(2) by (intro conjI exI [of _ b1]) simp_all
  qed
qed

text \<open>A client says \<open>Hi\<close> to the TLS echo server, in memory.\<close>

definition hi :: message where
  "hi = (TEXT, [72, 105])"

definition hi_client :: "(mem_world ls, unit) client" where
  "hi_client = wss_client (wss_answer @ echo_wire [hi])"

definition hi_up :: bytes where
  "hi_up =
     (let k = cl_connection (snd (the (client_connect wss_cl_env (\<lambda>n. 0) ''wss://h'' hi_client)));
          k1 = snd (send_all (ce_env wss_cl_env) [(TEXT, True, [72, 105])] k)
      in drop (length (tls_stream (\<lambda>w h. mw_out w) (c_socket k))) (tls_stream (\<lambda>w h. mw_out w) (c_socket k1)))"

definition hi_sv_env :: "mem_world ls sv_env" where
  "hi_sv_env = (wss_sv_env (wss_request @ hi_up))\<lparr>se_greet := tls_echo_greet, se_react := (\<lambda>i. echo_react)\<rparr>"

definition hi_server :: "(mem_world ls, unit) server" where
  "hi_server = server_set_on_connection True wss_server"

interpretation hi_server: server_stream hi_sv_env "tls_live (\<lambda>w h. True)" "tls_stream (\<lambda>w h. mw_in w)"
  "tls_stream (\<lambda>w h. mw_out w)" int_size
  by (rule mem_tls.session_server) (simp add: hi_sv_env_def wss_sv_env_def)

lemma hi_accepts:
  "\<exists>sv1. accept_setup hi_sv_env 3 hi_server = (True, sv1) \<and> c_socket (sv_conn sv1 0) = wss_open (wss_request @ hi_up)"
  by (simp add: hi_sv_env_def hi_server_def server_set_on_connection_def wss_accept_defs)

theorem echo_session_witness:
  "\<exists>c1 k k1. client_connect wss_cl_env (\<lambda>n. 0) ''wss://h'' hi_client = Some (no_error, c1) \<and>
    send_all (ce_env wss_cl_env) [(TEXT, True, [72, 105])] (cl_connection c1) = (no_error, k) \<and>
    read_loop (ce_env wss_cl_env) k = read_loop (ce_env wss_cl_env) k1 \<and>
    c_events k1 = c_events k @ [Ev_message (bytes_of_string ''Echo: Hi'') TEXT]"
proof -
  let ?c = hi_client and ?F = hi_sv_env and ?fs = "[(TEXT, True, [72, 105])]" and ?out = "tls_stream (\<lambda>w h. mw_out w)"
  let ?d = "?c\<lparr>cl_connection := (cl_connection ?c)\<lparr>c_socket := wss_open (wss_answer @ echo_wire [hi])\<rparr>\<rparr>"
  have u: "parse_url ''wss://h'' = wss_url" unfolding wss_url_def by code_simp
  obtain sv1 where sv1: "accept_setup ?F 3 hi_server = (True, sv1)" "c_socket (sv_conn sv1 0) = wss_open (wss_request @ hi_up)"
    using hi_accepts by blast
  have op: "open_transport wss_cl_env wss_url ?c = (no_error, ?d)" unfolding hi_client_def by (rule wss_opens)
  have d: "fresh_client ?d" "\<not> c_on_open (cl_connection ?d)" "c_on_message (cl_connection ?d)"
      "sends_only (cl_connection ?d)" by (simp_all add: hi_client_def wss_fresh)
  have sv: "length (sv_objects hi_server) = 0" "sv_on_connection hi_server" "se_greet ?F 0 \<in> {echo_greet 0, tls_echo_greet 0}"
      "se_react ?F 0 = echo_react"
    by (simp_all add: hi_server_def server_set_on_connection_def wss_server_def server_new_def hi_sv_env_def)
  have lv: "tls_live (\<lambda>w h. True) (c_socket (cl_connection ?d))"
      "tls_live (\<lambda>w h. True) (c_socket (sv_conn sv1 (length (sv_objects hi_server))))"
    using sv1(2) wss_open_live sv(1) by simp_all
  have rq: "client_request wss_cl_env (\<lambda>n. 0) wss_url ?d = client_request wss_cl_env (\<lambda>n. 0) wss_url (wss_client [])"
    unfolding hi_client_def by (rule wss_request_same)
  have resp: "server_response ?F key g = server_response (wss_sv_env []) key g" for key g
    by (simp add: server_response_def hi_sv_env_def wss_sv_env_def)
  have tx: "texts_ok wss_cl_env ?F (\<lambda>n. 0) wss_url"
    using wss_texts(1) [of "wss_request @ hi_up"] by (simp add: texts_ok_def hi_sv_env_def)
  have up: "tls_stream (\<lambda>w h. mw_in w) (c_socket (sv_conn sv1 (length (sv_objects hi_server)))) =
      bytes_of_string (client_request wss_cl_env (\<lambda>n. 0) wss_url ?d) @ hi_up"
    using sv1(2) wss_open_live(2) unfolding rq sv(1) by (simp add: wss_request_def)
  have crypto: "ce_crypto wss_cl_env = mem_crypto" by (simp add: wss_cl_env_def mem_cl_env_def)
  have down: "tls_stream (\<lambda>w h. mw_in w) (c_socket (cl_connection ?d)) =
      bytes_of_string (server_response ?F (generate_key (ce_crypto wss_cl_env) (\<lambda>n. 0)) False) @ echo_wire [hi]"
    unfolding resp crypto using wss_open_live(2) by (simp add: wss_answer_def)
  note session = echo_session [OF wss_client.client_stream_axioms hi_server.server_stream_axioms u tx op lv(1) d sv1(1) lv(2)
      sv(2) sv(3,4) [folded sv(1)] up down wss_texts(2) [folded rq] wss_texts(3) [of "[]", folded resp]]
  have e: "echo_text [72, 105] = ''Echo: Hi''" by code_simp
  have "is_valid_utf8 [72, 105]" by code_simp
  then have utf: "list_all (\<lambda>m. is_valid_utf8 (snd m)) [hi]" "list_all message_ok [hi]"
    by (simp_all add: hi_def message_ok_def)
  have asm: "assemble None ?fs = Some (None, [hi])" by (simp add: hi_def)
  have al: "e_alloc (se_env ?F) = (\<lambda>n. n < 2 ^ 30)" "e_alloc (ce_env wss_cl_env) = (\<lambda>n. n < 2 ^ 30)"
    by (simp_all add: hi_sv_env_def wss_sv_env_def wss_cl_env_def on_linux_def mem_cl_env_def mem_env_def)
  have sz: "\<forall>(opc, fin, d) \<in> set ?fs. d \<noteq> [] \<and> length d < 2 ^ 63 \<and> e_alloc (se_env ?F) (length d) \<and>
        int_size (length d + 14) \<and> int_size (length d)"
      "\<forall>m \<in> set [hi]. length (echo_text (snd m)) < 2 ^ 63 \<and> e_alloc (ce_env wss_cl_env) (length (echo_text (snd m))) \<and>
        int_size (length (echo_text (snd m)) + 14) \<and> int_size (length (echo_text (snd m)))"
    using e by (simp_all add: hi_def int_size_def al)
  show ?thesis using session
  proof (elim exE conjE, goal_cases)
    case (1 c1 sv2)
    obtain ec k where k: "send_all (ce_env wss_cl_env) ?fs (cl_connection c1) = (ec, k)" by fastforce
    have hu: "hi_up = drop (length (?out (c_socket (cl_connection c1)))) (?out (c_socket k)) @ []"
      using 1(1) k by (simp add: hi_up_def)
    note E = 1(4) [THEN spec [of _ ?fs], THEN spec [of _ ec], THEN spec [of _ k], THEN spec [of _ None],
        THEN spec [of _ "[hi]"], THEN spec [of _ "[]"], THEN spec [of _ "[]"], THEN mp]
    have "ec = no_error \<and> (\<exists>k1. read_loop (ce_env wss_cl_env) k = read_loop (ce_env wss_cl_env) k1 \<and>
        c_events k1 = c_events k @ echo_events [hi])"
      using E [OF conjI [OF k conjI [OF hu conjI [OF asm conjI [OF utf(2) conjI [OF sz]]]]]] utf(1) by auto
    then show ?case using 1(1) k by (auto simp: echo_events_def hi_def e)
  qed
qed

section \<open>The client program\<close>





end
