(* ===== verification/Compressed.thy ===== *)
theory Compressed
  imports Protocol
begin

text \<open>
  Compressed messages from end to end: the connection's use of permessage-deflate, under zlib's contract.
\<close>



end
