(* ===== verification/Support.thy ===== *)
theory Support
  imports Errors
begin

text \<open>
  The small classes around the core: the descriptor holder \<open>tcp_socket\<close> and the growable \<open>stream_buffer\<close> of
  the POSIX transport, and the log (\<open>src/log.cpp\<close>).
\<close>

section \<open>\<open>tcp_socket\<close>\<close>

text \<open>A holder is its descriptor; an operation on two holders returns both.\<close>

type_synonym tcp_socket = int

definition tcp_move_construct :: "tcp_socket \<Rightarrow> tcp_socket \<times> tcp_socket" where
  "tcp_move_construct other = (other, -1)"

text \<open>\<open>this = std::move(other)\<close> for two different objects: the first component is \<open>this\<close>.\<close>

definition tcp_move_assign :: "tcp_socket \<Rightarrow> tcp_socket \<Rightarrow> tcp_socket \<times> tcp_socket" where
  "tcp_move_assign this other = (other, -1)"

definition tcp_release :: "tcp_socket \<Rightarrow> int \<times> tcp_socket" where
  "tcp_release s = (s, -1)"

definition tcp_native_fd :: "tcp_socket \<Rightarrow> int" where
  "tcp_native_fd s = s"

text \<open>A descriptor that is moved and released is handed out once.\<close>

lemma tcp_release_once:
  "tcp_release s = (fd, s1) \<Longrightarrow> tcp_release s1 = (fd2, s2) \<Longrightarrow> fd = tcp_native_fd s \<and> fd2 = -1"
  "tcp_move_construct s = (a, b) \<Longrightarrow> fst (tcp_release a) = tcp_native_fd s \<and> fst (tcp_release b) = -1"
  by (auto simp: tcp_release_def tcp_move_construct_def tcp_native_fd_def)

section \<open>\<open>stream_buffer\<close>\<close>

type_synonym stream_buffer = string

definition sb_append :: "string \<Rightarrow> nat \<Rightarrow> stream_buffer \<Rightarrow> stream_buffer" where
  "sb_append data n b = b @ take n data"

definition sb_append_char :: "char \<Rightarrow> stream_buffer \<Rightarrow> stream_buffer" where
  "sb_append_char ch b = b @ [ch]"

definition sb_to_string :: "stream_buffer \<Rightarrow> string" where
  "sb_to_string b = b"

definition sb_clear :: "stream_buffer \<Rightarrow> stream_buffer" where
  "sb_clear b = []"

definition sb_size :: "stream_buffer \<Rightarrow> nat" where
  "sb_size b = length b"

text \<open>Appending a block is appending its characters.\<close>

lemma sb_append_chars: "n \<le> length data \<Longrightarrow> sb_append data n b = fold sb_append_char (take n data) b"
proof -
  have "fold sb_append_char cs b = b @ cs" for cs
    by (induction cs arbitrary: b) (simp_all add: sb_append_char_def)
  then show ?thesis by (simp add: sb_append_def)
qed

section \<open>Log levels\<close>

datatype log_level = lv_trace | lv_debug | lv_info | lv_warn | lv_err | lv_critical | lv_off

text \<open>spdlog orders its levels; a message is written if its level is not below the threshold.\<close>

primrec to_spdlog_level :: "log_level \<Rightarrow> nat" where
  "to_spdlog_level lv_trace = 0"
| "to_spdlog_level lv_debug = 1"
| "to_spdlog_level lv_info = 2"
| "to_spdlog_level lv_warn = 3"
| "to_spdlog_level lv_err = 4"
| "to_spdlog_level lv_critical = 5"
| "to_spdlog_level lv_off = 6"

record logger =
  lg_ready :: bool
  lg_level :: nat
  lg_lines :: "string list"

definition ensure_logger :: "logger \<Rightarrow> logger" where
  "ensure_logger g = (if lg_ready g then g else g\<lparr>lg_ready := True, lg_level := to_spdlog_level lv_err\<rparr>)"

definition spdlog_error :: "string \<Rightarrow> logger \<Rightarrow> logger" where
  "spdlog_error line g = (if lg_level g \<le> to_spdlog_level lv_err then g\<lparr>lg_lines := lg_lines g @ [line]\<rparr> else g)"

definition log_error :: "string \<Rightarrow> string \<Rightarrow> logger \<Rightarrow> logger" where
  "log_error component msg g = spdlog_error (''['' @ component @ ''] '' @ msg) (ensure_logger g)"

text \<open>\<open>ec.message()\<close> is a virtual function of the category: the parameter \<open>describe\<close>.\<close>

definition int_digits :: "int \<Rightarrow> string" where
  "int_digits i = (if i < 0 then ''-'' @ nat_digits (nat (- i)) else nat_digits (nat i))"

definition log_error_ec :: "(error_code \<Rightarrow> string) \<Rightarrow> string \<Rightarrow> string \<Rightarrow> error_code \<Rightarrow> logger \<Rightarrow> logger" where
  "log_error_ec describe component action ec g =
     (if \<not> failed ec then g
      else spdlog_error (''['' @ component @ ''] '' @ action @ '': '' @ describe ec @ '' ('' @ int_digits (ec_value ec) @ '')'')
             (ensure_logger g))"

definition set_log_level :: "log_level \<Rightarrow> logger \<Rightarrow> logger" where
  "set_log_level l g = (ensure_logger g)\<lparr>lg_level := to_spdlog_level l\<rparr>"

text \<open>
  The level that was set stays in force, whether or not the logger existed; errors are written at every
  level up to \<open>err\<close>.
\<close>

lemma log_error_after_set:
  "lg_lines (log_error component msg (set_log_level l g)) =
     lg_lines g @ (if l = lv_critical \<or> l = lv_off then [] else [''['' @ component @ ''] '' @ msg])"
  by (cases l) (simp_all add: log_error_def set_log_level_def ensure_logger_def spdlog_error_def)

text \<open>Success is not logged and does not even create the logger; a failure is one line like any other error.\<close>

lemma log_error_ec_lines:
  "log_error_ec describe component action ec g =
     (if failed ec then log_error component (action @ '': '' @ describe ec @ '' ('' @ int_digits (ec_value ec) @ '')'') g else g)"
  by (simp add: log_error_ec_def log_error_def)

end
