(* ===== verification/Spec2Isabelle.thy ===== *)
theory Spec2Isabelle
  imports Server_Asio Asio_Context Dialogue Echo Compressed Support
begin

text \<open>
  A verification development of wscpp, a WebSocket library (RFC 6455, with the permessage-deflate
  extension of RFC 7692) for clients and servers over plain TCP or TLS.

  \<^bold>\<open>The program and how its parts interact.\<close>  An application uses a \<open>client\<close> or a \<open>server\<close>.  Both
  perform the HTTP opening handshake on a stream socket and then hand the socket to a \<open>connection\<close>, which
  has a reader thread that parses frames and calls the application's callbacks, and sends frames built by
  the frame \<open>builder\<close>.  The stream socket is one of two transports, POSIX or ASIO, chosen at build time.
  Masking, UTF-8 validation, compression and the error codes are used by the connection; the incremental
  frame \<open>parser\<close> is a public class of its own.

  \<^bold>\<open>The theories and the code they model\<close> (paths below \<open>include/wscpp\<close> and \<open>src\<close> of the repository).

  \<^item> \<open>Prelude\<close>: octets, words, strings, list overwriting, substring search.
  \<^item> \<open>Mask\<close>: \<open>detail/mask.hpp\<close>, the word-wise masking loops; equal to the octet-wise definition, for every
    length and alignment.
  \<^item> \<open>Utf8\<close>: \<open>detail/utf8.hpp\<close>; the validator accepts exactly the encodings of Unicode scalar values.
  \<^item> \<open>Errors\<close>: \<open>error.hpp\<close>, \<open>error.cpp\<close>.
  \<^item> \<open>Frame\<close>, \<open>Builder\<close>: \<open>frame/parser.hpp\<close> (data), \<open>frame/builder.cpp\<close>; the octets a frame consists of
    (\<open>encode_frame\<close>).
  \<^item> \<open>Parser\<close>: \<open>frame/parser.cpp\<close>; the parser inverts the builder, also for payload in any number of
    pieces, keeps its state well formed, and refuses exactly the headers the code means to refuse.
  \<^item> \<open>Transport\<close>: the operations of a stream socket as a record, and the interfaces \<open>byte_stream\<close> and
    \<open>exact_stream\<close> that the layers above rely on.
  \<^item> \<open>Linux_Socket\<close>: \<open>net/linux_socket.cpp\<close>; system calls and OpenSSL are the parameter \<open>os\<close>.  The loops of
    the socket are verified once over the contract \<open>socket_io\<close> of the call they repeat.  From the POSIX
    contract of \<open>send\<close> and \<open>recv\<close> (locale \<open>posix_stream\<close>) the plain socket is an \<open>exact_stream\<close>.
  \<^item> \<open>Asio_Socket\<close>: \<open>net/asio_socket.cpp\<close>; ASIO is the parameter \<open>asio\<close>.  From its documented contract
    (locale \<open>asio_stream\<close>) the socket is a \<open>byte_stream\<close>; its \<open>read_until\<close> may read too far.
  \<^item> \<open>Deflate\<close>: \<open>extensions/permessage_deflate.cpp\<close>; zlib is the parameter \<open>zlib\<close> with the contract
    \<open>raw_deflate\<close>, which a run-length codec satisfies.
  \<^item> \<open>Connection\<close>: \<open>connection.cpp\<close>, every operation of \<open>connection::impl\<close>, one record field per member, and
    the members of the public class as requests (\<open>connection_api\<close>).
  \<^item> \<open>Reader\<close>, \<open>Session\<close>, \<open>Compressed\<close>: reading one encoded frame; the specification \<open>assemble\<close> of how
    frames make up messages, and that the reader's loop refines it; messages sent at one end arrive at the
    other, with and without compression.
  \<^item> \<open>Protocol\<close>: the protocol rules: header validation against the rules of RFC 6455, which of them are enforced
    and which are not, UTF-8, ping and close, and what is reported of a failure.
  \<^item> \<open>Lifecycle\<close>: termination of the reader's loop, the end of the stream, oversized frames, closing.
  \<^item> \<open>Steps\<close>: the connection as a transition system of API calls and frames, its invariant, that text callbacks
    are UTF-8, and the race between senders.
  \<^item> \<open>Handshake\<close>, \<open>Handshake_Stream\<close>: \<open>handshake.cpp\<close>; requests and responses are parsed back, and end at
    their only empty line.  SHA-1 and base64 are the parameter \<open>crypto\<close>.
  \<^item> \<open>Openssl_Context\<close>: \<open>net/openssl_context.cpp\<close>; OpenSSL is the parameter \<open>openssl\<close>.
  \<^item> \<open>Client\<close>: \<open>client.cpp\<close>, every operation of \<open>client::impl\<close>.
  \<^item> \<open>Client_Steps\<close>: the public class of the client (\<open>client_api\<close>) and the client as a transition system of its
    calls, its reader, whose callbacks come back through the client, and the end of \<open>connect\<close>; its invariant.
  \<^item> \<open>Tls\<close>: the POSIX socket under TLS, from the contract of \<open>SSL_write\<close> and \<open>SSL_read\<close> (locale
    \<open>tls_session\<close>) again an \<open>exact_stream\<close>, for sizes below \<open>2 ^ 31\<close>; the client on a \<open>wss\<close> URL, and that nothing of its handshake leaves TLS.
  \<^item> \<open>Asio_Context\<close>: \<open>crypto/ssl_context.cpp\<close> and the default TLS context of the ASIO build.
  \<^item> \<open>Server\<close>: \<open>server.cpp\<close>, the POSIX build: listener, accept loop, handshake, lists of connections, stop,
    and the public class (\<open>server_api\<close>).
  \<^item> \<open>Agreement\<close>: the handshake between client and server.
  \<^item> \<open>Server_Steps\<close>: the server as a transition system of its threads, its invariant, stopping, and the
    connections it never forgets.
  \<^item> \<open>Dialogue\<close>: client and server together: \<open>connect\<close> and \<open>handle_accept\<close> succeed on each other's octets and
    messages then pass in both directions, over any two transports; run over TLS.
  \<^item> \<open>Server_Accept\<close>: \<open>handle_accept\<close>, run as one piece, is a run of that transition system.
  \<^item> \<open>Server_Asio\<close>: \<open>server.cpp\<close>, the ASIO build, over the same state and with the same invariant; the threads
    inside \<open>io_context::run\<close> are part of the state, there is never more than one, and so one handshake at a time.
  \<^item> \<open>Echo\<close>: the programs of \<open>examples/\<close>: their arguments, callbacks and \<open>main\<close>; the echo server, from
    accepting a client to the echoes it receives, and the client program for every schedule of its reader.
  \<^item> \<open>Support\<close>: \<open>net/tcp_socket.hpp\<close>, \<open>net/stream_buffer.hpp\<close>, \<open>log.cpp\<close>.

  \<^bold>\<open>State, callbacks and threads.\<close>  Objects are records and operations return the new state.  A callback
  is recorded as an event; what it does with the connection is a function from the events so far to API
  calls, which run to completion inside the callback.  The reader thread is \<open>read_loop\<close>;
  a thread that closes the connection joins the reader, whose read then fails or which leaves its loop
  quietly: the schedule \<open>e_wake\<close> of the environment, arbitrary in every theorem, decides.  Interleavings with
  other threads are the steps of \<open>Steps\<close>, \<open>Client_Steps\<close>, \<open>Server_Steps\<close> and \<open>Server_Asio\<close>.  In the server a connection is named by an
  index that stands for its pointer, and \<open>handle_accept\<close> is cut where other threads can act.  A
  \<open>std::error_code\<close> is a value and a category, an exception is an \<open>Inl\<close>, an operation that may wait forever
  is an option with \<open>None\<close> for not returning.  Machine integers are words.

  \<^bold>\<open>Interfaces.\<close>  \<open>byte_stream\<close> and \<open>exact_stream\<close> carry the proofs about connection, client and server
  (\<open>stream_env\<close>, \<open>client_stream\<close>, \<open>server_stream\<close>); they are discharged for both transports and for TLS
  from the contracts of the system (\<open>posix_stream\<close>, \<open>asio_stream\<close>, \<open>tls_session\<close>), which are in turn satisfied by
  in-memory streams.  Their parameter \<open>fits\<close> says which sizes one call can transfer: every size on a plain
  socket, those an \<open>int\<close> can hold under TLS.  The in-memory instances are also what the witnesses evaluate on.

  \<^bold>\<open>Loops.\<close>  \<open>write_loop\<close>, \<open>read_raw\<close>, the parser's and the masking loops and the header loop terminate by a
  measure.  \<open>read_loop\<close> and \<open>read_until\<close> may wait and are partial functions into \<open>option\<close>; that the reader's
  loop returns on every stream that ends is a theorem, as is that \<open>read_until\<close> returns once the delimiter is
  on the stream.  No fuel is used.

  \<^bold>\<open>Not modelled.\<close>  The version constants, which the build generates; console output of the examples;
  timing; interleavings within the handling of one frame or within one operation, other than those shown in
  \<open>Steps\<close> and \<open>Server_Steps\<close>.
  The Rust port, the tests and the benchmarks are separate programs.
\<close>

end
